(* ===== verification/Prelude.thy ===== *)
theory Prelude
  imports Main "HOL-Library.Word" "HOL-Library.Signed_Division" "HOL-Library.AList"
begin

text \<open>
  Shared material of the VeloxDB development: the names of the machine types the C++ code
  uses, the wrap-around of a signed 64-bit result, evaluation rules for characters, and the
  generic facts on association lists and on lists that the component theories share.

  Two collections steer the automation.  \<open>evals\<close> holds the rules that evaluate closed
  terms inside the kernel (witnesses are \<open>simp add: evals\<close>), \<open>frame_simps\<close> the facts
  that an update of one field leaves another one alone.
\<close>

named_theorems evals "rules that evaluate closed terms of the model"
named_theorems frame_simps "fields that an operation leaves unchanged"

type_synonym bytes = string
type_synonym time_point = int
  \<comment> \<open>ticks of \<open>std::chrono::system_clock\<close> since its epoch (nanoseconds)\<close>
type_synonym clock = "nat \<Rightarrow> time_point"
  \<comment> \<open>the readings one call takes from \<open>Clock::now()\<close>, in the order it takes them\<close>


section \<open>Signed 64-bit values\<close>

text \<open>
  A value of \<open>int64_t\<close> is an integer with \<open>in_i64\<close>.  Where the code computes without
  a guard the model applies \<open>wrap64\<close>, the two's complement result.
\<close>

definition i64_max :: int where "i64_max = 9223372036854775807"
definition i64_min :: int where "i64_min = - 9223372036854775808"

definition in_i64 :: "int \<Rightarrow> bool" where
  "in_i64 x \<longleftrightarrow> i64_min \<le> x \<and> x \<le> i64_max"

definition wrap64 :: "int \<Rightarrow> int" where
  "wrap64 x = signed_take_bit 63 x"

definition u64_max :: nat where "u64_max = 18446744073709551615"

lemmas i64_bounds = i64_max_def i64_min_def
lemmas [evals] = i64_max_def i64_min_def in_i64_def wrap64_def u64_max_def

lemma wrap64_id [simp]: "in_i64 x \<Longrightarrow> wrap64 x = x"
  by (simp add: in_i64_def wrap64_def i64_bounds signed_take_bit_int_eq_self)

lemma wrap64_range [simp]: "in_i64 (wrap64 x)"
  using signed_take_bit_int_less_exp [of 63 x] signed_take_bit_int_greater_eq_minus_exp [of 63 x]
  by (simp add: in_i64_def wrap64_def i64_bounds)

lemma in_i64_nonneg: "0 \<le> x \<Longrightarrow> x \<le> i64_max \<Longrightarrow> in_i64 x"
  by (simp add: in_i64_def i64_bounds)


section \<open>Lists and options\<close>

lemma takeWhile_all: "\<forall>x\<in>set xs. P x \<Longrightarrow> takeWhile P xs = xs"
  by (induction xs) auto

lemma dropWhile_all: "\<forall>x\<in>set xs. P x \<Longrightarrow> dropWhile P xs = []"
  by (induction xs) auto

lemma dropWhile_none: "\<forall>x\<in>set xs. \<not> P x \<Longrightarrow> dropWhile P xs = xs"
  by (cases xs) auto

lemma length_le_concat:
  "x \<in> set xs \<Longrightarrow> length (f x) \<le> length (concat (map f xs))"
  by (induction xs) auto


section \<open>Association lists\<close>

text \<open>
  A \<open>std::unordered_map\<close> is an association list with distinct keys: lookup is
  \<open>map_of\<close>, assignment \<open>AList.update\<close>, erasure \<open>AList.delete\<close>, and iteration visits
  the pairs in list order.
\<close>

lemma delete_absent [simp]: "map_of al k = None \<Longrightarrow> AList.delete k al = al"
  by (induction al) (auto split: if_splits)

lemma sum_list_delete:
  fixes f :: "'k \<times> 'v \<Rightarrow> nat"
  assumes "distinct (map fst al)" and "map_of al k = Some v"
  shows "sum_list (map f (AList.delete k al)) + f (k, v) = sum_list (map f al)"
  using assms
proof (induction al)
  case (Cons p al)
  obtain a b where p: "p = (a, b)" by (cases p)
  show ?case
  proof (cases "a = k")
    case True
    with Cons.prems p have "map_of al k = None" and "b = v"
      by (auto simp: map_of_eq_None_iff)
    with True p show ?thesis by simp
  next
    case False
    with Cons p show ?thesis by simp
  qed
qed simp

lemma update_absent: "map_of al k = None \<Longrightarrow> AList.update k v al = al @ [(k, v)]"
  by (induction al) auto

lemma sum_list_update_absent:
  fixes f :: "'k \<times> 'v \<Rightarrow> nat"
  assumes "map_of al k = None"
  shows "sum_list (map f (AList.update k v al)) = sum_list (map f al) + f (k, v)"
  using assms by (simp add: update_absent)

lemma sum_list_update_present:
  fixes f :: "'k \<times> 'v \<Rightarrow> nat"
  assumes "distinct (map fst al)" and "map_of al k = Some v"
  shows "sum_list (map f (AList.update k w al)) + f (k, v) = sum_list (map f al) + f (k, w)"
  using assms
proof (induction al)
  case (Cons p al)
  then show ?case by (cases p) (auto split: if_splits)
qed simp

lemma map_of_member_le_sum:
  fixes f :: "'k \<times> 'v \<Rightarrow> nat"
  assumes "map_of al k = Some v"
  shows "f (k, v) \<le> sum_list (map f al)"
  using map_of_SomeD [OF assms] by (induction al) auto

lemma sum_list_nth_update:
  fixes f :: "'a \<Rightarrow> nat"
  assumes "i < length xs"
  shows "sum_list (map f (xs[i := x])) + f (xs ! i) = sum_list (map f xs) + f x"
  using assms
proof (induction xs arbitrary: i)
  case (Cons y ys)
  then show ?case by (cases i) (auto simp: add.assoc add.left_commute)
qed simp

lemma nth_le_sum_list:
  fixes f :: "'a \<Rightarrow> nat"
  assumes "i < length xs"
  shows "f (xs ! i) \<le> sum_list (map f xs)"
  using assms by (simp add: member_le_sum_list)

lemma map_of_filter_distinct:
  assumes "distinct (map fst al)"
  shows "map_of (filter P al) k =
    (case map_of al k of None \<Rightarrow> None | Some v \<Rightarrow> if P (k, v) then Some v else None)"
  using assms
proof (induction al)
  case (Cons p al)
  obtain a b where p: "p = (a, b)" by (cases p)
  show ?case
  proof (cases "a = k")
    case True
    with Cons.prems p have "map_of al k = None"
      by (auto simp: map_of_eq_None_iff)
    with Cons True p show ?thesis by simp
  next
    case False
    with Cons p show ?thesis by simp
  qed
qed simp

lemma distinct_fst_filter: "distinct (map fst al) \<Longrightarrow> distinct (map fst (filter P al))"
  by (simp add: distinct_map_filter)

end
