(* ===== verification/Util_Strings.thy ===== *)
theory Util_Strings
  imports Prelude
begin

text \<open>
  The string helpers of \<open>src/util/string.cpp\<close> and what they use of the C++ library:
  \<open>std::isspace\<close>, \<open>std::toupper\<close> and \<open>std::tolower\<close> in the C locale, decimal
  \<open>std::to_string\<close>, and decimal \<open>std::from_chars\<close>.  A \<open>std::string\<close> is a list of
  bytes.  The lemmas show that printing and parsing decimal numbers are inverse, that the
  integer parsers accept exactly the decimal numerals in range, and that the splitting and
  trimming loops return what their callers rely on.
\<close>


section \<open>Characters\<close>

definition isspace :: "char \<Rightarrow> bool" where
  "isspace c \<longleftrightarrow> (of_char c :: nat) = 32 \<or> (9 \<le> (of_char c :: nat) \<and> (of_char c :: nat) \<le> 13)"

definition toupper :: "char \<Rightarrow> char" where
  "toupper c = (if 97 \<le> (of_char c :: nat) \<and> (of_char c :: nat) \<le> 122
     then char_of ((of_char c :: nat) - 32) else c)"

definition tolower :: "char \<Rightarrow> char" where
  "tolower c = (if 65 \<le> (of_char c :: nat) \<and> (of_char c :: nat) \<le> 90
     then char_of ((of_char c :: nat) + 32) else c)"

definition is_digit :: "char \<Rightarrow> bool" where
  "is_digit c \<longleftrightarrow> 48 \<le> (of_char c :: nat) \<and> (of_char c :: nat) \<le> 57"

definition digit_val :: "char \<Rightarrow> nat" where
  "digit_val c = (of_char c :: nat) - 48"

definition digit_char :: "nat \<Rightarrow> char" where
  "digit_char d = char_of (48 + d)"

lemma is_digit_digit_char [simp]: "d < 10 \<Longrightarrow> is_digit (digit_char d)"
  by (simp add: is_digit_def digit_char_def)

lemma digit_val_digit_char [simp]: "d < 10 \<Longrightarrow> digit_val (digit_char d) = d"
  by (simp add: digit_val_def digit_char_def)

lemma digit_val_less: "is_digit c \<Longrightarrow> digit_val c < 10"
  by (auto simp: is_digit_def digit_val_def)

lemma digit_not_space: "is_digit c \<Longrightarrow> \<not> isspace c"
  by (auto simp: is_digit_def isspace_def)

lemma minus_not_digit [simp]: "\<not> is_digit CHR ''-''" and minus_not_space [simp]: "\<not> isspace CHR ''-''"
  by (simp_all add: is_digit_def isspace_def)

lemma cr_not_digit [simp]: "\<not> is_digit CHR 0x0D" and lf_not_digit [simp]: "\<not> is_digit CHR 0x0A"
  by (simp_all add: is_digit_def)

lemma tolower_idem [simp]: "tolower (tolower c) = tolower c"
  by (auto simp: tolower_def)

lemma toupper_idem [simp]: "toupper (toupper c) = toupper c"
  by (auto simp: toupper_def)

lemma digit_char_evals [evals]:
  "digit_char 0 = CHR ''0''" "digit_char (Suc 0) = CHR ''1''" "digit_char 1 = CHR ''1''"
  "digit_char 2 = CHR ''2''" "digit_char 3 = CHR ''3''" "digit_char 4 = CHR ''4''"
  "digit_char 5 = CHR ''5''" "digit_char 6 = CHR ''6''" "digit_char 7 = CHR ''7''"
  "digit_char 8 = CHR ''8''" "digit_char 9 = CHR ''9''"
  by (simp_all add: digit_char_def char_of_def bit_iff_odd)

lemma char_of_upper_evals [evals]:
  "char_of (65::nat) = CHR ''A''" "char_of (66::nat) = CHR ''B''" "char_of (67::nat) = CHR ''C''"
  "char_of (68::nat) = CHR ''D''" "char_of (69::nat) = CHR ''E''" "char_of (70::nat) = CHR ''F''"
  "char_of (71::nat) = CHR ''G''" "char_of (72::nat) = CHR ''H''" "char_of (73::nat) = CHR ''I''"
  "char_of (74::nat) = CHR ''J''" "char_of (75::nat) = CHR ''K''" "char_of (76::nat) = CHR ''L''"
  "char_of (77::nat) = CHR ''M''" "char_of (78::nat) = CHR ''N''" "char_of (79::nat) = CHR ''O''"
  "char_of (80::nat) = CHR ''P''" "char_of (81::nat) = CHR ''Q''" "char_of (82::nat) = CHR ''R''"
  "char_of (83::nat) = CHR ''S''" "char_of (84::nat) = CHR ''T''" "char_of (85::nat) = CHR ''U''"
  "char_of (86::nat) = CHR ''V''" "char_of (87::nat) = CHR ''W''" "char_of (88::nat) = CHR ''X''"
  "char_of (89::nat) = CHR ''Y''" "char_of (90::nat) = CHR ''Z''"
  by (simp_all add: char_of_def bit_iff_odd)

lemma char_of_lower_evals [evals]:
  "char_of (97::nat) = CHR ''a''" "char_of (98::nat) = CHR ''b''" "char_of (99::nat) = CHR ''c''"
  "char_of (100::nat) = CHR ''d''" "char_of (101::nat) = CHR ''e''" "char_of (102::nat) = CHR ''f''"
  "char_of (103::nat) = CHR ''g''" "char_of (104::nat) = CHR ''h''" "char_of (105::nat) = CHR ''i''"
  "char_of (106::nat) = CHR ''j''" "char_of (107::nat) = CHR ''k''" "char_of (108::nat) = CHR ''l''"
  "char_of (109::nat) = CHR ''m''" "char_of (110::nat) = CHR ''n''" "char_of (111::nat) = CHR ''o''"
  "char_of (112::nat) = CHR ''p''" "char_of (113::nat) = CHR ''q''" "char_of (114::nat) = CHR ''r''"
  "char_of (115::nat) = CHR ''s''" "char_of (116::nat) = CHR ''t''" "char_of (117::nat) = CHR ''u''"
  "char_of (118::nat) = CHR ''v''" "char_of (119::nat) = CHR ''w''" "char_of (120::nat) = CHR ''x''"
  "char_of (121::nat) = CHR ''y''" "char_of (122::nat) = CHR ''z''"
  by (simp_all add: char_of_def bit_iff_odd)

lemmas [evals] = isspace_def toupper_def tolower_def is_digit_def digit_val_def


section \<open>Trimming, case mapping, splitting\<close>

definition trim :: "string \<Rightarrow> string" where
  "trim input = rev (dropWhile isspace (rev (dropWhile isspace input)))"

definition to_upper_ascii :: "string \<Rightarrow> string" where
  "to_upper_ascii input = map toupper input"

definition to_lower_ascii :: "string \<Rightarrow> string" where
  "to_lower_ascii input = map tolower input"

fun iequals_loop :: "string \<Rightarrow> string \<Rightarrow> bool" where
  "iequals_loop (a # as) (b # bs) =
     (if tolower a \<noteq> tolower b then False else iequals_loop as bs)"
| "iequals_loop _ _ = True"

definition iequals :: "string \<Rightarrow> string \<Rightarrow> bool" where
  "iequals lhs rhs = (if length lhs \<noteq> length rhs then False else iequals_loop lhs rhs)"

text \<open>
  \<open>split_words\<close> walks one index over the line; the model keeps the rest of the line instead
  of the index.
\<close>

function split_words :: "string \<Rightarrow> string list" where
  "split_words line =
     (if line = [] then []
      else let rest = dropWhile isspace line;
               word = takeWhile (\<lambda>c. \<not> isspace c) rest;
               next = dropWhile (\<lambda>c. \<not> isspace c) rest
           in if word \<noteq> [] then word # split_words next else split_words next)"
  by pat_completeness auto

lemma split_words_shorter:
  assumes "line \<noteq> []"
  shows "length (dropWhile (\<lambda>c. \<not> isspace c) (dropWhile isspace line)) < length line"
proof (cases line)
  case (Cons c cs)
  have le: "length (dropWhile P (dropWhile Q xs)) \<le> length xs" for P Q and xs :: string
    using length_dropWhile_le [of P "dropWhile Q xs"] length_dropWhile_le [of Q xs] by linarith
  have le1: "length (dropWhile P xs) \<le> length xs" for P and xs :: string
    by (rule length_dropWhile_le)
  from Cons show ?thesis
    by (auto simp: less_Suc_eq_le le le1)
qed (use assms in simp)

termination split_words
  by (relation "measure length") (use split_words_shorter in auto)

declare split_words.simps [simp del]

lemma split_words_sound:
  "w \<in> set (split_words line) \<Longrightarrow> w \<noteq> [] \<and> (\<forall>c\<in>set w. \<not> isspace c)"
proof (induction "length line" arbitrary: line rule: less_induct)
  case less
  let ?rest = "dropWhile isspace line"
  let ?next = "dropWhile (\<lambda>c. \<not> isspace c) ?rest"
  from less.prems have "line \<noteq> []"
    by (auto simp: split_words.simps)
  with less.prems consider
      (word) "w = takeWhile (\<lambda>c. \<not> isspace c) ?rest" "w \<noteq> []"
    | (next_word) "w \<in> set (split_words ?next)"
    by (simp add: split_words.simps [of line] Let_def split: if_splits) blast
  then show ?case
  proof cases
    case word
    then show ?thesis by (auto dest: set_takeWhileD)
  next
    case next_word
    with less.hyps [OF split_words_shorter] \<open>line \<noteq> []\<close> show ?thesis by blast
  qed
qed

lemma iequals_loop_iff:
  "length xs = length ys \<Longrightarrow> iequals_loop xs ys \<longleftrightarrow> map tolower xs = map tolower ys"
  by (induction xs ys rule: list_induct2) auto

lemma iequals_iff: "iequals lhs rhs \<longleftrightarrow> to_lower_ascii lhs = to_lower_ascii rhs"
  by (auto simp: iequals_def to_lower_ascii_def iequals_loop_iff dest: map_eq_imp_length_eq)

lemma to_lower_idem [simp]: "to_lower_ascii (to_lower_ascii s) = to_lower_ascii s"
  by (simp add: to_lower_ascii_def)

lemma to_upper_idem [simp]: "to_upper_ascii (to_upper_ascii s) = to_upper_ascii s"
  by (simp add: to_upper_ascii_def)

lemma trim_no_space: "\<forall>c\<in>set s. \<not> isspace c \<Longrightarrow> trim s = s"
  by (simp add: trim_def dropWhile_none)

lemma trim_idem: "trim (trim s) = trim s"
proof -
  define r where "r = dropWhile isspace (rev (dropWhile isspace s))"
  have hd_r: "r \<noteq> [] \<Longrightarrow> \<not> isspace (hd r)"
    unfolding r_def by (rule hd_dropWhile)
  have last_r: "r \<noteq> [] \<Longrightarrow> \<not> isspace (last r)"
  proof -
    assume "r \<noteq> []"
    then have "last r = last (rev (dropWhile isspace s))"
      unfolding r_def by (metis append_is_Nil_conv last_appendR takeWhile_dropWhile_id)
    moreover have "dropWhile isspace s \<noteq> []"
      using \<open>r \<noteq> []\<close> unfolding r_def by (metis dropWhile.simps(1) rev.simps(1))
    ultimately show ?thesis by (simp add: last_rev hd_dropWhile)
  qed
  have "dropWhile isspace (rev r) = rev r"
    using last_r by (cases "r = []") (simp_all add: dropWhile_eq_self_iff hd_rev)
  moreover have "dropWhile isspace r = r"
    using hd_r by (cases "r = []") (simp_all add: dropWhile_eq_self_iff)
  ultimately show ?thesis by (simp add: trim_def r_def [symmetric])
qed


section \<open>Decimal numerals\<close>

text \<open>\<open>std::to_string\<close> on unsigned and signed integers.\<close>

fun nat_to_string :: "nat \<Rightarrow> string" where
  "nat_to_string n =
     (if n < 10 then [digit_char n] else nat_to_string (n div 10) @ [digit_char (n mod 10)])"

declare nat_to_string.simps [simp del]
lemmas [evals] = nat_to_string.simps

definition int_to_string :: "int \<Rightarrow> string" where
  "int_to_string i =
     (if i < 0 then CHR ''-'' # nat_to_string (nat (- i)) else nat_to_string (nat i))"

lemmas [evals] = int_to_string_def

fun digits_val :: "nat \<Rightarrow> string \<Rightarrow> nat" where
  "digits_val acc [] = acc"
| "digits_val acc (c # cs) = digits_val (acc * 10 + digit_val c) cs"

lemma digits_val_append: "digits_val a (xs @ ys) = digits_val (digits_val a xs) ys"
  by (induction xs arbitrary: a) auto

lemma nat_to_string_nonempty [simp]: "nat_to_string n \<noteq> []"
  by (subst nat_to_string.simps) simp

lemma nat_to_string_digits: "c \<in> set (nat_to_string n) \<Longrightarrow> is_digit c"
proof (induction n rule: nat_to_string.induct)
  case (1 n)
  then show ?case
    by (subst (asm) (2) nat_to_string.simps) (auto split: if_splits)
qed

lemma digits_val_nat_to_string [simp]: "digits_val 0 (nat_to_string n) = n"
proof (induction n rule: nat_to_string.induct)
  case (1 n)
  then show ?case
    by (subst nat_to_string.simps) (auto simp: digits_val_append)
qed

lemma nat_to_string_inject [simp]: "nat_to_string m = nat_to_string n \<longleftrightarrow> m = n"
  by (metis digits_val_nat_to_string)

text \<open>
  \<open>std::from_chars(first, last, value, 10)\<close>: an optional minus sign (signed types only), then
  the longest run of digits.  The result is the error code, the value when there is no error,
  and the rest of the input that \<open>ptr\<close> points to.
\<close>

datatype errc = errc_ok | invalid_argument_errc | result_out_of_range

definition from_chars_i64 :: "string \<Rightarrow> errc \<times> int \<times> string" where
  "from_chars_i64 s =
     (let neg = (s \<noteq> [] \<and> hd s = CHR ''-'');
          body = (if neg then tl s else s);
          ds = takeWhile is_digit body;
          v = (if neg then - int (digits_val 0 ds) else int (digits_val 0 ds))
      in if ds = [] then (invalid_argument_errc, 0, s)
         else if in_i64 v then (errc_ok, v, dropWhile is_digit body)
         else (result_out_of_range, 0, dropWhile is_digit body))"

definition from_chars_u64 :: "string \<Rightarrow> errc \<times> nat \<times> string" where
  "from_chars_u64 s =
     (let ds = takeWhile is_digit s
      in if ds = [] then (invalid_argument_errc, 0, s)
         else if digits_val 0 ds \<le> u64_max then (errc_ok, digits_val 0 ds, dropWhile is_digit s)
         else (result_out_of_range, 0, dropWhile is_digit s))"

text \<open>
  The pattern shared by \<open>parse_i64\<close>, \<open>parse_number_line\<close> and \<open>parse_integer_value\<close>: the
  whole input must be one numeral.
\<close>

definition whole_i64 :: "string \<Rightarrow> int option" where
  "whole_i64 s =
     (if s = [] then None
      else case from_chars_i64 s of (ec, v, rest) \<Rightarrow>
        if ec \<noteq> errc_ok \<or> rest \<noteq> [] then None else Some v)"

definition parse_i64 :: "string \<Rightarrow> int option" where
  "parse_i64 input =
     (let trimmed = trim input in
      if trimmed = [] then None
      else case from_chars_i64 trimmed of (ec, v, rest) \<Rightarrow>
        if ec \<noteq> errc_ok \<or> rest \<noteq> [] then None else Some v)"

definition parse_u64 :: "string \<Rightarrow> nat option" where
  "parse_u64 input =
     (let trimmed = trim input in
      if trimmed = [] \<or> hd trimmed = CHR ''-'' then None
      else case from_chars_u64 trimmed of (ec, v, rest) \<Rightarrow>
        if ec \<noteq> errc_ok \<or> rest \<noteq> [] then None else Some v)"

definition parse_bool :: "string \<Rightarrow> bool option" where
  "parse_bool input =
     (let value = to_lower_ascii (trim input) in
      if value = ''1'' \<or> value = ''true'' \<or> value = ''yes'' \<or> value = ''on'' then Some True
      else if value = ''0'' \<or> value = ''false'' \<or> value = ''no'' \<or> value = ''off'' then Some False
      else None)"

definition strip_suffix :: "string \<Rightarrow> string \<Rightarrow> string option" where
  "strip_suffix value suffix =
     (if length suffix \<le> length value \<and> drop (length value - length suffix) value = suffix
      then Some (take (length value - length suffix) value) else None)"

fun strip_first_suffix :: "string \<Rightarrow> (string \<times> nat) list \<Rightarrow> string \<times> nat" where
  "strip_first_suffix value [] = (value, 1)"
| "strip_first_suffix value ((suffix, factor) # more) =
     (case strip_suffix value suffix of
        Some rest \<Rightarrow> (rest, factor)
      | None \<Rightarrow> strip_first_suffix value more)"

definition byte_suffixes :: "(string \<times> nat) list" where
  "byte_suffixes =
     [(''kb'', 1024), (''k'', 1024), (''mb'', 1024 * 1024), (''m'', 1024 * 1024),
      (''gb'', 1024 * 1024 * 1024), (''g'', 1024 * 1024 * 1024)]"

definition parse_byte_size :: "string \<Rightarrow> nat option" where
  "parse_byte_size input =
     (let value = to_lower_ascii (trim input) in
      if value = [] then None
      else case strip_first_suffix value byte_suffixes of (number, multiplier) \<Rightarrow>
        (case parse_u64 number of
           None \<Rightarrow> None
         | Some parsed \<Rightarrow>
             if parsed > u64_max div multiplier then None else Some (parsed * multiplier)))"

fun shell_quote_loop :: "string \<Rightarrow> string" where
  "shell_quote_loop [] = []"
| "shell_quote_loop (ch # chs) =
     (if ch = CHR 0x27 then [CHR 0x27, CHR 0x5C, CHR 0x27, CHR 0x27] else [ch])
       @ shell_quote_loop chs"

definition shell_quote :: "string \<Rightarrow> string" where
  "shell_quote input = [CHR 0x27] @ shell_quote_loop input @ [CHR 0x27]"

lemmas [evals] = from_chars_i64_def from_chars_u64_def whole_i64_def parse_i64_def parse_u64_def
  parse_bool_def strip_suffix_def byte_suffixes_def parse_byte_size_def trim_def
  to_upper_ascii_def to_lower_ascii_def


section \<open>Printing and parsing are inverse\<close>

lemma nat_to_string_takeWhile [simp]:
  "takeWhile is_digit (nat_to_string n) = nat_to_string n"
  "dropWhile is_digit (nat_to_string n) = []"
  using nat_to_string_digits by (auto intro!: takeWhile_all dropWhile_all)

lemma hd_nat_to_string [simp]: "hd (nat_to_string n) \<noteq> CHR ''-''"
  using nat_to_string_digits [of "hd (nat_to_string n)" n] by auto

lemma int_to_string_nonempty [simp]: "int_to_string i \<noteq> []"
  by (simp add: int_to_string_def)

lemma int_to_string_no_space: "c \<in> set (int_to_string i) \<Longrightarrow> \<not> isspace c"
  using nat_to_string_digits by (auto simp: int_to_string_def digit_not_space split: if_splits)

lemma int_to_string_no_cr: "CHR 0x0D \<notin> set (int_to_string i)"
  using nat_to_string_digits [of "CHR 0x0D"] by (auto simp: int_to_string_def split: if_splits)

lemma from_chars_int_to_string:
  assumes "in_i64 i"
  shows "from_chars_i64 (int_to_string i) = (errc_ok, i, [])"
proof (cases "i < 0")
  case True
  with assms show ?thesis
    by (simp add: int_to_string_def from_chars_i64_def Let_def)
next
  case False
  with assms show ?thesis
    by (simp add: int_to_string_def from_chars_i64_def Let_def)
qed

lemma whole_i64_int_to_string [simp]: "in_i64 i \<Longrightarrow> whole_i64 (int_to_string i) = Some i"
  by (simp add: whole_i64_def from_chars_int_to_string)

lemma parse_i64_trim: "parse_i64 s = whole_i64 (trim s)"
  by (simp add: parse_i64_def whole_i64_def Let_def)

lemma parse_i64_int_to_string [simp]: "in_i64 i \<Longrightarrow> parse_i64 (int_to_string i) = Some i"
  by (simp add: parse_i64_trim trim_no_space int_to_string_no_space)

lemma from_chars_i64_range: "from_chars_i64 s = (errc_ok, v, rest) \<Longrightarrow> in_i64 v"
  by (auto simp: from_chars_i64_def Let_def split: if_splits)

lemma whole_i64_range: "whole_i64 s = Some v \<Longrightarrow> in_i64 v"
  using from_chars_i64_range by (auto simp: whole_i64_def split: if_splits prod.splits)

lemma parse_i64_range: "parse_i64 s = Some v \<Longrightarrow> in_i64 v"
  using whole_i64_range by (simp add: parse_i64_trim)

lemma parse_u64_nat_to_string:
  assumes "n \<le> u64_max"
  shows "parse_u64 (nat_to_string n) = Some n"
proof -
  have "trim (nat_to_string n) = nat_to_string n"
    using nat_to_string_digits digit_not_space by (intro trim_no_space) blast
  with assms show ?thesis
    by (simp add: parse_u64_def from_chars_u64_def Let_def)
qed

lemma parse_u64_range: "parse_u64 s = Some n \<Longrightarrow> n \<le> u64_max"
  by (auto simp: parse_u64_def from_chars_u64_def Let_def split: if_splits)

lemma strip_first_suffix_factor:
  "strip_first_suffix v ss = (r, f) \<Longrightarrow> f = 1 \<or> f \<in> snd ` set ss"
  by (induction ss) (auto split: option.splits)

lemma parse_byte_size_range: "parse_byte_size s = Some n \<Longrightarrow> n \<le> u64_max"
proof -
  assume "parse_byte_size s = Some n"
  then obtain parsed f where "n = parsed * f" and "parsed \<le> u64_max div f"
    by (auto simp: parse_byte_size_def Let_def not_less split: if_splits prod.splits option.splits)
  then show ?thesis
    by (metis div_times_less_eq_dividend le_trans mult_le_mono1)
qed


section \<open>Lines and key-value pairs\<close>

text \<open>
  The lines \<open>std::getline\<close> reads from a text: each ends before a line feed or at the end of
  the text, and a text that ends in a line feed has no further empty line.
\<close>

fun lines_from :: "string \<Rightarrow> string \<Rightarrow> string list" where
  "lines_from acc [] = (if acc = [] then [] else [rev acc])"
| "lines_from acc (c # cs) =
     (if c = CHR 0x0A then rev acc # lines_from [] cs else lines_from (c # acc) cs)"

definition lines_of :: "string \<Rightarrow> string list" where
  "lines_of text = lines_from [] text"

lemma lines_from_line:
  assumes "CHR 0x0A \<notin> set l"
  shows "lines_from acc (l @ CHR 0x0A # rest) = (rev acc @ l) # lines_of rest"
  using assms by (induction l arbitrary: acc) (auto simp: lines_of_def)

lemma lines_of_line: "CHR 0x0A \<notin> set l \<Longrightarrow> lines_of (l @ CHR 0x0A # rest) = l # lines_of rest"
  by (simp add: lines_of_def lines_from_line [unfolded lines_of_def])

lemma lines_of_nil [simp]: "lines_of [] = []"
  by (simp add: lines_of_def)

text \<open>The text before and after the first occurrence of a character, as \<open>find\<close> and \<open>substr\<close> give it.\<close>

definition split_at_char :: "char \<Rightarrow> string \<Rightarrow> (string \<times> string) option" where
  "split_at_char c s =
     (if c \<in> set s then Some (takeWhile (\<lambda>x. x \<noteq> c) s, tl (dropWhile (\<lambda>x. x \<noteq> c) s)) else None)"

lemma split_at_char_append: "c \<notin> set k \<Longrightarrow> split_at_char c (k @ c # v) = Some (k, v)"
  by (auto simp: split_at_char_def takeWhile_tail dropWhile_append takeWhile_all
      intro: trans [OF takeWhile_append2])

lemmas [evals] = lines_of_def split_at_char_def

end
