(* ===== verification/Status_Codes.thy ===== *)
theory Status_Codes
  imports Util_Strings
begin

text \<open>
  The result type \<open>Status\<close> of \<open>include/veloxdb/util/status.h\<close> and \<open>src/util/status.cpp\<close>:
  a code and a message.  The factories make the values, \<open>ok_status\<close> is the conversion to
  \<open>bool\<close> that the callers branch on.
\<close>

datatype status_code =
    Code_Ok | Code_InvalidArgument | Code_NotFound | Code_ResourceExhausted
  | Code_IOError | Code_ProtocolError | Code_InternalError

record status =
  code :: status_code
  message :: string

definition status_ok :: status where
  "status_ok = \<lparr>code = Code_Ok, message = []\<rparr>"
definition invalid_argument :: "string \<Rightarrow> status" where
  "invalid_argument m = \<lparr>code = Code_InvalidArgument, message = m\<rparr>"
definition not_found :: "string \<Rightarrow> status" where
  "not_found m = \<lparr>code = Code_NotFound, message = m\<rparr>"
definition resource_exhausted :: "string \<Rightarrow> status" where
  "resource_exhausted m = \<lparr>code = Code_ResourceExhausted, message = m\<rparr>"
definition io_error :: "string \<Rightarrow> status" where
  "io_error m = \<lparr>code = Code_IOError, message = m\<rparr>"
definition protocol_error :: "string \<Rightarrow> status" where
  "protocol_error m = \<lparr>code = Code_ProtocolError, message = m\<rparr>"
definition internal_error :: "string \<Rightarrow> status" where
  "internal_error m = \<lparr>code = Code_InternalError, message = m\<rparr>"

definition ok_status :: "status \<Rightarrow> bool" where
  "ok_status s \<longleftrightarrow> code s = Code_Ok"

definition status_to_string :: "status \<Rightarrow> string" where
  "status_to_string s =
     (if ok_status s then ''OK''
      else (case code s of
          Code_Ok \<Rightarrow> ''ok''
        | Code_InvalidArgument \<Rightarrow> ''invalid argument''
        | Code_NotFound \<Rightarrow> ''not found''
        | Code_ResourceExhausted \<Rightarrow> ''resource exhausted''
        | Code_IOError \<Rightarrow> ''io error''
        | Code_ProtocolError \<Rightarrow> ''protocol error''
        | Code_InternalError \<Rightarrow> ''internal error'') @ '': '' @ message s)"

lemmas status_defs = status_ok_def invalid_argument_def not_found_def resource_exhausted_def
  io_error_def protocol_error_def internal_error_def

lemmas [evals] = status_defs ok_status_def

lemma ok_status_simps [simp]:
  "ok_status status_ok"
  "\<not> ok_status (invalid_argument m)" "\<not> ok_status (not_found m)"
  "\<not> ok_status (resource_exhausted m)" "\<not> ok_status (io_error m)"
  "\<not> ok_status (protocol_error m)" "\<not> ok_status (internal_error m)"
  by (simp_all add: ok_status_def status_defs)

lemma status_message_simps [simp]:
  "message (invalid_argument m) = m" "message (not_found m) = m"
  "message (resource_exhausted m) = m" "message (io_error m) = m"
  "message (protocol_error m) = m" "message (internal_error m) = m"
  by (simp_all add: status_defs)

end
