(* ===== verification/Config_Types.thy ===== *)
theory Config_Types
  imports Status_Codes
begin

text \<open>
  The configuration structs of \<open>include/veloxdb/config/config.h\<close> with their default member
  values.  A \<open>size_t\<close> or \<open>uint64_t\<close> field is a natural number; the loader keeps it below
  \<open>2 ^ 64\<close>, the port below \<open>2 ^ 16\<close>.
\<close>

record ServerConfig =
  host :: string
  port :: nat
  workers :: nat
  max_clients :: nat

record StorageConfig =
  shards :: nat
  max_memory_bytes :: nat

record PersistenceConfig =
  aof_enabled :: bool
  aof_path :: string
  fsync_policy :: string
  snapshot_path :: string
  manifest_path :: string

record ExpirationConfig =
  active_enabled :: bool
  interval_ms :: nat
  sample_per_shard :: nat

record ProtocolConfig =
  max_request_bytes :: nat
  max_array_elements :: nat
  max_key_size :: nat
  max_value_size :: nat
  max_output_buffer_bytes :: nat

text \<open>\<open>LoggingConfig\<close>, \<open>MetricsConfig\<close> and \<open>AdminConfig\<close> have one field each.\<close>

record Config =
  server :: ServerConfig
  storage_cfg :: StorageConfig
  persistence :: PersistenceConfig
  expiration :: ExpirationConfig
  logging_level :: string
  metrics_enabled :: bool
  shutdown_enabled :: bool
  protocol :: ProtocolConfig

definition default_server :: ServerConfig where
  "default_server = \<lparr>host = ''0.0.0.0'', port = 7379, workers = 4, max_clients = 10000\<rparr>"

definition default_storage :: StorageConfig where
  "default_storage = \<lparr>shards = 64, max_memory_bytes = 1024 * 1024 * 1024\<rparr>"

definition default_persistence :: PersistenceConfig where
  "default_persistence =
     \<lparr>aof_enabled = True, aof_path = ''./data/veloxdb.aof'', fsync_policy = ''everysec'',
      snapshot_path = ''./data/veloxdb.snapshot'', manifest_path = ''./data/veloxdb.manifest''\<rparr>"

definition default_expiration :: ExpirationConfig where
  "default_expiration = \<lparr>active_enabled = True, interval_ms = 100, sample_per_shard = 20\<rparr>"

definition default_protocol :: ProtocolConfig where
  "default_protocol =
     \<lparr>max_request_bytes = 64 * 1024 * 1024, max_array_elements = 1024, max_key_size = 512 * 1024,
      max_value_size = 64 * 1024 * 1024, max_output_buffer_bytes = 64 * 1024 * 1024\<rparr>"

definition default_config :: Config where
  "default_config =
     \<lparr>server = default_server, storage_cfg = default_storage, persistence = default_persistence,
      expiration = default_expiration, logging_level = ''info'', metrics_enabled = True,
      shutdown_enabled = False, protocol = default_protocol\<rparr>"

lemmas [evals] = default_server_def default_storage_def default_persistence_def
  default_expiration_def default_protocol_def default_config_def

end
