(* ===== verification/Resp.thy ===== *)
theory Resp
  imports Config_Types
begin

text \<open>
  The RESP2 protocol of \<open>include/veloxdb/protocol/resp.h\<close> and \<open>src/protocol/resp.cpp\<close>: the
  value and command structs, the incremental parser over its buffer, and the reply encoders.

  Buffer positions are absolute, as in the code.  \<open>size_t\<close> positions are natural numbers: the
  largest position computed is \<open>end + 2\<close> with \<open>end \<le> max_request_bytes\<close> and
  \<open>len < 2 ^ 63\<close>, which does not wrap for any buffer a \<open>std::string\<close> can hold.
\<close>


section \<open>Data\<close>

datatype resp_type = SimpleString | Error | Integer | BulkString | Array

datatype resp_value =
  Value (vtype: resp_type) (vnull: bool) (vtext: string) (vinteger: int)
    (varray: "resp_value list")

text \<open>The default member values of \<open>struct Value\<close>.\<close>

abbreviation empty_value :: "resp_type \<Rightarrow> resp_value" where
  "empty_value t \<equiv> Value t False [] 0 []"

record command =
  args :: "string list"
  raw :: string

datatype parse_status = Parse_Ok | NeedMore | Parse_Error

record value_parse_result =
  vp_status :: parse_status
  vp_value :: resp_value
  vp_raw :: string
  vp_error :: string

record command_parse_result =
  cp_status :: parse_status
  cp_command :: command
  cp_error :: string

record parser_options =
  opt_max_request_bytes :: nat
  opt_max_array_elements :: nat
  opt_max_bulk_bytes :: nat

text \<open>\<open>struct InternalResult\<close>, by its three statuses.\<close>

datatype internal_result = IOk resp_value nat | INeedMore | IError string

record parser =
  options :: parser_options
  buffer :: string

definition kMaxDepth :: nat where "kMaxDepth = 8"

definition parser_options_from_config :: "ProtocolConfig \<Rightarrow> parser_options" where
  "parser_options_from_config config =
     \<lparr>opt_max_request_bytes = max_request_bytes config,
      opt_max_array_elements = max_array_elements config,
      opt_max_bulk_bytes = max_value_size config\<rparr>"

definition mk_parser :: "parser_options \<Rightarrow> parser" where
  "mk_parser opts = \<lparr>options = opts, buffer = []\<rparr>"


section \<open>Encoders\<close>

definition crlf :: string where "crlf = [CHR 0x0D, CHR 0x0A]"

definition bulk_string_fragment :: "string \<Rightarrow> string" where
  "bulk_string_fragment value = ''$'' @ nat_to_string (length value) @ crlf @ value @ crlf"

definition simple :: "string \<Rightarrow> string" where
  "simple value = ''+'' @ value @ crlf"

definition error :: "string \<Rightarrow> string" where
  "error value = ''-ERR '' @ value @ crlf"

definition integer :: "int \<Rightarrow> string" where
  "integer value = '':'' @ int_to_string value @ crlf"

definition bulk :: "string \<Rightarrow> string" where
  "bulk value = bulk_string_fragment value"

definition null_bulk :: string where
  "null_bulk = ''$-1'' @ crlf"

definition array_header :: "nat \<Rightarrow> string" where
  "array_header count = ''*'' @ nat_to_string count @ crlf"

fun array_of_bulk_items :: "string option list \<Rightarrow> string" where
  "array_of_bulk_items [] = []"
| "array_of_bulk_items (value # values) =
     (case value of Some v \<Rightarrow> bulk v | None \<Rightarrow> null_bulk) @ array_of_bulk_items values"

definition array_of_bulk :: "string option list \<Rightarrow> string" where
  "array_of_bulk values = array_header (length values) @ array_of_bulk_items values"

definition encode_command :: "string list \<Rightarrow> string" where
  "encode_command as = array_header (length as) @ concat (map bulk_string_fragment as)"

lemmas encoder_defs = crlf_def bulk_string_fragment_def simple_def error_def integer_def bulk_def
  null_bulk_def array_header_def array_of_bulk_def encode_command_def

lemmas [evals] = encoder_defs


section \<open>Parser\<close>

definition parse_number_line :: "string \<Rightarrow> int option" where
  "parse_number_line line =
     (if line = [] then None
      else case from_chars_i64 line of (ec, value, ptr) \<Rightarrow>
        if ec \<noteq> errc_ok \<or> ptr \<noteq> [] then None else Some value)"

definition is_resp_prefix :: "char \<Rightarrow> bool" where
  "is_resp_prefix ch \<longleftrightarrow>
     ch = CHR ''+'' \<or> ch = CHR ''-'' \<or> ch = CHR '':'' \<or> ch = CHR ''$'' \<or> ch = CHR ''*''"

text \<open>\<open>std::string::find("\r\n", pos)\<close>: the index of the first match at or after \<open>pos\<close>.\<close>

fun crlf_index :: "string \<Rightarrow> nat option" where
  "crlf_index (c # d # cs) =
     (if c = CHR 0x0D \<and> d = CHR 0x0A then Some 0 else map_option Suc (crlf_index (d # cs)))"
| "crlf_index _ = None"

definition find_crlf :: "string \<Rightarrow> nat \<Rightarrow> nat option" where
  "find_crlf buf pos = map_option (\<lambda>i. pos + i) (crlf_index (drop pos buf))"

text \<open>The bulk string case of \<open>parse_at\<close>, from the length line on.\<close>

definition parse_bulk :: "parser_options \<Rightarrow> string \<Rightarrow> nat \<Rightarrow> string \<Rightarrow> nat \<Rightarrow> internal_result" where
  "parse_bulk opts buf pos line after_line =
     (case parse_number_line line of
        None \<Rightarrow> IError ''invalid bulk string length''
      | Some len_line \<Rightarrow>
          if len_line < -1 then IError ''invalid bulk string length''
          else if len_line = -1 then IOk (Value BulkString True [] 0 []) (after_line - pos)
          else (let len = nat len_line in
            if len > opt_max_bulk_bytes opts then IError ''bulk string exceeded maximum size''
            else if after_line > opt_max_request_bytes opts
                \<or> len > opt_max_request_bytes opts - after_line then
              IError ''bulk string exceeded maximum request size''
            else (let end_pos = after_line + len in
              if length buf < end_pos + 2 then INeedMore
              else if buf ! end_pos \<noteq> CHR 0x0D \<or> buf ! (end_pos + 1) \<noteq> CHR 0x0A then
                IError ''malformed bulk string CRLF''
              else IOk (Value BulkString False (take len (drop after_line buf)) 0 [])
                (end_pos + 2 - pos))))"

text \<open>
  The recursion ends because \<open>parse_at\<close> refuses a depth above \<open>kMaxDepth\<close> before it
  descends, and the element loop counts down.
\<close>

definition depth_rank :: "nat \<Rightarrow> nat" where
  "depth_rank depth = 2 * (kMaxDepth + 1 - depth)"

text \<open>
  \<open>parse_at\<close> and its loop over array elements.  \<open>parse_items\<close> is the body of the \<open>for\<close> in
  the array case: \<open>n\<close> elements left, \<open>acc\<close> the elements parsed so far.
\<close>

function (sequential) parse_at :: "parser_options \<Rightarrow> string \<Rightarrow> nat \<Rightarrow> nat \<Rightarrow> internal_result"
  and parse_items :: "parser_options \<Rightarrow> string \<Rightarrow> nat \<Rightarrow> nat \<Rightarrow> nat \<Rightarrow> nat \<Rightarrow> resp_value list
        \<Rightarrow> internal_result"
where
  "parse_at opts buf pos depth =
     (if depth > kMaxDepth then IError ''RESP nesting depth exceeded''
      else if pos \<ge> length buf then INeedMore
      else case find_crlf buf (pos + 1) of
        None \<Rightarrow>
          (if length buf - pos > opt_max_request_bytes opts
           then IError ''line exceeded maximum request size'' else INeedMore)
      | Some crlf_pos \<Rightarrow>
          (let prefix = buf ! pos;
               line_start = pos + 1;
               line = take (crlf_pos - line_start) (drop line_start buf);
               after_line = crlf_pos + 2
           in if prefix = CHR ''+'' then
                IOk (Value SimpleString False line 0 []) (after_line - pos)
              else if prefix = CHR ''-'' then
                IOk (Value Error False line 0 []) (after_line - pos)
              else if prefix = CHR '':'' then
                (case parse_number_line line of
                   None \<Rightarrow> IError ''invalid integer''
                 | Some number \<Rightarrow> IOk (Value Integer False [] number []) (after_line - pos))
              else if prefix = CHR ''$'' then
                parse_bulk opts buf pos line after_line
              else if prefix = CHR ''*'' then
                (case parse_number_line line of
                   None \<Rightarrow> IError ''invalid array length''
                 | Some count \<Rightarrow>
                     if count < -1 then IError ''invalid array length''
                     else if count = -1 then IOk (Value Array True [] 0 []) (after_line - pos)
                     else if nat count > opt_max_array_elements opts then
                       IError ''array exceeded maximum element count''
                     else parse_items opts buf pos after_line depth (nat count) [])
              else IError ''unknown RESP type''))"
| "parse_items opts buf pos cursor depth 0 acc =
     IOk (Value Array False [] 0 acc) (cursor - pos)"
| "parse_items opts buf pos cursor depth (Suc n) acc =
     (case parse_at opts buf cursor (depth + 1) of
        IOk child consumed \<Rightarrow>
          (let cursor' = cursor + consumed in
           if cursor' - pos > opt_max_request_bytes opts then
             IError ''request exceeded maximum size''
           else parse_items opts buf pos cursor' depth n (acc @ [child]))
      | INeedMore \<Rightarrow> INeedMore
      | IError e \<Rightarrow> IError e)"
  by pat_completeness auto

termination
proof (relation "measures [
    \<lambda>x. case x of Inl (_, _, _, depth) \<Rightarrow> depth_rank depth
         | Inr (_, _, _, _, depth, _, _) \<Rightarrow> max 1 (depth_rank depth - 1),
    \<lambda>x. case x of Inl _ \<Rightarrow> 0 | Inr (_, _, _, _, _, n, _) \<Rightarrow> n]")
qed (auto simp: depth_rank_def kMaxDepth_def)

declare parse_at.simps [simp del]

fun inline_items :: "nat \<Rightarrow> string list \<Rightarrow> resp_value list option" where
  "inline_items max_bulk [] = Some []"
| "inline_items max_bulk (word # words) =
     (if length word > max_bulk then None
      else map_option (Cons (Value BulkString False word 0 [])) (inline_items max_bulk words))"

definition parse_inline :: "parser_options \<Rightarrow> string \<Rightarrow> nat \<Rightarrow> internal_result" where
  "parse_inline opts buf pos =
     (case find_crlf buf pos of
        None \<Rightarrow>
          (if length buf - pos > opt_max_request_bytes opts
           then IError ''inline command exceeded maximum size'' else INeedMore)
      | Some crlf_pos \<Rightarrow>
          (case inline_items (opt_max_bulk_bytes opts)
                  (split_words (take (crlf_pos - pos) (drop pos buf))) of
             None \<Rightarrow> IError ''inline argument exceeded maximum size''
           | Some items \<Rightarrow> IOk (Value Array False [] 0 items) (crlf_pos + 2 - pos)))"

definition parser_append :: "parser \<Rightarrow> string \<Rightarrow> status \<times> parser" where
  "parser_append p bs =
     (if length bs > opt_max_request_bytes (options p)
         \<or> length (buffer p) > opt_max_request_bytes (options p) - length bs
      then (resource_exhausted ''request buffer exceeded limit'', p)
      else (status_ok, p\<lparr>buffer := buffer p @ bs\<rparr>))"

definition buffered_bytes :: "parser \<Rightarrow> nat" where
  "buffered_bytes p = length (buffer p)"

definition reset :: "parser \<Rightarrow> parser" where
  "reset p = p\<lparr>buffer := []\<rparr>"

definition discard :: "parser \<Rightarrow> nat \<Rightarrow> parser" where
  "discard p n =
     (if n \<ge> length (buffer p) then p\<lparr>buffer := []\<rparr> else p\<lparr>buffer := drop n (buffer p)\<rparr>)"

abbreviation need_more_value :: value_parse_result where
  "need_more_value \<equiv>
     \<lparr>vp_status = NeedMore, vp_value = empty_value BulkString, vp_raw = [], vp_error = []\<rparr>"

definition next_value :: "parser \<Rightarrow> value_parse_result \<times> parser" where
  "next_value p =
     (if buffer p = [] then (need_more_value, p)
      else case (if is_resp_prefix (buffer p ! 0) then parse_at (options p) (buffer p) 0 0
                 else parse_inline (options p) (buffer p) 0) of
        INeedMore \<Rightarrow> (need_more_value, p)
      | IError e \<Rightarrow> (need_more_value\<lparr>vp_status := Parse_Error, vp_error := e\<rparr>, p)
      | IOk v consumed \<Rightarrow>
          if consumed > opt_max_request_bytes (options p) then
            (need_more_value\<lparr>vp_status := Parse_Error, vp_error := ''request exceeded maximum size''\<rparr>, p)
          else
            (\<lparr>vp_status = Parse_Ok, vp_value = v, vp_raw = take consumed (buffer p), vp_error = []\<rparr>,
             discard p consumed))"

text \<open>
  The loop of \<open>next_command\<close> over the elements: the arguments collected so far, and the error
  message when an element is not a valid argument.
\<close>

fun collect_args :: "resp_value list \<Rightarrow> string list \<Rightarrow> string option \<times> string list" where
  "collect_args [] acc = (None, acc)"
| "collect_args (item # items) acc =
     (if vnull item then (Some ''command arguments cannot be null'', acc)
      else case vtype item of
          BulkString \<Rightarrow> collect_args items (acc @ [vtext item])
        | SimpleString \<Rightarrow> collect_args items (acc @ [vtext item])
        | Error \<Rightarrow> collect_args items (acc @ [vtext item])
        | Integer \<Rightarrow> collect_args items (acc @ [int_to_string (vinteger item)])
        | Array \<Rightarrow> (Some ''nested arrays are not valid command arguments'', acc))"

abbreviation need_more_command :: command_parse_result where
  "need_more_command \<equiv>
     \<lparr>cp_status = NeedMore, cp_command = \<lparr>args = [], raw = []\<rparr>, cp_error = []\<rparr>"

definition next_command :: "parser \<Rightarrow> command_parse_result \<times> parser" where
  "next_command p =
     (case next_value p of (parsed, p') \<Rightarrow>
        (case vp_status parsed of
           NeedMore \<Rightarrow> (need_more_command, p')
         | Parse_Error \<Rightarrow>
             (need_more_command\<lparr>cp_status := Parse_Error, cp_error := vp_error parsed\<rparr>, p')
         | Parse_Ok \<Rightarrow>
             if vtype (vp_value parsed) \<noteq> Array \<or> vnull (vp_value parsed) then
               (need_more_command\<lparr>cp_status := Parse_Error,
                  cp_error := ''expected RESP array command''\<rparr>, p')
             else (case collect_args (varray (vp_value parsed)) [] of
                 (Some e, collected) \<Rightarrow>
                   (\<lparr>cp_status = Parse_Error,
                     cp_command = \<lparr>args = collected, raw = vp_raw parsed\<rparr>, cp_error = e\<rparr>, p')
               | (None, collected) \<Rightarrow>
                   (\<lparr>cp_status = Parse_Ok,
                     cp_command = \<lparr>args = collected, raw = vp_raw parsed\<rparr>, cp_error = []\<rparr>, p'))))"

end
