(* ===== verification/Resp_Stream.thy ===== *)
theory Resp_Stream
  imports Resp_Props
begin

text \<open>
  The parser as a decoder of a byte stream.  The locale \<open>stream_decoder\<close> is the contract that
  the connection handler, the AOF replay and the snapshot loader rely on: a step that found a
  command shortens the buffer, and a decision is final when more bytes arrive.
  \<open>framed_codec\<close> adds an encoder.  Both are interpreted on \<open>next_command\<close> and
  \<open>encode_command\<close>; their lemmas give chunk independence and the recovery of truncated logs.
\<close>


section \<open>Draining a decoder\<close>

text \<open>
  A step looks at the buffered bytes and needs more of them (\<open>None\<close>), reports an error, or
  returns one item and the remaining bytes.
\<close>

type_synonym 'c decode_step = "bytes \<Rightarrow> (string + 'c \<times> bytes) option"

fun decode_stream :: "'c decode_step \<Rightarrow> nat \<Rightarrow> bytes \<Rightarrow> 'c list \<times> string option \<times> bytes" where
  "decode_stream step 0 b = ([], None, b)"
| "decode_stream step (Suc fuel) b =
     (case step b of
        None \<Rightarrow> ([], None, b)
      | Some (Inl e) \<Rightarrow> ([], Some e, b)
      | Some (Inr (c, r)) \<Rightarrow>
          (case decode_stream step fuel r of (cs, e, r') \<Rightarrow> (c # cs, e, r')))"

text \<open>Every item takes at least one byte, so one unit of fuel per byte is enough.\<close>

definition decode_all :: "'c decode_step \<Rightarrow> bytes \<Rightarrow> 'c list \<times> string option \<times> bytes" where
  "decode_all step b = decode_stream step (Suc (length b)) b"

locale stream_decoder =
  fixes step :: "'c decode_step" and within :: "bytes \<Rightarrow> bool"
  assumes step_progress: "step b = Some (Inr (c, r)) \<Longrightarrow> length r < length b"
    and step_extend_item: "within b \<Longrightarrow> step b = Some (Inr (c, r)) \<Longrightarrow> step (b @ x) = Some (Inr (c, r @ x))"
    and step_extend_error: "within b \<Longrightarrow> step b = Some (Inl e) \<Longrightarrow> step (b @ x) = Some (Inl e)"
    and within_rest: "within b \<Longrightarrow> step b = Some (Inr (c, r)) \<Longrightarrow> within r"
begin

lemma enough_fuel:
  assumes "length b < n"
  shows "decode_stream step n b = decode_all step b"
proof -
  have "decode_stream step n b = decode_stream step m b" if "length b < n" "length b < m" for n m
    using that
  proof (induction n arbitrary: m b)
    case (Suc n)
    then obtain m' where m: "m = Suc m'" by (cases m) auto
    have "decode_stream step n r = decode_stream step m' r" if "step b = Some (Inr (c, r))" for c r
      using Suc that m step_progress [OF that] by (intro Suc.IH) auto
    then show ?case by (auto simp: m split: option.split sum.split)
  qed simp
  from this [OF assms, of "Suc (length b)"] show ?thesis
    by (simp only: decode_all_def lessI simp_thms)
qed

lemma decode_all_unfold:
  "decode_all step b =
     (case step b of
        None \<Rightarrow> ([], None, b)
      | Some (Inl e) \<Rightarrow> ([], Some e, b)
      | Some (Inr (c, r)) \<Rightarrow> (case decode_all step r of (cs, e, r') \<Rightarrow> (c # cs, e, r')))"
proof -
  have "decode_stream step (length b) r = decode_all step r" if "step b = Some (Inr (c, r))" for c r
    using step_progress [OF that] by (rule enough_fuel)
  then show ?thesis
    unfolding decode_all_def [of step b] by (auto split: option.split sum.split)
qed

lemma decode_chunks:
  assumes "within b" and "decode_all step b = (cs, None, r)"
    and "decode_all step (r @ x) = (ds, e, t)"
  shows "decode_all step (b @ x) = (cs @ ds, e, t)"
  using assms
proof (induction "length b" arbitrary: b cs rule: less_induct)
  case less
  show ?case
  proof (cases "step b")
    case None
    with less.prems show ?thesis by (simp add: decode_all_unfold [of b])
  next
    case (Some y)
    with less.prems(2) obtain c b' where y: "step b = Some (Inr (c, b'))"
      by (cases y) (auto simp: decode_all_unfold [of b])
    with less.prems(2) obtain cs' where cs: "cs = c # cs'" and rest: "decode_all step b' = (cs', None, r)"
      by (auto simp: decode_all_unfold [of b] split: prod.splits)
    have "decode_all step (b' @ x) = (cs' @ ds, e, t)"
      using less y step_progress within_rest rest by blast
    then show ?thesis
      using step_extend_item [OF less.prems(1) y, of x]
      by (simp add: decode_all_unfold [of "b @ x"] cs)
  qed
qed

lemma decode_rest_again:
  "decode_all step b = (cs, None, r) \<Longrightarrow> decode_all step r = ([], None, r)"
proof (induction "length b" arbitrary: b cs rule: less_induct)
  case less
  show ?case
  proof (cases "step b")
    case None
    with less.prems show ?thesis by (auto simp: decode_all_unfold [of b] decode_all_unfold [of r])
  next
    case (Some y)
    with less.prems obtain c b' cs' where "step b = Some (Inr (c, b'))" "decode_all step b' = (cs', None, r)"
      by (cases y) (auto simp: decode_all_unfold [of b] split: prod.splits)
    with less.hyps step_progress show ?thesis by blast
  qed
qed

lemma decode_error_final:
  assumes "within b" and "decode_all step b = (cs, Some e, r)"
  shows "decode_all step (b @ x) = (cs, Some e, r @ x)"
  using assms
proof (induction "length b" arbitrary: b cs rule: less_induct)
  case less
  show ?case
  proof (cases "step b")
    case None
    with less.prems show ?thesis by (simp add: decode_all_unfold [of b])
  next
    case (Some y)
    show ?thesis
    proof (cases y)
      case (Inl e')
      with Some less.prems(1) have "step (b @ x) = Some (Inl e')"
        by (simp add: step_extend_error)
      then have "decode_all step (b @ x) = ([], Some e', b @ x)"
        by (simp add: decode_all_unfold [of "b @ x"])
      moreover have "cs = []" "e = e'" "r = b"
        using Some Inl less.prems(2) by (auto simp: decode_all_unfold [of b])
      ultimately show ?thesis by simp
    next
      case (Inr p)
      then obtain c b' where y: "step b = Some (Inr (c, b'))" using Some by (cases p) simp
      with less.prems(2) obtain cs' where cs: "cs = c # cs'" and rest: "decode_all step b' = (cs', Some e, r)"
        by (auto simp: decode_all_unfold [of b] split: prod.splits)
      have "decode_all step (b' @ x) = (cs', Some e, r @ x)"
        using less y step_progress within_rest rest by blast
      then show ?thesis
        using step_extend_item [OF less.prems(1) y, of x]
        by (simp add: decode_all_unfold [of "b @ x"] cs)
    qed
  qed
qed

end

locale framed_codec = stream_decoder step within
  for step :: "'c decode_step" and within :: "bytes \<Rightarrow> bool" +
  fixes enc :: "'c \<Rightarrow> bytes" and fits :: "'c \<Rightarrow> bool"
  assumes step_enc: "fits c \<Longrightarrow> step (enc c @ rest) = Some (Inr (c, rest))"
    and within_prefix: "fits c \<Longrightarrow> enc c = b @ x \<Longrightarrow> within b"
begin

lemma partial_item:
  assumes "fits c" and "enc c = b @ x" and "x \<noteq> []"
  shows "step b = None"
proof (cases "step b")
  case (Some y)
  have whole: "step (b @ x) = Some (Inr (c, []))"
    using step_enc [OF assms(1), of "[]"] assms(2) by simp
  have "within b" using assms within_prefix by blast
  with Some whole assms(3) show ?thesis
    using step_extend_item [of b _ _ x] step_extend_error [of b _ x] by (cases y) fastforce+
qed

lemma step_nil: "fits c \<Longrightarrow> enc c \<noteq> [] \<Longrightarrow> step [] = None"
  using partial_item [of c "[]" "enc c"] by simp

lemma decode_encoded:
  assumes "\<forall>c \<in> set cs. fits c"
  shows "decode_all step (concat (map enc cs) @ x) =
    (case decode_all step x of (ds, e, r) \<Rightarrow> (cs @ ds, e, r))"
  using assms
  by (induction cs) (auto simp: decode_all_unfold [of "enc _ @ _"] step_enc split: prod.split)

text \<open>
  Cutting an encoded sequence at any byte loses only the items that are no longer complete: a
  prefix of the items is decoded, without an error.
\<close>

lemma decode_truncated:
  assumes "\<forall>c \<in> set cs. fits c" and "concat (map enc cs) = b @ x" and "step [] = None"
  shows "\<exists>k r. decode_all step b = (take k cs, None, r) \<and> b = concat (map enc (take k cs)) @ r \<and>
    (k < length cs \<longrightarrow> length r < length (enc (cs ! k)))"
  using assms
proof (induction cs arbitrary: b)
  case Nil
  then show ?case by (simp add: decode_all_unfold)
next
  case (Cons c cs)
  show ?case
  proof (cases "length b < length (enc c)")
    case True
    from Cons.prems(2) have "take (length b) (enc c @ concat (map enc cs)) = b" by simp
    with True have "take (length b) (enc c) = b" by simp
    then obtain y where y: "enc c = b @ y" "y \<noteq> []"
      using True append_take_drop_id [of "length b" "enc c"] by (metis append_Nil2 less_irrefl)
    have "step b = None"
      using partial_item [OF _ y] Cons.prems(1) by simp
    then have "decode_all step b = (take 0 (c # cs), None, b)"
      by (simp add: decode_all_unfold [of b])
    then show ?thesis
      using True by (intro exI [of _ 0] exI [of _ b]) simp
  next
    case False
    define b' where "b' = drop (length (enc c)) b"
    from Cons.prems(2) have "take (length (enc c)) (b @ x) = enc c"
      by (metis append_eq_conv_conj concat.simps(2) list.simps(9))
    with False have b: "b = enc c @ b'"
      unfolding b'_def by (metis append_take_drop_id diff_is_0_eq' le_eq_less_or_eq linorder_neqE_nat
          take0 take_append append_Nil2)
    with Cons.prems(2) have b': "b = enc c @ b'" "concat (map enc cs) = b' @ x" by auto
    from Cons b' obtain k r where k: "decode_all step b' = (take k cs, None, r)"
      "b' = concat (map enc (take k cs)) @ r" "k < length cs \<longrightarrow> length r < length (enc (cs ! k))"
      by auto
    have "decode_all step b = (take (Suc k) (c # cs), None, r)"
      using Cons.prems(1) b'(1) k(1) by (simp add: decode_all_unfold [of "enc c @ b'"] step_enc)
    then show ?thesis
      using k b' by (intro exI [of _ "Suc k"] exI [of _ r]) simp
  qed
qed

end


section \<open>The RESP parser as a decoder\<close>

text \<open>\<open>next_command\<close> on a buffer, as a decoder step that yields the arguments.\<close>

definition command_step :: "parser_options \<Rightarrow> string list decode_step" where
  "command_step opts b =
     (case next_command \<lparr>options = opts, buffer = b\<rparr> of (res, p) \<Rightarrow>
        (case cp_status res of
           NeedMore \<Rightarrow> None
         | Parse_Error \<Rightarrow> Some (Inl (cp_error res))
         | Parse_Ok \<Rightarrow> Some (Inr (args (cp_command res), buffer p))))"

lemma command_step_parser:
  "command_step (options p) (buffer p) =
     (case next_command p of (res, p') \<Rightarrow>
        (case cp_status res of
           NeedMore \<Rightarrow> None
         | Parse_Error \<Rightarrow> Some (Inl (cp_error res))
         | Parse_Ok \<Rightarrow> Some (Inr (args (cp_command res), buffer p'))))"
  by (cases p) (simp add: command_step_def)

definition within_request :: "parser_options \<Rightarrow> bytes \<Rightarrow> bool" where
  "within_request opts b \<longleftrightarrow> length b \<le> opt_max_request_bytes opts"

text \<open>A command that fits the limits of the parser.\<close>

definition command_fits :: "parser_options \<Rightarrow> string list \<Rightarrow> bool" where
  "command_fits opts as \<longleftrightarrow>
     length as \<le> opt_max_array_elements opts \<and>
     (\<forall>a \<in> set as. length a \<le> opt_max_bulk_bytes opts) \<and>
     length (encode_command as) \<le> opt_max_request_bytes opts \<and>
     int (length (encode_command as)) \<le> i64_max"

definition parse_buffer :: "parser_options \<Rightarrow> string \<Rightarrow> internal_result" where
  "parse_buffer opts buf =
     (if is_resp_prefix (buf ! 0) then parse_at opts buf 0 0 else parse_inline opts buf 0)"

lemma inline_items_some: "inline_items m ws = Some vs \<Longrightarrow> vs = map (\<lambda>w. Value BulkString False w 0 []) ws"
  by (induction ws arbitrary: vs) (auto split: if_splits)

lemma parse_buffer_extend:
  assumes "length buf \<le> opt_max_request_bytes opts" and "buf \<noteq> []" and "parse_buffer opts buf \<noteq> INeedMore"
  shows "parse_buffer opts (buf @ ext) = parse_buffer opts buf"
proof (cases "is_resp_prefix (buf ! 0)")
  case True
  with assms parse_extend(1) [of buf opts 0 0 ext] show ?thesis
    by (simp add: parse_buffer_def nth_append)
next
  case False
  with assms obtain c where c: "find_crlf buf 0 = Some c"
    by (cases "find_crlf buf 0") (auto simp: parse_buffer_def parse_inline_def)
  with False assms find_crlf_append [OF c, of ext] find_crlf_bound [OF c] show ?thesis
    by (simp add: parse_buffer_def parse_inline_def nth_append)
qed

lemma parse_buffer_consumed:
  assumes "parse_buffer opts buf = IOk v n"
  shows "0 < n" and "n \<le> length buf"
proof -
  have "0 < n \<and> n \<le> length buf"
  proof (cases "is_resp_prefix (buf ! 0)")
    case True
    with assms parse_consumed(1) [of opts buf 0 0 v n] show ?thesis by (simp add: parse_buffer_def)
  next
    case False
    with assms obtain c where c: "find_crlf buf 0 = Some c"
      by (cases "find_crlf buf 0") (auto simp: parse_buffer_def parse_inline_def split: if_splits)
    with False assms find_crlf_bound [OF c] show ?thesis
      by (auto simp: parse_buffer_def parse_inline_def split: option.splits)
  qed
  then show "0 < n" and "n \<le> length buf" by auto
qed

lemma next_value_buffer:
  "next_value p =
     (if buffer p = [] then (need_more_value, p)
      else case parse_buffer (options p) (buffer p) of
        INeedMore \<Rightarrow> (need_more_value, p)
      | IError e \<Rightarrow> (need_more_value\<lparr>vp_status := Parse_Error, vp_error := e\<rparr>, p)
      | IOk v n \<Rightarrow>
          if n > opt_max_request_bytes (options p) then
            (need_more_value\<lparr>vp_status := Parse_Error, vp_error := ''request exceeded maximum size''\<rparr>, p)
          else
            (\<lparr>vp_status = Parse_Ok, vp_value = v, vp_raw = take n (buffer p), vp_error = []\<rparr>,
             p\<lparr>buffer := drop n (buffer p)\<rparr>))"
  by (simp add: next_value_def parse_buffer_def discard_def split: internal_result.split)

lemma next_value_ok:
  assumes "next_value p = (res, p')" and "vp_status res = Parse_Ok"
  shows "buffer p = vp_raw res @ buffer p'" and "vp_raw res \<noteq> []" and "options p' = options p"
    and "length (vp_raw res) \<le> opt_max_request_bytes (options p)"
  using assms parse_buffer_consumed [of "options p" "buffer p"]
  by (auto simp: next_value_buffer split: if_splits internal_result.splits)

lemma next_value_not_ok:
  assumes "next_value p = (res, p')" and "vp_status res \<noteq> Parse_Ok"
  shows "p' = p"
  using assms by (auto simp: next_value_buffer split: if_splits internal_result.splits)

lemma next_value_extend:
  assumes "length (buffer p) \<le> opt_max_request_bytes (options p)"
    and "next_value p = (res, p')" and "vp_status res \<noteq> NeedMore"
  shows "next_value (p\<lparr>buffer := buffer p @ ext\<rparr>) = (res, p'\<lparr>buffer := buffer p' @ ext\<rparr>)"
  using assms parse_buffer_consumed [of "options p" "buffer p"]
    parse_buffer_extend [of "buffer p" "options p" ext]
  by (auto simp: next_value_buffer split: if_splits internal_result.splits)

text \<open>\<open>next_command\<close> by the outcome of \<open>next_value\<close>.\<close>

lemma next_command_value:
  assumes "next_value p = (v, p1)"
  shows
    "vp_status v = NeedMore \<Longrightarrow> next_command p = (need_more_command, p1)"
    "vp_status v = Parse_Error \<Longrightarrow> next_command p =
       (need_more_command\<lparr>cp_status := Parse_Error, cp_error := vp_error v\<rparr>, p1)"
    "vp_status v = Parse_Ok \<Longrightarrow> next_command p =
       (if vtype (vp_value v) \<noteq> Array \<or> vnull (vp_value v) then
          (need_more_command\<lparr>cp_status := Parse_Error, cp_error := ''expected RESP array command''\<rparr>, p1)
        else (case collect_args (varray (vp_value v)) [] of
            (Some e, collected) \<Rightarrow>
              (\<lparr>cp_status = Parse_Error, cp_command = \<lparr>args = collected, raw = vp_raw v\<rparr>, cp_error = e\<rparr>, p1)
          | (None, collected) \<Rightarrow>
              (\<lparr>cp_status = Parse_Ok, cp_command = \<lparr>args = collected, raw = vp_raw v\<rparr>, cp_error = []\<rparr>, p1)))"
  using assms by (simp_all add: next_command_def)

lemma next_command_parser: "snd (next_command p) = snd (next_value p)"
proof -
  obtain v p1 where nv: "next_value p = (v, p1)" by fastforce
  show ?thesis
    by (cases "vp_status v") (auto simp: nv next_command_value [OF nv] split: prod.split option.split)
qed

lemma next_command_status:
  assumes "next_value p = (v, p1)"
  shows "cp_status (fst (next_command p)) = NeedMore \<longleftrightarrow> vp_status v = NeedMore"
    and "cp_status (fst (next_command p)) = Parse_Ok \<Longrightarrow>
      vp_status v = Parse_Ok \<and> raw (cp_command (fst (next_command p))) = vp_raw v"
  by (cases "vp_status v"; auto simp: next_command_value [OF assms] split: prod.splits option.splits)+

lemma next_command_options: "next_command p = (res, p') \<Longrightarrow> options p' = options p"
  using next_command_parser [of p] next_value_ok(3) [of p] next_value_not_ok [of p]
  by (cases "next_value p") (metis snd_conv)

lemma next_command_shrinks:
  assumes "next_command p = (res, p')"
  shows "\<exists>eaten. buffer p = eaten @ buffer p'"
proof -
  obtain v p1 where nv: "next_value p = (v, p1)" by fastforce
  with assms next_command_parser [of p] have "p' = p1" by simp
  then show ?thesis
    using next_value_ok(1) [OF nv] next_value_not_ok [OF nv] by (metis append_Nil)
qed

lemma next_command_ok:
  assumes "next_command p = (res, p')" and "cp_status res = Parse_Ok"
  shows "buffer p = raw (cp_command res) @ buffer p'" and "raw (cp_command res) \<noteq> []"
    and "length (raw (cp_command res)) \<le> opt_max_request_bytes (options p)"
proof -
  obtain v p1 where nv: "next_value p = (v, p1)" by fastforce
  with assms next_command_parser [of p] have p1: "p' = p1" by simp
  with next_command_status(2) [OF nv] assms
  have v: "vp_status v = Parse_Ok" "raw (cp_command res) = vp_raw v" by auto
  show "buffer p = raw (cp_command res) @ buffer p'" "raw (cp_command res) \<noteq> []"
    "length (raw (cp_command res)) \<le> opt_max_request_bytes (options p)"
    using next_value_ok [OF nv v(1)] v(2) p1 by simp_all
qed

lemma next_command_need_more:
  assumes "next_command p = (res, p')" and "cp_status res = NeedMore"
  shows "p' = p"
proof -
  obtain v p1 where nv: "next_value p = (v, p1)" by fastforce
  with assms next_command_parser [of p] next_command_status(1) [OF nv] next_value_not_ok [OF nv]
  show ?thesis by simp
qed

lemma next_command_extend:
  assumes "length (buffer p) \<le> opt_max_request_bytes (options p)"
    and "next_command p = (res, p')" and "cp_status res \<noteq> NeedMore"
  shows "next_command (p\<lparr>buffer := buffer p @ ext\<rparr>) = (res, p'\<lparr>buffer := buffer p' @ ext\<rparr>)"
proof -
  obtain v p1 where nv: "next_value p = (v, p1)" by fastforce
  have "vp_status v \<noteq> NeedMore"
    using next_command_status(1) [OF nv] assms(2,3) by simp
  note nv' = next_value_extend [OF assms(1) nv this, of ext]
  show ?thesis
    using assms(2,3)
    by (cases "vp_status v")
       (auto simp: next_command_value [OF nv] next_command_value [OF nv'] split: if_splits prod.splits option.splits)
qed


section \<open>What the encoder prints is parsed back\<close>

lemma parse_number_line_whole: "parse_number_line = whole_i64"
  by (simp add: parse_number_line_def whole_i64_def fun_eq_iff)

lemma parse_number_line_nat: "int n \<le> i64_max \<Longrightarrow> parse_number_line (nat_to_string n) = Some (int n)"
  using whole_i64_int_to_string [of "int n"]
  by (simp add: parse_number_line_whole int_to_string_def in_i64_nonneg)

lemma nat_to_string_no_cr: "CHR 0x0D \<notin> set (nat_to_string n)"
  using nat_to_string_digits [of "CHR 0x0D"] by auto

lemma parse_at_header:
  assumes "depth \<le> kMaxDepth"
    and "buf = pre @ t # nat_to_string n @ crlf @ rest"
  shows "find_crlf buf (length pre + 1) = Some (length pre + 1 + length (nat_to_string n))"
    and "buf ! length pre = t"
    and "take (length (nat_to_string n)) (drop (length pre + 1) buf) = nat_to_string n"
  using find_crlf_line [OF nat_to_string_no_cr, of "pre @ [t]" n rest] assms by simp_all

lemma parse_bulk_exact:
  assumes "parse_number_line line = Some (int (length a))" and "buf = head @ a @ crlf @ rest"
    and "length a \<le> opt_max_bulk_bytes opts" and "length head + length a \<le> opt_max_request_bytes opts"
  shows "parse_bulk opts buf pos line (length head) =
    IOk (Value BulkString False a 0 []) (length head + length a + 2 - pos)"
  using assms by (simp add: parse_bulk_def Let_def nth_append crlf_def)

lemma parse_at_bulk:
  assumes depth: "depth \<le> kMaxDepth" and small: "length a \<le> opt_max_bulk_bytes opts"
    and i64: "int (length a) \<le> i64_max"
    and room: "length pre + length (bulk_string_fragment a) \<le> opt_max_request_bytes opts"
  shows "parse_at opts (pre @ bulk_string_fragment a @ rest) (length pre) depth =
    IOk (Value BulkString False a 0 []) (length (bulk_string_fragment a))"
proof -
  let ?d = "nat_to_string (length a)"
  let ?head = "pre @ CHR ''$'' # ?d @ crlf"
  let ?buf = "pre @ bulk_string_fragment a @ rest"
  have buf: "?buf = pre @ CHR ''$'' # ?d @ crlf @ (a @ crlf @ rest)"
    by (simp add: bulk_string_fragment_def)
  note head = parse_at_header [OF depth buf]
  have len: "length ?head = length pre + 1 + length ?d + 2" by (simp add: crlf_def)
  have buf': "?buf = ?head @ a @ crlf @ rest" by (simp add: bulk_string_fragment_def)
  have "parse_bulk opts ?buf (length pre) ?d (length ?head) =
      IOk (Value BulkString False a 0 []) (length ?head + length a + 2 - length pre)"
    using small room len
    by (intro parse_bulk_exact [OF parse_number_line_nat [OF i64] buf'])
       (simp_all add: bulk_string_fragment_def crlf_def)
  moreover have "length ?head + length a + 2 - length pre = length (bulk_string_fragment a)"
    by (simp add: bulk_string_fragment_def crlf_def)
  ultimately show ?thesis
    using parse_at_line [OF depth head(1), of opts] head(2,3) len by simp
qed

lemma parse_items_bulks:
  assumes "depth < kMaxDepth" and "pos \<le> length pre"
    and "\<forall>a \<in> set as. length a \<le> opt_max_bulk_bytes opts"
    and "length pre + length (concat (map bulk_string_fragment as)) \<le> opt_max_request_bytes opts"
    and "int (length (concat (map bulk_string_fragment as))) \<le> i64_max"
  shows "parse_items opts (pre @ concat (map bulk_string_fragment as) @ rest) pos (length pre) depth
      (length as) acc =
    IOk (Value Array False [] 0 (acc @ map (\<lambda>a. Value BulkString False a 0 []) as))
      (length pre + length (concat (map bulk_string_fragment as)) - pos)"
  using assms
proof (induction as arbitrary: pre acc)
  case (Cons a as)
  let ?f = "bulk_string_fragment a" and ?tail = "concat (map bulk_string_fragment as) @ rest"
  have "length a \<le> length ?f" by (simp add: bulk_string_fragment_def)
  with Cons.prems have "parse_at opts (pre @ ?f @ ?tail) (length pre) (depth + 1) =
      IOk (Value BulkString False a 0 []) (length ?f)"
    by (intro parse_at_bulk) auto
  moreover have "parse_items opts ((pre @ ?f) @ ?tail) pos (length (pre @ ?f)) depth (length as)
      (acc @ [Value BulkString False a 0 []]) =
    IOk (Value Array False [] 0 ((acc @ [Value BulkString False a 0 []])
        @ map (\<lambda>a. Value BulkString False a 0 []) as))
      (length (pre @ ?f) + length (concat (map bulk_string_fragment as)) - pos)"
    using Cons.prems by (intro Cons.IH) auto
  ultimately show ?case using Cons.prems by (simp add: Let_def) arith
qed simp

lemma parse_at_command:
  assumes "command_fits opts as"
  shows "parse_at opts (encode_command as @ rest) 0 0 =
    IOk (Value Array False [] 0 (map (\<lambda>a. Value BulkString False a 0 []) as))
      (length (encode_command as))"
proof -
  let ?h = "array_header (length as)" and ?items = "concat (map bulk_string_fragment as)"
  let ?d = "nat_to_string (length as)"
  have buf: "encode_command as @ rest = [] @ CHR ''*'' # ?d @ crlf @ (?items @ rest)"
    by (simp add: encode_command_def array_header_def)
  note head = parse_at_header [of 0, OF _ buf]
  have "length as \<le> length ?items"
    by (induction as) (auto simp: bulk_string_fragment_def crlf_def)
  with assms have i64: "int (length as) \<le> i64_max"
    by (simp add: command_fits_def encode_command_def)
  have len: "length ?h = 0 + 1 + length ?d + 2" by (simp add: array_header_def crlf_def)
  have "parse_items opts (?h @ ?items @ rest) 0 (length ?h) 0 (length as) [] =
      IOk (Value Array False [] 0 ([] @ map (\<lambda>a. Value BulkString False a 0 []) as))
        (length ?h + length ?items - 0)"
    using assms by (intro parse_items_bulks) (auto simp: command_fits_def encode_command_def kMaxDepth_def)
  moreover have "find_crlf (encode_command as @ rest) (0 + 1) = Some (length ?d + 1)"
    using head(1) by simp
  ultimately show ?thesis
    using parse_at_line [of 0 "encode_command as @ rest" 0 "length ?d + 1" opts] head(2,3) len assms i64
    by (simp add: parse_number_line_nat command_fits_def encode_command_def)
qed

lemma collect_args_bulks:
  "collect_args (map (\<lambda>a. Value BulkString False a 0 []) as) acc = (None, acc @ as)"
  by (induction as arbitrary: acc) auto

lemma next_command_encoded:
  assumes "command_fits opts as"
  shows "next_command \<lparr>options = opts, buffer = encode_command as @ rest\<rparr> =
    (\<lparr>cp_status = Parse_Ok, cp_command = \<lparr>args = as, raw = encode_command as\<rparr>, cp_error = []\<rparr>,
     \<lparr>options = opts, buffer = rest\<rparr>)"
proof -
  have "encode_command as \<noteq> []" "encode_command as ! 0 = CHR ''*''"
    by (simp_all add: encode_command_def array_header_def)
  then have "next_value \<lparr>options = opts, buffer = encode_command as @ rest\<rparr> =
    (\<lparr>vp_status = Parse_Ok,
      vp_value = Value Array False [] 0 (map (\<lambda>a. Value BulkString False a 0 []) as),
      vp_raw = encode_command as, vp_error = []\<rparr>, \<lparr>options = opts, buffer = rest\<rparr>)"
    using assms parse_at_command [OF assms, of rest]
    by (simp add: next_value_buffer parse_buffer_def is_resp_prefix_def nth_append command_fits_def)
  then show ?thesis
    by (simp add: next_command_def collect_args_bulks)
qed


section \<open>The parser meets the contracts\<close>

lemma command_step_item:
  assumes "command_step opts b = Some (Inr (c, r))"
  obtains res where "next_command \<lparr>options = opts, buffer = b\<rparr> = (res, \<lparr>options = opts, buffer = r\<rparr>)"
    and "cp_status res = Parse_Ok" and "args (cp_command res) = c"
proof -
  obtain res p where nc: "next_command \<lparr>options = opts, buffer = b\<rparr> = (res, p)" by fastforce
  with assms next_command_options [OF nc] have "p = \<lparr>options = opts, buffer = r\<rparr>"
      "cp_status res = Parse_Ok" "args (cp_command res) = c"
    by (auto simp: command_step_def split: parse_status.splits)
  with nc that show thesis by simp
qed

lemma command_step_error:
  assumes "command_step opts b = Some (Inl e)"
  obtains res p where "next_command \<lparr>options = opts, buffer = b\<rparr> = (res, p)"
    and "cp_status res = Parse_Error" and "cp_error res = e"
  using assms by (cases "next_command \<lparr>options = opts, buffer = b\<rparr>")
    (auto simp: command_step_def split: parse_status.splits)

interpretation cmds: framed_codec "command_step opts" "within_request opts" encode_command
  "command_fits opts" for opts
proof
  fix b c r assume "command_step opts b = Some (Inr (c, r))"
  then obtain res where nc: "next_command \<lparr>options = opts, buffer = b\<rparr> = (res, \<lparr>options = opts, buffer = r\<rparr>)"
      "cp_status res = Parse_Ok"
    by (rule command_step_item)
  have "b = raw (cp_command res) @ r" "raw (cp_command res) \<noteq> []"
    using next_command_ok(1,2) [OF nc] by simp_all
  then show "length r < length b" by simp
next
  fix b c r x
  assume w: "within_request opts b" and "command_step opts b = Some (Inr (c, r))"
  then obtain res where nc: "next_command \<lparr>options = opts, buffer = b\<rparr> = (res, \<lparr>options = opts, buffer = r\<rparr>)"
      "cp_status res = Parse_Ok" "args (cp_command res) = c"
    by (auto elim: command_step_item)
  with next_command_extend [OF _ nc(1), of x] w
  show "command_step opts (b @ x) = Some (Inr (c, r @ x))"
    by (simp add: command_step_def within_request_def)
next
  fix b e x
  assume w: "within_request opts b" and "command_step opts b = Some (Inl e)"
  then obtain res p where nc: "next_command \<lparr>options = opts, buffer = b\<rparr> = (res, p)"
      "cp_status res = Parse_Error" "cp_error res = e"
    by (auto elim: command_step_error)
  with next_command_extend [OF _ nc(1), of x] w
  show "command_step opts (b @ x) = Some (Inl e)"
    by (simp add: command_step_def within_request_def)
next
  fix b c r
  assume w: "within_request opts b" and "command_step opts b = Some (Inr (c, r))"
  then obtain res where nc: "next_command \<lparr>options = opts, buffer = b\<rparr> = (res, \<lparr>options = opts, buffer = r\<rparr>)"
      "cp_status res = Parse_Ok"
    by (auto elim: command_step_item)
  have "b = raw (cp_command res) @ r"
    using next_command_ok(1) [OF nc] by simp
  with w show "within_request opts r" by (simp add: within_request_def)
next
  fix c rest assume "command_fits opts c"
  then show "command_step opts (encode_command c @ rest) = Some (Inr (c, rest))"
    by (simp add: command_step_def next_command_encoded)
next
  fix c b x assume "command_fits opts c" and "encode_command c = b @ x"
  then show "within_request opts b"
    by (simp add: command_fits_def within_request_def)
qed

lemma command_step_nil [simp]: "command_step opts [] = None"
  by (simp add: command_step_def next_command_def next_value_def)

end
