(* ===== verification/Protocol_Props.thy ===== *)
theory Protocol_Props
  imports Resp_Stream
begin

text \<open>
  The properties of the RESP component: what the encoders print is parsed back, the parser is
  incremental and makes progress, and what it accepts is within the configured limits.
\<close>

text \<open>Small limits for the witnesses.\<close>

definition small_opts :: parser_options where
  "small_opts = \<lparr>opt_max_request_bytes = 64, opt_max_array_elements = 4, opt_max_bulk_bytes = 16\<rparr>"

lemmas [evals] = small_opts_def

lemma command_fits_get: "command_fits small_opts [''GET'', ''k'']"
  by (simp add: command_fits_def evals)

text \<open>
  C17. Round trip: a command within the limits, encoded and followed by any bytes, is parsed back
  to exactly its arguments, and exactly the bytes after it stay in the buffer.
\<close>

theorem encode_parse_round_trip:
  assumes "command_fits opts as"
  shows "next_command \<lparr>options = opts, buffer = encode_command as @ rest\<rparr> =
    (\<lparr>cp_status = Parse_Ok, cp_command = \<lparr>args = as, raw = encode_command as\<rparr>, cp_error = []\<rparr>,
     \<lparr>options = opts, buffer = rest\<rparr>)"
  by (rule next_command_encoded [OF assms])

theorem encode_parse_round_trip_witness:
  "args (cp_command (fst (next_command \<lparr>options = small_opts, buffer = encode_command [''GET'', ''k''] @ ''PING''\<rparr>)))
    = [''GET'', ''k'']"
  using encode_parse_round_trip [OF command_fits_get, of "''PING''"] by simp

text \<open>
  C30. Incremental parsing: once a buffer within the request limit yields a command or an error,
  more bytes at its end do not change that result; they only stay behind in the buffer.
\<close>

theorem parse_decision_is_final:
  assumes "length (buffer p) \<le> opt_max_request_bytes (options p)"
    and "next_command p = (res, p')" and "cp_status res \<noteq> NeedMore"
  shows "next_command (p\<lparr>buffer := buffer p @ ext\<rparr>) = (res, p'\<lparr>buffer := buffer p' @ ext\<rparr>)"
  by (rule next_command_extend [OF assms])

theorem parse_decision_is_final_witness:
  "cp_status (fst (next_command \<lparr>options = small_opts, buffer = ''!'' @ crlf @ ''GET k''\<rparr>)) =
   cp_status (fst (next_command \<lparr>options = small_opts, buffer = ''!'' @ crlf\<rparr>))"
proof -
  have "cp_status (fst (next_command \<lparr>options = small_opts, buffer = ''!'' @ crlf\<rparr>)) \<noteq> NeedMore"
    by code_simp
  then show ?thesis
    using parse_decision_is_final [of "\<lparr>options = small_opts, buffer = ''!'' @ crlf\<rparr>", OF _ prod.collapse [symmetric], of "''GET k''"]
    by (simp add: evals)
qed

text \<open>
  C18. Chunk independence: a stream parsed in two reads yields the same commands, the same error
  and the same left-over bytes as the stream parsed at once.
\<close>

theorem chunked_parsing:
  assumes "length b \<le> opt_max_request_bytes opts"
    and "decode_all (command_step opts) b = (cs, None, r)"
    and "decode_all (command_step opts) (r @ x) = (ds, e, t)"
  shows "decode_all (command_step opts) (b @ x) = (cs @ ds, e, t)"
  using cmds.decode_chunks [OF _ assms(2,3)] assms(1) by (simp add: within_request_def)

theorem chunked_parsing_witness:
  "fst (decode_all (command_step small_opts) (''PING'' @ crlf @ ''GET'' @ '' k'' @ crlf)) = [[''PING''], [''GET'', ''k'']]"
proof -
  have "decode_all (command_step small_opts) (''PING'' @ crlf @ ''GET'') = ([[''PING'']], None, ''GET'')"
    "decode_all (command_step small_opts) (''GET'' @ '' k'' @ crlf) = ([[''GET'', ''k'']], None, [])"
    by code_simp+
  from chunked_parsing [OF _ this] show ?thesis by (simp add: evals)
qed

text \<open>
  C31. Progress: a parsed command consumes a non-empty prefix of the buffer, of at most
  \<open>max_request_bytes\<close>, which is its raw text; asking for more bytes consumes nothing.  So a
  loop over \<open>next_command\<close> ends after at most as many commands as there are bytes.
\<close>

theorem parse_progress:
  assumes "next_command p = (res, p')"
  shows "(cp_status res = Parse_Ok \<longrightarrow> buffer p = raw (cp_command res) @ buffer p' \<and> raw (cp_command res) \<noteq> []
      \<and> length (raw (cp_command res)) \<le> opt_max_request_bytes (options p))
    \<and> (cp_status res = NeedMore \<longrightarrow> p' = p) \<and> options p' = options p"
  using next_command_ok [OF assms] next_command_need_more [OF assms] next_command_options [OF assms] by blast

theorem parse_progress_witness:
  "length (buffer (snd (next_command \<lparr>options = small_opts, buffer = encode_command [''GET'', ''k''] @ ''x''\<rparr>))) = 1"
proof -
  have "cp_status (fst (next_command \<lparr>options = small_opts, buffer = encode_command [''GET'', ''k''] @ ''x''\<rparr>)) = Parse_Ok"
    "raw (cp_command (fst (next_command \<lparr>options = small_opts, buffer = encode_command [''GET'', ''k''] @ ''x''\<rparr>)))
      = encode_command [''GET'', ''k'']"
    by (simp_all add: next_command_encoded [OF command_fits_get])
  then show ?thesis
    using parse_progress [OF prod.collapse [symmetric], of "\<lparr>options = small_opts, buffer = encode_command [''GET'', ''k''] @ ''x''\<rparr>"]
    by simp
qed

text \<open>The words of a line and the spaces between them are not longer than the line.\<close>

lemma split_words_size:
  "sum_list (map (\<lambda>w. length w + 1) (split_words line)) \<le> length line + (if line = [] \<or> isspace (hd line) then 0 else 1)"
proof (induction "length line" arbitrary: line rule: less_induct)
  case less
  show ?case
  proof (cases "line = []")
    case True
    then show ?thesis by (simp add: split_words.simps)
  next
    case False
    define rest where "rest = dropWhile isspace line"
    define word where "word = takeWhile (\<lambda>c. \<not> isspace c) rest"
    define after where "after = dropWhile (\<lambda>c. \<not> isspace c) rest"
    have "length after < length line" using split_words_shorter [OF False] by (simp add: after_def rest_def)
    from less.hyps [OF this] have IH: "sum_list (map (\<lambda>w. length w + 1) (split_words after)) \<le> length after"
      using hd_dropWhile [of "\<lambda>c. \<not> isspace c" rest] by (auto simp: after_def split: if_splits)
    have "length rest = length word + length after"
      unfolding word_def after_def by (metis length_append takeWhile_dropWhile_id)
    moreover have "length rest + (if isspace (hd line) then 1 else 0) \<le> length line"
      using False length_dropWhile_le [of isspace] by (cases line) (auto simp: rest_def)
    moreover have "split_words line = (if word \<noteq> [] then word # split_words after else split_words after)"
      using False by (simp add: split_words.simps [of line] Let_def rest_def word_def after_def)
    ultimately show ?thesis using IH False by (auto split: if_splits)
  qed
qed

lemma inline_items_fit: "inline_items m ws = Some vs \<Longrightarrow> \<forall>w\<in>set ws. length w \<le> m"
  by (induction m ws arbitrary: vs rule: inline_items.induct) (auto split: if_splits)

text \<open>
  C32. Limits.  A value parsed from typed input has no bulk string above \<open>max_bulk_bytes\<close>, no array above
  \<open>max_array_elements\<close>, and nests arrays at most \<open>kMaxDepth\<close> levels deep.  A value parsed from an inline
  line is a flat array of non-empty words within \<open>max_bulk_bytes\<close>; their number is limited only by the
  size of the request, each word counting at least two bytes of it.  Both take at most
  \<open>max_request_bytes\<close> bytes of the buffer.
\<close>

theorem parsed_value_within_limits:
  assumes "next_value p = (res, p')" and "vp_status res = Parse_Ok"
  shows "(is_resp_prefix (buffer p ! 0) \<longrightarrow> value_bounded (options p) kMaxDepth (vp_value res)) \<and>
    (\<not> is_resp_prefix (buffer p ! 0) \<longrightarrow>
       (\<exists>ws. vp_value res = Value Array False [] 0 (map (\<lambda>w. Value BulkString False w 0 []) ws) \<and>
          (\<forall>w\<in>set ws. w \<noteq> [] \<and> length w \<le> opt_max_bulk_bytes (options p)) \<and>
          2 * length ws < opt_max_request_bytes (options p))) \<and>
    length (vp_raw res) \<le> opt_max_request_bytes (options p)"
proof (cases "is_resp_prefix (buffer p ! 0)")
  case True
  obtain n where "parse_at (options p) (buffer p) 0 0 = IOk (vp_value res) n" "length (vp_raw res) \<le> opt_max_request_bytes (options p)"
    using assms True by (auto simp: next_value_def split: if_splits internal_result.splits)
  with parse_bounded(1) [OF this(1)] True show ?thesis by simp
next
  case False
  obtain n where n: "parse_inline (options p) (buffer p) 0 = IOk (vp_value res) n" "n \<le> opt_max_request_bytes (options p)"
      "length (vp_raw res) \<le> opt_max_request_bytes (options p)"
    using assms False by (auto simp: next_value_def split: if_splits internal_result.splits)
  then obtain c vs where c: "n = c + 2" and items: "inline_items (opt_max_bulk_bytes (options p)) (split_words (take c (buffer p))) = Some vs"
    and v: "vp_value res = Value Array False [] 0 vs"
    by (auto simp: parse_inline_def split: option.splits if_splits)
  let ?ws = "split_words (take c (buffer p))"
  have ne: "\<forall>w\<in>set ?ws. w \<noteq> []" using split_words_sound by blast
  have "2 * length ws \<le> sum_list (map (\<lambda>w. length w + 1) ws)" if "\<forall>w\<in>set ws. w \<noteq> []" for ws :: "string list"
    using that
  proof (induction ws)
    case (Cons w ws)
    then show ?case by (cases w) auto
  qed simp
  from this [OF ne] split_words_size [of "take c (buffer p)"] have "2 * length ?ws \<le> c + 1"
    by (auto split: if_splits)
  with inline_items_some [OF items] inline_items_fit [OF items] ne v c n False show ?thesis by (intro conjI impI exI [of _ ?ws]) auto
qed

theorem parsed_value_within_limits_witness:
  "value_bounded small_opts kMaxDepth
     (vp_value (fst (next_value \<lparr>options = small_opts, buffer = encode_command [''GET'', ''k'']\<rparr>)))"
proof -
  have "vp_status (fst (next_value \<lparr>options = small_opts, buffer = encode_command [''GET'', ''k'']\<rparr>)) = Parse_Ok"
    by code_simp
  then show ?thesis
    using parsed_value_within_limits [OF prod.collapse [symmetric],
        of "\<lparr>options = small_opts, buffer = encode_command [''GET'', ''k'']\<rparr>"]
    by (simp add: evals is_resp_prefix_def)
qed

text \<open>
  An inline request can have more arguments than \<open>max_array_elements\<close> allows: here five with the limit four.
\<close>

lemma inline_exceeds_array_limit:
  "args (cp_command (fst (next_command \<lparr>options = small_opts, buffer = ''DEL a b c d'' @ crlf\<rparr>))) = [''DEL'', ''a'', ''b'', ''c'', ''d''] \<and>
   cp_status (fst (next_command \<lparr>options = small_opts, buffer = ''DEL a b c d'' @ crlf\<rparr>)) = Parse_Ok \<and>
   opt_max_array_elements small_opts = 4"
  by code_simp

text \<open>
  The parser of a connection: bytes are appended as they arrive and commands are taken off.
\<close>

inductive parser_reachable :: "parser_options \<Rightarrow> parser \<Rightarrow> bool" for opts where
  fresh: "parser_reachable opts (mk_parser opts)"
| appended: "parser_reachable opts p \<Longrightarrow> parser_append p bs = (st, p') \<Longrightarrow> parser_reachable opts p'"
| taken: "parser_reachable opts p \<Longrightarrow> next_command p = (res, p') \<Longrightarrow> parser_reachable opts p'"
| cleared: "parser_reachable opts p \<Longrightarrow> parser_reachable opts (reset p)"

lemma parser_append_spec:
  assumes "parser_append p bs = (st, p')" and "length (buffer p) \<le> opt_max_request_bytes (options p)"
  shows "options p' = options p" and "length (buffer p') \<le> opt_max_request_bytes (options p)"
    and "ok_status st \<longleftrightarrow> length (buffer p) + length bs \<le> opt_max_request_bytes (options p)"
    and "ok_status st \<Longrightarrow> buffer p' = buffer p @ bs" and "\<not> ok_status st \<Longrightarrow> p' = p"
  using assms by (auto simp: parser_append_def split: if_splits)

text \<open>
  The request buffer of a parser never holds more than \<open>max_request_bytes\<close>, whatever the
  peer sends.
\<close>

theorem parser_buffer_bounded:
  assumes "parser_reachable opts p"
  shows "options p = opts \<and> buffered_bytes p \<le> opt_max_request_bytes opts"
  using assms
proof induction
  case (taken p res p')
  then show ?case
    using next_command_options [OF taken(2)] next_command_shrinks [OF taken(2)]
    by (auto simp: buffered_bytes_def)
qed (auto simp: mk_parser_def reset_def buffered_bytes_def dest: parser_append_spec(1,2))

theorem parser_buffer_bounded_witness:
  "buffered_bytes (snd (parser_append (mk_parser small_opts) (replicate 60 CHR ''a''))) \<le> 64"
  using parser_buffer_bounded [OF parser_reachable.appended [OF parser_reachable.fresh prod.collapse [symmetric]],
      of small_opts "replicate 60 CHR ''a''"]
  by (simp add: evals)

lemma parse_at_integer:
  assumes "in_i64 n"
  shows "parse_at opts (integer n @ rest) 0 0 = IOk (Value Integer False [] n []) (length (integer n))"
proof -
  let ?d = "int_to_string n"
  have buf: "integer n @ rest = [CHR '':''] @ ?d @ crlf @ rest" by (simp add: integer_def)
  have "find_crlf (integer n @ rest) (0 + 1) = Some (length ?d + 1)"
    using find_crlf_line [OF int_to_string_no_cr, of "[CHR '':'']" n rest] buf by simp
  then show ?thesis
    using parse_at_line [of 0 "integer n @ rest" 0 "length ?d + 1" opts] whole_i64_int_to_string [OF assms]
    by (simp add: buf parse_number_line_whole integer_def crlf_def)
qed

text \<open>
  Replies round trip: an integer reply and a bulk reply are parsed by the same grammar to
  the value that was printed.
\<close>

theorem replies_round_trip:
  assumes "in_i64 n" and "length v \<le> opt_max_bulk_bytes opts" and "int (length v) \<le> i64_max"
    and "length (bulk v) \<le> opt_max_request_bytes opts"
  shows "parse_at opts (integer n @ rest) 0 0 = IOk (Value Integer False [] n []) (length (integer n))
    \<and> parse_at opts (bulk v @ rest) 0 0 = IOk (Value BulkString False v 0 []) (length (bulk v))"
  using parse_at_integer [OF assms(1)] parse_at_bulk [of 0 v opts "[]" rest] assms(2-4) by (simp add: bulk_def)

theorem replies_round_trip_witness:
  "parse_at small_opts (integer (- 42) @ ''x'') 0 0 = IOk (Value Integer False [] (- 42) []) 6
   \<and> parse_at small_opts (bulk ''v'' @ ''x'') 0 0 = IOk (Value BulkString False ''v'' 0 []) 7"
  using replies_round_trip [of "- 42" "''v''" small_opts "''x''"] by (simp add: evals)

end
