(* ===== verification/Storage.thy ===== *)
theory Storage
  imports Config_Types
begin

text \<open>
  The sharded in-memory engine of \<open>include/veloxdb/storage/storage_engine.h\<close> and
  \<open>src/storage/storage_engine.cpp\<close>.

  Every public operation takes its shard lock for its whole body, so one operation is one atomic
  step on the engine; the multi-key operations are sequences of such steps.  The reading of
  \<open>Clock::now()\<close> that an operation takes is its argument \<open>now\<close>; operations that read the
  clock several times get a \<open>clock\<close>.  The compare-and-swap loops on \<open>used_memory_\<close> are
  their effect on the counter.  \<open>std::hash\<close> is the field \<open>se_hash\<close>, and the outcome of the
  allocation inside \<open>emplace\<close>, which the \<open>catch\<close> blocks handle, is the field
  \<open>se_alloc_ok\<close>: both are parameters of an engine that no operation changes.
\<close>


section \<open>Data\<close>

datatype SetCondition = Always | NX | XX

datatype WriteCode = Ok | NotSet | NoMemory | KeyTooLarge | ValueTooLarge | InvalidInteger | Overflow

record WriteResult =
  wr_code :: WriteCode
  wr_integer :: int

datatype TtlState = Missing | NoExpiry | HasExpiry

record TtlResult =
  tr_state :: TtlState
  tr_milliseconds :: int

record SnapshotEntry =
  sn_key :: string
  sn_value :: string
  sn_expire_at_unix_ms :: "int option"

record Entry =
  e_value :: string
  e_expiry :: "time_point option"
  e_version :: nat
  e_last_access :: time_point

record Shard =
  s_map :: "(string \<times> Entry) list"
  s_memory_bytes :: nat
  s_expire_cursor :: nat

record StorageEngine =
  se_config :: StorageConfig
  se_limits :: ProtocolConfig
  se_shards :: "Shard list"
  se_used_memory :: nat
  se_expired_keys :: nat
  se_hash :: "string \<Rightarrow> nat"
  se_alloc_ok :: bool

definition kEntryOverhead :: nat where "kEntryOverhead = 96"

text \<open>Milliseconds and clock ticks: the clock counts nanoseconds, \<open>duration_cast\<close> truncates.\<close>

definition ticks_per_ms :: int where "ticks_per_ms = 1000000"

definition tp_add :: "time_point \<Rightarrow> int \<Rightarrow> time_point" where
  "tp_add tp ms = wrap64 (tp + wrap64 (ms * ticks_per_ms))"

definition unix_ms :: "time_point \<Rightarrow> int" where
  "unix_ms tp = tp sdiv ticks_per_ms"

definition timepoint_from_unix_ms :: "int \<Rightarrow> time_point" where
  "timepoint_from_unix_ms milliseconds = wrap64 (milliseconds * ticks_per_ms)"

definition parse_integer_value :: "string \<Rightarrow> int option" where
  "parse_integer_value value =
     (if value = [] then None
      else case from_chars_i64 value of (ec, parsed, ptr) \<Rightarrow>
        if ec \<noteq> errc_ok \<or> ptr \<noteq> [] then None else Some parsed)"


section \<open>Construction and private helpers\<close>

definition empty_shard :: Shard where
  "empty_shard = \<lparr>s_map = [], s_memory_bytes = 0, s_expire_cursor = 0\<rparr>"

definition mk_storage ::
  "(string \<Rightarrow> nat) \<Rightarrow> bool \<Rightarrow> StorageConfig \<Rightarrow> ProtocolConfig \<Rightarrow> StorageEngine" where
  "mk_storage hash_fn alloc config limits =
     (let config' = (if shards config = 0 then config\<lparr>shards := 1\<rparr> else config) in
      \<lparr>se_config = config', se_limits = limits,
       se_shards = replicate (shards config') empty_shard,
       se_used_memory = 0, se_expired_keys = 0, se_hash = hash_fn, se_alloc_ok = alloc\<rparr>)"

definition shard_count :: "StorageEngine \<Rightarrow> nat" where
  "shard_count se = length (se_shards se)"

definition shard_for_key :: "StorageEngine \<Rightarrow> string \<Rightarrow> nat" where
  "shard_for_key se key = se_hash se key mod length (se_shards se)"

definition shard_find :: "StorageEngine \<Rightarrow> nat \<Rightarrow> string \<Rightarrow> Entry option" where
  "shard_find se i key = map_of (s_map (se_shards se ! i)) key"

definition expired :: "Entry \<Rightarrow> time_point \<Rightarrow> bool" where
  "expired entry now = (case e_expiry entry of None \<Rightarrow> False | Some t \<Rightarrow> t \<le> now)"

definition entry_memory :: "string \<Rightarrow> string \<Rightarrow> nat" where
  "entry_memory key value = kEntryOverhead + length key + length value"

definition key_valid :: "StorageEngine \<Rightarrow> string \<Rightarrow> bool" where
  "key_valid se key \<longleftrightarrow> length key \<le> max_key_size (se_limits se)"

definition value_valid :: "StorageEngine \<Rightarrow> string \<Rightarrow> bool" where
  "value_valid se value \<longleftrightarrow> length value \<le> max_value_size (se_limits se)"

definition reserve_memory :: "StorageEngine \<Rightarrow> nat \<Rightarrow> bool \<times> StorageEngine" where
  "reserve_memory se n =
     (if n = 0 \<or> max_memory_bytes (se_config se) = 0 then (True, se)
      else if se_used_memory se > max_memory_bytes (se_config se)
          \<or> n > max_memory_bytes (se_config se) - se_used_memory se then (False, se)
      else (True, se\<lparr>se_used_memory := se_used_memory se + n\<rparr>))"

definition release_memory :: "StorageEngine \<Rightarrow> nat \<Rightarrow> StorageEngine" where
  "release_memory se n =
     (if n = 0 \<or> se_used_memory se = 0 then se
      else se\<lparr>se_used_memory := (if n > se_used_memory se then 0 else se_used_memory se - n)\<rparr>)"

definition update_shard :: "StorageEngine \<Rightarrow> nat \<Rightarrow> (Shard \<Rightarrow> Shard) \<Rightarrow> StorageEngine" where
  "update_shard se i f = se\<lparr>se_shards := (se_shards se)[i := f (se_shards se ! i)]\<rparr>"

definition count_expired :: "StorageEngine \<Rightarrow> nat \<Rightarrow> StorageEngine" where
  "count_expired se n = se\<lparr>se_expired_keys := se_expired_keys se + n\<rparr>"

text \<open>The iterator argument of \<open>erase_entry_locked\<close> is the key and the entry it points to.\<close>

definition erase_entry_locked :: "StorageEngine \<Rightarrow> nat \<Rightarrow> string \<Rightarrow> Entry \<Rightarrow> StorageEngine" where
  "erase_entry_locked se i key entry =
     (let memory = entry_memory key (e_value entry) in
      update_shard (release_memory se memory) i
        (\<lambda>s. s\<lparr>s_memory_bytes := s_memory_bytes s - memory, s_map := AList.delete key (s_map s)\<rparr>))"

definition erase_if_expired_locked ::
  "StorageEngine \<Rightarrow> nat \<Rightarrow> string \<Rightarrow> time_point \<Rightarrow> bool \<times> StorageEngine" where
  "erase_if_expired_locked se i key now =
     (case shard_find se i key of
        None \<Rightarrow> (False, se)
      | Some entry \<Rightarrow>
          if \<not> expired entry now then (False, se)
          else (True, count_expired (erase_entry_locked se i key entry) 1))"

definition put_entry :: "StorageEngine \<Rightarrow> nat \<Rightarrow> string \<Rightarrow> Entry \<Rightarrow> StorageEngine" where
  "put_entry se i key entry = update_shard se i (\<lambda>s. s\<lparr>s_map := AList.update key entry (s_map s)\<rparr>)"

text \<open>
  The common tail of \<open>set\<close>, \<open>incr_by\<close> and \<open>append\<close>: account for the memory, then insert or
  overwrite the entry.  \<open>it\<close> is the entry found under the key, if any.
\<close>

definition write_entry ::
  "StorageEngine \<Rightarrow> nat \<Rightarrow> string \<Rightarrow> Entry option \<Rightarrow> string \<Rightarrow> time_point option \<Rightarrow> time_point
     \<Rightarrow> WriteCode \<times> StorageEngine" where
  "write_entry se i key it value expiry now =
     (let old_memory = (case it of None \<Rightarrow> 0 | Some e \<Rightarrow> entry_memory key (e_value e));
          new_memory = entry_memory key value;
          (granted, se1) = (if new_memory > old_memory then reserve_memory se (new_memory - old_memory)
                            else (True, se));
          entry = \<lparr>e_value = value, e_expiry = expiry,
                   e_version = (case it of None \<Rightarrow> 1 | Some e \<Rightarrow> e_version e + 1),
                   e_last_access = now\<rparr>
      in if \<not> granted then (NoMemory, se1)
         else if it = None \<and> \<not> se_alloc_ok se1 then
           (NoMemory, if new_memory > old_memory then release_memory se1 (new_memory - old_memory) else se1)
         else
           (let se2 = update_shard (put_entry se1 i key entry) i
                  (\<lambda>s. s\<lparr>s_memory_bytes := s_memory_bytes s - old_memory + new_memory\<rparr>)
            in (Ok, if old_memory > new_memory then release_memory se2 (old_memory - new_memory) else se2)))"


section \<open>Operations on one key\<close>

definition storage_set ::
  "StorageEngine \<Rightarrow> time_point \<Rightarrow> string \<Rightarrow> string \<Rightarrow> int option \<Rightarrow> SetCondition
     \<Rightarrow> WriteResult \<times> StorageEngine" where
  "storage_set se now key value ttl condition =
     (if \<not> key_valid se key then (\<lparr>wr_code = KeyTooLarge, wr_integer = 0\<rparr>, se)
      else if \<not> value_valid se value then (\<lparr>wr_code = ValueTooLarge, wr_integer = 0\<rparr>, se)
      else
        (let i = shard_for_key se key;
             se1 = snd (erase_if_expired_locked se i key now);
             it = shard_find se1 i key;
             exists = (it \<noteq> None)
         in if (condition = NX \<and> exists) \<or> (condition = XX \<and> \<not> exists) then
              (\<lparr>wr_code = NotSet, wr_integer = 0\<rparr>, se1)
            else (case write_entry se1 i key it value (map_option (tp_add now) ttl) now of
                (wcode, se2) \<Rightarrow> (\<lparr>wr_code = wcode, wr_integer = 0\<rparr>, se2))))"

definition storage_get :: "StorageEngine \<Rightarrow> time_point \<Rightarrow> string \<Rightarrow> string option \<times> StorageEngine" where
  "storage_get se now key =
     (let i = shard_for_key se key in
      case shard_find se i key of
        None \<Rightarrow> (None, se)
      | Some entry \<Rightarrow>
          if expired entry now then (None, count_expired (erase_entry_locked se i key entry) 1)
          else (Some (e_value entry), put_entry se i key (entry\<lparr>e_last_access := now\<rparr>)))"

definition storage_del :: "StorageEngine \<Rightarrow> time_point \<Rightarrow> string \<Rightarrow> nat \<times> StorageEngine" where
  "storage_del se now key =
     (let i = shard_for_key se key in
      case shard_find se i key of
        None \<Rightarrow> (0, se)
      | Some entry \<Rightarrow>
          if expired entry now then (0, count_expired (erase_entry_locked se i key entry) 1)
          else (1, erase_entry_locked se i key entry))"

text \<open>The lookup that \<open>incr_by\<close> and \<open>append\<close> start with: an expired entry is erased first.\<close>

definition find_live ::
  "StorageEngine \<Rightarrow> nat \<Rightarrow> string \<Rightarrow> time_point \<Rightarrow> Entry option \<times> StorageEngine" where
  "find_live se i key now =
     (case shard_find se i key of
        None \<Rightarrow> (None, se)
      | Some entry \<Rightarrow>
          if expired entry now then (None, count_expired (erase_entry_locked se i key entry) 1)
          else (Some entry, se))"

definition storage_incr_by ::
  "StorageEngine \<Rightarrow> time_point \<Rightarrow> string \<Rightarrow> int \<Rightarrow> WriteResult \<times> StorageEngine" where
  "storage_incr_by se now key delta =
     (if \<not> key_valid se key then (\<lparr>wr_code = KeyTooLarge, wr_integer = 0\<rparr>, se)
      else
        (let i = shard_for_key se key;
             (it, se1) = find_live se i key now
         in case (case it of None \<Rightarrow> Some 0 | Some e \<Rightarrow> parse_integer_value (e_value e)) of
              None \<Rightarrow> (\<lparr>wr_code = InvalidInteger, wr_integer = 0\<rparr>, se1)
            | Some current \<Rightarrow>
                if (delta > 0 \<and> current > wrap64 (i64_max - delta))
                    \<or> (delta < 0 \<and> current < wrap64 (i64_min - delta)) then
                  (\<lparr>wr_code = Overflow, wr_integer = 0\<rparr>, se1)
                else
                  (let next_int = wrap64 (current + delta);
                       next_value = int_to_string next_int
                   in if \<not> value_valid se1 next_value then (\<lparr>wr_code = ValueTooLarge, wr_integer = 0\<rparr>, se1)
                      else (case write_entry se1 i key it next_value None now of
                          (wcode, se2) \<Rightarrow>
                            (\<lparr>wr_code = wcode, wr_integer = (if wcode = Ok then next_int else 0)\<rparr>, se2)))))"

definition storage_append ::
  "StorageEngine \<Rightarrow> time_point \<Rightarrow> string \<Rightarrow> string \<Rightarrow> WriteResult \<times> StorageEngine" where
  "storage_append se now key suffix =
     (if \<not> key_valid se key then (\<lparr>wr_code = KeyTooLarge, wr_integer = 0\<rparr>, se)
      else
        (let i = shard_for_key se key;
             (it, se1) = find_live se i key now;
             next_value = (case it of None \<Rightarrow> [] | Some e \<Rightarrow> e_value e) @ suffix
         in if \<not> value_valid se1 next_value then (\<lparr>wr_code = ValueTooLarge, wr_integer = 0\<rparr>, se1)
            else (case write_entry se1 i key it next_value None now of
                (wcode, se2) \<Rightarrow>
                  (\<lparr>wr_code = wcode, wr_integer = (if wcode = Ok then int (length next_value) else 0)\<rparr>, se2))))"

definition storage_strlen :: "StorageEngine \<Rightarrow> time_point \<Rightarrow> string \<Rightarrow> nat \<times> StorageEngine" where
  "storage_strlen se now key =
     (case storage_get se now key of
        (None, se') \<Rightarrow> (0, se')
      | (Some value, se') \<Rightarrow> (length value, se'))"

definition storage_expire_at ::
  "StorageEngine \<Rightarrow> time_point \<Rightarrow> string \<Rightarrow> time_point \<Rightarrow> bool \<times> StorageEngine" where
  "storage_expire_at se now key expire_at_tp =
     (let i = shard_for_key se key in
      case shard_find se i key of
        None \<Rightarrow> (False, se)
      | Some entry \<Rightarrow>
          if expired entry now then (False, count_expired (erase_entry_locked se i key entry) 1)
          else if expire_at_tp \<le> now then (True, count_expired (erase_entry_locked se i key entry) 1)
          else (True, put_entry se i key
                 (entry\<lparr>e_expiry := Some expire_at_tp, e_version := e_version entry + 1\<rparr>)))"

text \<open>
  \<open>expire\<close> reads the clock once itself (\<open>clk 0\<close>); \<open>del\<close> or \<open>expire_at\<close> reads it again.
\<close>

definition storage_expire :: "StorageEngine \<Rightarrow> clock \<Rightarrow> string \<Rightarrow> int \<Rightarrow> bool \<times> StorageEngine" where
  "storage_expire se clk key ttl =
     (if ttl \<le> 0 then (case storage_del se (clk 1) key of (n, se') \<Rightarrow> (n = 1, se'))
      else storage_expire_at se (clk 1) key (tp_add (clk 0) ttl))"

definition storage_ttl :: "StorageEngine \<Rightarrow> time_point \<Rightarrow> string \<Rightarrow> TtlResult \<times> StorageEngine" where
  "storage_ttl se now key =
     (let i = shard_for_key se key in
      case shard_find se i key of
        None \<Rightarrow> (\<lparr>tr_state = Missing, tr_milliseconds = 0\<rparr>, se)
      | Some entry \<Rightarrow>
          if expired entry now then
            (\<lparr>tr_state = Missing, tr_milliseconds = 0\<rparr>, count_expired (erase_entry_locked se i key entry) 1)
          else (case e_expiry entry of
              None \<Rightarrow> (\<lparr>tr_state = NoExpiry, tr_milliseconds = 0\<rparr>, se)
            | Some t \<Rightarrow>
                (\<lparr>tr_state = HasExpiry, tr_milliseconds = max 0 (wrap64 (t - now) sdiv ticks_per_ms)\<rparr>, se)))"

definition storage_persist :: "StorageEngine \<Rightarrow> time_point \<Rightarrow> string \<Rightarrow> bool \<times> StorageEngine" where
  "storage_persist se now key =
     (let i = shard_for_key se key in
      case shard_find se i key of
        None \<Rightarrow> (False, se)
      | Some entry \<Rightarrow>
          if expired entry now then (False, count_expired (erase_entry_locked se i key entry) 1)
          else if e_expiry entry = None then (False, se)
          else (True, put_entry se i key
                 (entry\<lparr>e_expiry := None, e_version := e_version entry + 1\<rparr>)))"


section \<open>Operations on several keys\<close>

text \<open>Each key is a separate call, with its own reading of the clock.\<close>

fun storage_del_keys :: "StorageEngine \<Rightarrow> clock \<Rightarrow> string list \<Rightarrow> nat \<times> StorageEngine" where
  "storage_del_keys se clk [] = (0, se)"
| "storage_del_keys se clk (key # keys) =
     (case storage_del se (clk 0) key of (n, se1) \<Rightarrow>
        case storage_del_keys se1 (\<lambda>i. clk (Suc i)) keys of (m, se2) \<Rightarrow> (n + m, se2))"

fun storage_exists :: "StorageEngine \<Rightarrow> clock \<Rightarrow> string list \<Rightarrow> nat \<times> StorageEngine" where
  "storage_exists se clk [] = (0, se)"
| "storage_exists se clk (key # keys) =
     (case storage_get se (clk 0) key of (v, se1) \<Rightarrow>
        case storage_exists se1 (\<lambda>i. clk (Suc i)) keys of (m, se2) \<Rightarrow>
          ((if v \<noteq> None then 1 else 0) + m, se2))"

fun storage_mget :: "StorageEngine \<Rightarrow> clock \<Rightarrow> string list \<Rightarrow> string option list \<times> StorageEngine" where
  "storage_mget se clk [] = ([], se)"
| "storage_mget se clk (key # keys) =
     (case storage_get se (clk 0) key of (v, se1) \<Rightarrow>
        case storage_mget se1 (\<lambda>i. clk (Suc i)) keys of (vs, se2) \<Rightarrow> (v # vs, se2))"


section \<open>Operations on all shards\<close>

text \<open>
  The loop that \<open>dbsize\<close>, \<open>expires_count\<close> and \<open>snapshot\<close> run over one shard: erase what
  has expired, and let \<open>visit\<close> accumulate over the rest, in iteration order.
\<close>

fun sweep_entries ::
  "(string \<Rightarrow> Entry \<Rightarrow> 'a \<Rightarrow> 'a) \<Rightarrow> nat \<Rightarrow> time_point \<Rightarrow> (string \<times> Entry) list
     \<Rightarrow> 'a \<Rightarrow> StorageEngine \<Rightarrow> 'a \<times> StorageEngine" where
  "sweep_entries visit i now [] acc se = (acc, se)"
| "sweep_entries visit i now ((key, entry) # es) acc se =
     (if expired entry now then
        sweep_entries visit i now es acc (count_expired (erase_entry_locked se i key entry) 1)
      else sweep_entries visit i now es (visit key entry acc) se)"

fun sweep_shards ::
  "(string \<Rightarrow> Entry \<Rightarrow> 'a \<Rightarrow> 'a) \<Rightarrow> time_point \<Rightarrow> nat list \<Rightarrow> 'a \<Rightarrow> StorageEngine \<Rightarrow> 'a \<times> StorageEngine" where
  "sweep_shards visit now [] acc se = (acc, se)"
| "sweep_shards visit now (i # is) acc se =
     (case sweep_entries visit i now (s_map (se_shards se ! i)) acc se of
        (acc', se') \<Rightarrow> sweep_shards visit now is acc' se')"

definition storage_dbsize :: "StorageEngine \<Rightarrow> time_point \<Rightarrow> nat \<times> StorageEngine" where
  "storage_dbsize se now = sweep_shards (\<lambda>_ _ total. total + 1) now [0..<length (se_shards se)] 0 se"

definition storage_expires_count :: "StorageEngine \<Rightarrow> time_point \<Rightarrow> nat \<times> StorageEngine" where
  "storage_expires_count se now =
     sweep_shards (\<lambda>_ entry total. if e_expiry entry \<noteq> None then total + 1 else total) now
       [0..<length (se_shards se)] 0 se"

definition snapshot_entry :: "string \<Rightarrow> Entry \<Rightarrow> SnapshotEntry" where
  "snapshot_entry key entry =
     \<lparr>sn_key = key, sn_value = e_value entry,
      sn_expire_at_unix_ms = map_option unix_ms (e_expiry entry)\<rparr>"

definition storage_snapshot :: "StorageEngine \<Rightarrow> time_point \<Rightarrow> SnapshotEntry list \<times> StorageEngine" where
  "storage_snapshot se now =
     sweep_shards (\<lambda>key entry entries. entries @ [snapshot_entry key entry]) now
       [0..<length (se_shards se)] [] se"

definition storage_flushdb :: "StorageEngine \<Rightarrow> StorageEngine" where
  "storage_flushdb se =
     release_memory
       (se\<lparr>se_shards := map (\<lambda>s. s\<lparr>s_memory_bytes := 0, s_map := []\<rparr>) (se_shards se)\<rparr>)
       (sum_list (map s_memory_bytes (se_shards se)))"

text \<open>
  The sampling loop of \<open>active_expire\<close> on one shard.  The iterator is an index into the
  iteration order; erasing leaves it on the following entry, and the end wraps to the begin.
  The result is the number erased, the number sampled and the engine.
\<close>

fun active_expire_loop ::
  "nat \<Rightarrow> time_point \<Rightarrow> nat \<Rightarrow> nat \<Rightarrow> nat \<Rightarrow> nat \<Rightarrow> StorageEngine \<Rightarrow> nat \<times> nat \<times> StorageEngine" where
  "active_expire_loop i now 0 it sampled expired_count se = (expired_count, sampled, se)"
| "active_expire_loop i now (Suc todo) it sampled expired_count se =
     (if s_map (se_shards se ! i) = [] then (expired_count, sampled, se)
      else
        (let (key, entry) = s_map (se_shards se ! i) ! it;
             gone = expired entry now;
             se' = (if gone then erase_entry_locked se i key entry else se);
             it' = (if gone then it else it + 1);
             it'' = (if it' = length (s_map (se_shards se' ! i)) then 0 else it')
         in active_expire_loop i now todo it'' (sampled + 1)
              (if gone then expired_count + 1 else expired_count) se'))"

definition active_expire_shard ::
  "nat \<Rightarrow> time_point \<Rightarrow> nat \<Rightarrow> StorageEngine \<Rightarrow> nat \<times> StorageEngine" where
  "active_expire_shard i now sample se =
     (if s_map (se_shards se ! i) = [] then
        (0, update_shard se i (\<lambda>s. s\<lparr>s_expire_cursor := 0\<rparr>))
      else
        (let size0 = length (s_map (se_shards se ! i));
             cursor = s_expire_cursor (se_shards se ! i) mod size0;
             target = min sample size0;
             (n, sampled, se1) = active_expire_loop i now target cursor 0 0 se
         in (n, update_shard se1 i (\<lambda>s. s\<lparr>s_expire_cursor :=
               (if s_map s = [] then 0 else (cursor + sampled) mod length (s_map s))\<rparr>))))"

fun active_expire_shards ::
  "time_point \<Rightarrow> nat \<Rightarrow> nat list \<Rightarrow> StorageEngine \<Rightarrow> nat \<times> StorageEngine" where
  "active_expire_shards now sample [] se = (0, se)"
| "active_expire_shards now sample (i # is) se =
     (case active_expire_shard i now sample se of (n, se1) \<Rightarrow>
        case active_expire_shards now sample is se1 of (m, se2) \<Rightarrow> (n + m, se2))"

definition storage_active_expire :: "StorageEngine \<Rightarrow> time_point \<Rightarrow> nat \<Rightarrow> nat \<times> StorageEngine" where
  "storage_active_expire se now sample =
     (case active_expire_shards now sample [0..<length (se_shards se)] se of
        (n, se') \<Rightarrow> (n, if n \<noteq> 0 then count_expired se' n else se'))"

definition used_memory_estimate :: "StorageEngine \<Rightarrow> nat" where
  "used_memory_estimate se = se_used_memory se"

definition expired_keys :: "StorageEngine \<Rightarrow> nat" where
  "expired_keys se = se_expired_keys se"

definition storage_write_error :: "WriteCode \<Rightarrow> string" where
  "storage_write_error wcode =
     (case wcode of
        Ok \<Rightarrow> ''OK''
      | NotSet \<Rightarrow> ''condition not met''
      | NoMemory \<Rightarrow> ''OOM command not allowed when used_memory exceeds maxmemory''
      | KeyTooLarge \<Rightarrow> ''key exceeds configured maximum size''
      | ValueTooLarge \<Rightarrow> ''value exceeds configured maximum size''
      | InvalidInteger \<Rightarrow> ''value is not an integer or out of range''
      | Overflow \<Rightarrow> ''increment or decrement would overflow'')"

lemmas [evals] = kEntryOverhead_def ticks_per_ms_def tp_add_def unix_ms_def
  timepoint_from_unix_ms_def parse_integer_value_def empty_shard_def mk_storage_def
  shard_for_key_def shard_find_def expired_def entry_memory_def key_valid_def value_valid_def
  reserve_memory_def release_memory_def update_shard_def count_expired_def
  erase_entry_locked_def erase_if_expired_locked_def put_entry_def write_entry_def
  storage_set_def storage_get_def storage_del_def find_live_def storage_incr_by_def
  storage_append_def storage_strlen_def storage_expire_at_def storage_expire_def storage_ttl_def
  storage_persist_def storage_dbsize_def storage_expires_count_def snapshot_entry_def
  storage_snapshot_def storage_flushdb_def active_expire_shard_def storage_active_expire_def
  used_memory_estimate_def expired_keys_def storage_write_error_def

end
