(* ===== verification/Storage_Inv.thy ===== *)
theory Storage_Inv
  imports Storage
begin

text \<open>
  The well-formedness invariant of the storage engine and the effect of its primitives on it.

  \<open>storage_inv\<close>: there is a shard; every key sits in the shard its hash selects, once, and keys
  and values are within the limits; each shard's \<open>memory_bytes\<close> is the sum of its entries; and
  \<open>used_memory_\<close> is the total over the shards, within the memory limit (with no limit
  configured, the counter is never charged and stays 0).

  The effect of an operation on the contents is stated through \<open>lookup\<close>, the entry stored
  under a key, and \<open>view\<close>, what is visible under it at a point in time.
\<close>


section \<open>Contents and invariant\<close>

definition lookup :: "StorageEngine \<Rightarrow> string \<Rightarrow> Entry option" where
  "lookup se key = shard_find se (shard_for_key se key) key"

definition visible :: "time_point \<Rightarrow> Entry option \<Rightarrow> (string \<times> time_point option) option" where
  "visible now it =
     (case it of None \<Rightarrow> None
      | Some e \<Rightarrow> if expired e now then None else Some (e_value e, e_expiry e))"

definition view :: "StorageEngine \<Rightarrow> time_point \<Rightarrow> string \<Rightarrow> (string \<times> time_point option) option" where
  "view se now key = visible now (lookup se key)"

definition map_memory :: "(string \<times> Entry) list \<Rightarrow> nat" where
  "map_memory al = sum_list (map (\<lambda>(k, e). entry_memory k (e_value e)) al)"

definition shard_wf :: "(string \<Rightarrow> nat) \<Rightarrow> nat \<Rightarrow> ProtocolConfig \<Rightarrow> nat \<Rightarrow> Shard \<Rightarrow> bool" where
  "shard_wf h n lim i s \<longleftrightarrow>
     distinct (map fst (s_map s)) \<and>
     (\<forall>(k, e) \<in> set (s_map s). h k mod n = i \<and> length k \<le> max_key_size lim
        \<and> length (e_value e) \<le> max_value_size lim) \<and>
     s_memory_bytes s = map_memory (s_map s)"

definition total_memory :: "StorageEngine \<Rightarrow> nat" where
  "total_memory se = sum_list (map s_memory_bytes (se_shards se))"

definition memory_ok :: "StorageConfig \<Rightarrow> nat \<Rightarrow> nat \<Rightarrow> bool" where
  "memory_ok config used tot \<longleftrightarrow>
     (if max_memory_bytes config = 0 then used = 0
      else used = tot \<and> used \<le> max_memory_bytes config)"

definition storage_inv :: "StorageEngine \<Rightarrow> bool" where
  "storage_inv se \<longleftrightarrow>
     se_shards se \<noteq> [] \<and>
     (\<forall>i < length (se_shards se).
        shard_wf (se_hash se) (length (se_shards se)) (se_limits se) i (se_shards se ! i)) \<and>
     memory_ok (se_config se) (se_used_memory se) (total_memory se)"

text \<open>The parameters of an engine, which no operation changes.\<close>

definition same_params :: "StorageEngine \<Rightarrow> StorageEngine \<Rightarrow> bool" where
  "same_params se se' \<longleftrightarrow>
     se_config se' = se_config se \<and> se_limits se' = se_limits se \<and> se_hash se' = se_hash se
     \<and> se_alloc_ok se' = se_alloc_ok se \<and> length (se_shards se') = length (se_shards se)"

lemma lookup_alt: "lookup se k = map_of (s_map (se_shards se ! shard_for_key se k)) k"
  by (simp add: lookup_def shard_find_def)

lemma same_params_refl [simp, intro]: "same_params se se"
  by (simp add: same_params_def)

lemma same_params_trans [trans]: "same_params a b \<Longrightarrow> same_params b c \<Longrightarrow> same_params a c"
  by (simp add: same_params_def)

lemma same_params_shard_for_key: "same_params se se' \<Longrightarrow> shard_for_key se' k = shard_for_key se k"
  by (simp add: same_params_def shard_for_key_def)

lemma storage_inv_shard_for_key [simp]: "storage_inv se \<Longrightarrow> shard_for_key se k < length (se_shards se)"
  by (simp add: storage_inv_def shard_for_key_def)

lemma storage_inv_shard:
  "storage_inv se \<Longrightarrow> i < length (se_shards se) \<Longrightarrow>
     shard_wf (se_hash se) (length (se_shards se)) (se_limits se) i (se_shards se ! i)"
  by (simp add: storage_inv_def)

lemma entry_memory_pos [simp]: "0 < entry_memory k v"
  by (simp add: entry_memory_def kEntryOverhead_def)

lemma shard_find_wf:
  assumes "storage_inv se" and "i < length (se_shards se)" and "shard_find se i k = Some e"
  shows "shard_for_key se k = i" and "key_valid se k" and "value_valid se (e_value e)"
    and "entry_memory k (e_value e) \<le> s_memory_bytes (se_shards se ! i)"
proof -
  have "(k, e) \<in> set (s_map (se_shards se ! i))"
    using assms(3) by (simp add: shard_find_def map_of_SomeD)
  then show "shard_for_key se k = i" "key_valid se k" "value_valid se (e_value e)"
    using storage_inv_shard [OF assms(1,2)]
    by (auto simp: shard_wf_def shard_for_key_def key_valid_def value_valid_def)
  show "entry_memory k (e_value e) \<le> s_memory_bytes (se_shards se ! i)"
    using storage_inv_shard [OF assms(1,2)] assms(3)
      map_of_member_le_sum [of "s_map (se_shards se ! i)" k e "\<lambda>(k, e). entry_memory k (e_value e)"]
    by (simp add: shard_wf_def map_memory_def shard_find_def)
qed

lemma storage_inv_mk_storage [simp]: "storage_inv (mk_storage h alloc config limits)"
  by (auto simp: mk_storage_def storage_inv_def shard_wf_def empty_shard_def map_memory_def
      memory_ok_def total_memory_def sum_list_replicate Let_def)

lemma lookup_mk_storage [simp]: "lookup (mk_storage h alloc config limits) k = None"
proof -
  let ?n = "if shards config = 0 then 1 else shards config"
  have "h k mod ?n < ?n" by simp
  then show ?thesis
    by (simp add: lookup_def shard_find_def mk_storage_def shard_for_key_def empty_shard_def Let_def)
qed


section \<open>Replacing one shard\<close>

lemma total_memory_ge: "i < length (se_shards se) \<Longrightarrow> s_memory_bytes (se_shards se ! i) \<le> total_memory se"
  unfolding total_memory_def by (rule nth_le_sum_list)

lemma storage_inv_replace:
  assumes inv: "storage_inv se" and params: "same_params se se'" and i: "i < length (se_shards se)"
    and shards: "se_shards se' = (se_shards se)[i := s]"
    and wf: "shard_wf (se_hash se) (length (se_shards se)) (se_limits se) i s"
    and mem: "memory_ok (se_config se) (se_used_memory se')
      (total_memory se - s_memory_bytes (se_shards se ! i) + s_memory_bytes s)"
  shows "storage_inv se'"
proof -
  have "total_memory se' = total_memory se - s_memory_bytes (se_shards se ! i) + s_memory_bytes s"
    using sum_list_nth_update [OF i, of s_memory_bytes s] total_memory_ge [OF i]
    by (simp add: total_memory_def shards)
  then show ?thesis
    using assms by (auto simp: storage_inv_def nth_list_update same_params_def)
qed

lemma lookup_replace:
  assumes "same_params se se'" and "se_shards se' = (se_shards se)[i := s]"
    and "shard_for_key se k < length (se_shards se)"
  shows "lookup se' k = (if shard_for_key se k = i then map_of (s_map s) k else lookup se k)"
  using assms by (simp add: lookup_def shard_find_def same_params_shard_for_key nth_list_update)


section \<open>Erasing an entry\<close>

lemma release_memory_alt:
  "release_memory se n = se\<lparr>se_used_memory := se_used_memory se - n\<rparr>"
  by (auto simp: release_memory_def)

lemma erase_entry_locked_fields:
  "se_shards (erase_entry_locked se i k e) = (se_shards se)[i := (se_shards se ! i)
     \<lparr>s_memory_bytes := s_memory_bytes (se_shards se ! i) - entry_memory k (e_value e),
      s_map := AList.delete k (s_map (se_shards se ! i))\<rparr>]"
  "se_used_memory (erase_entry_locked se i k e) = se_used_memory se - entry_memory k (e_value e)"
  by (simp_all add: erase_entry_locked_def release_memory_alt update_shard_def Let_def)

lemma same_params_erase [simp, intro]: "same_params se (erase_entry_locked se i k e)"
  by (simp add: same_params_def erase_entry_locked_def release_memory_alt update_shard_def Let_def)

lemma storage_inv_erase:
  assumes inv: "storage_inv se" and i: "i < length (se_shards se)" and find: "shard_find se i k = Some e"
  shows "storage_inv (erase_entry_locked se i k e)"
proof (rule storage_inv_replace [OF inv same_params_erase i erase_entry_locked_fields(1)])
  let ?s = "se_shards se ! i" and ?m = "entry_memory k (e_value e)"
  note wf = storage_inv_shard [OF inv i]
  have le: "?m \<le> s_memory_bytes ?s" by (rule shard_find_wf(4) [OF inv i find])
  have "map_memory (AList.delete k (s_map ?s)) + ?m = map_memory (s_map ?s)"
    using sum_list_delete [of "s_map ?s" k e "\<lambda>(k, e). entry_memory k (e_value e)"] wf find
    by (simp add: map_memory_def shard_wf_def shard_find_def)
  then show "shard_wf (se_hash se) (length (se_shards se)) (se_limits se) i
      (?s\<lparr>s_memory_bytes := s_memory_bytes ?s - ?m, s_map := AList.delete k (s_map ?s)\<rparr>)"
    using wf by (auto simp: shard_wf_def AList.delete_eq distinct_fst_filter)
  show "memory_ok (se_config se) (se_used_memory (erase_entry_locked se i k e))
      (total_memory se - s_memory_bytes ?s + s_memory_bytes
        (?s\<lparr>s_memory_bytes := s_memory_bytes ?s - ?m, s_map := AList.delete k (s_map ?s)\<rparr>))"
    using inv le total_memory_ge [OF i]
    by (auto simp: storage_inv_def memory_ok_def erase_entry_locked_fields)
qed

lemma lookup_erase:
  assumes inv: "storage_inv se" and find: "shard_find se (shard_for_key se k) k = Some e"
  shows "lookup (erase_entry_locked se (shard_for_key se k) k e) = (lookup se)(k := None)"
proof
  fix k'
  have "distinct (map fst (s_map (se_shards se ! shard_for_key se k)))"
    using storage_inv_shard [OF inv, of "shard_for_key se k"] inv by (simp add: shard_wf_def)
  then have "map_of (AList.delete k (s_map (se_shards se ! shard_for_key se k))) k' =
      (if k' = k then None else map_of (s_map (se_shards se ! shard_for_key se k)) k')"
    by (simp add: delete_conv')
  with inv lookup_replace [OF same_params_erase erase_entry_locked_fields(1), of se k' "shard_for_key se k" k e]
  show "lookup (erase_entry_locked se (shard_for_key se k) k e) k' = ((lookup se)(k := None)) k'"
    by (cases "k' = k") (simp_all add: lookup_alt split: if_splits)
qed

lemma count_expired_simps [simp]:
  "storage_inv (count_expired se n) = storage_inv se"
  "lookup (count_expired se n) = lookup se"
  "same_params a (count_expired se n) = same_params a se"
  "view (count_expired se n) = view se"
  by (auto simp: count_expired_def storage_inv_def lookup_def shard_find_def shard_for_key_def
      same_params_def total_memory_def view_def fun_eq_iff)


section \<open>Storing an entry\<close>

lemma put_entry_fields:
  "se_shards (put_entry se i k e) = (se_shards se)[i := (se_shards se ! i)
     \<lparr>s_map := AList.update k e (s_map (se_shards se ! i))\<rparr>]"
  "se_used_memory (put_entry se i k e) = se_used_memory se"
  by (simp_all add: put_entry_def update_shard_def)

lemma same_params_put [simp, intro]: "same_params se (put_entry se i k e)"
  by (simp add: same_params_def put_entry_def update_shard_def)

lemma set_update_subset: "set (AList.update k v al) \<subseteq> insert (k, v) (set al)"
  by (induction al) auto

lemma lookup_put:
  assumes "storage_inv se"
  shows "lookup (put_entry se (shard_for_key se k) k e) = (lookup se)(k \<mapsto> e)"
proof
  fix k'
  from assms lookup_replace [OF same_params_put put_entry_fields(1), of se k' "shard_for_key se k" k e]
  show "lookup (put_entry se (shard_for_key se k) k e) k' = ((lookup se)(k \<mapsto> e)) k'"
    by (simp add: lookup_alt update_conv')
qed

text \<open>Changing the bookkeeping fields of an entry (not its value) keeps the invariant.\<close>

lemma storage_inv_put:
  assumes inv: "storage_inv se" and i: "i < length (se_shards se)" and find: "shard_find se i k = Some e"
    and same: "e_value e' = e_value e"
  shows "storage_inv (put_entry se i k e')"
proof (rule storage_inv_replace [OF inv same_params_put i put_entry_fields(1)])
  let ?s = "se_shards se ! i"
  note wf = storage_inv_shard [OF inv i]
  have mem: "map_memory (AList.update k e' (s_map ?s)) = map_memory (s_map ?s)"
    using sum_list_update_present [of "s_map ?s" k e "\<lambda>(k, e). entry_memory k (e_value e)" e'] wf find same
    by (simp add: map_memory_def shard_wf_def shard_find_def)
  show "shard_wf (se_hash se) (length (se_shards se)) (se_limits se) i
      (?s\<lparr>s_map := AList.update k e' (s_map ?s)\<rparr>)"
    using wf mem shard_find_wf [OF inv i find] same set_update_subset [of k e' "s_map ?s"]
    by (auto simp: shard_wf_def distinct_update shard_for_key_def key_valid_def value_valid_def)
  show "memory_ok (se_config se) (se_used_memory (put_entry se i k e'))
      (total_memory se - s_memory_bytes ?s + s_memory_bytes (?s\<lparr>s_map := AList.update k e' (s_map ?s)\<rparr>))"
    using inv total_memory_ge [OF i]
    by (auto simp: storage_inv_def memory_ok_def put_entry_fields split: if_splits)
qed


section \<open>Writing a value\<close>

definition memory_of :: "string \<Rightarrow> Entry option \<Rightarrow> nat" where
  "memory_of k it = (case it of None \<Rightarrow> 0 | Some e \<Rightarrow> entry_memory k (e_value e))"

definition next_version :: "Entry option \<Rightarrow> nat" where
  "next_version it = (case it of None \<Rightarrow> 1 | Some e \<Rightarrow> e_version e + 1)"

text \<open>Whether a write that replaces \<open>it\<close> by \<open>value\<close> finds the memory it needs.\<close>

definition write_granted :: "StorageEngine \<Rightarrow> string \<Rightarrow> Entry option \<Rightarrow> string \<Rightarrow> bool" where
  "write_granted se k it value \<longleftrightarrow>
     (max_memory_bytes (se_config se) = 0
      \<or> se_used_memory se + (entry_memory k value - memory_of k it) \<le> max_memory_bytes (se_config se))
     \<and> (it = None \<longrightarrow> se_alloc_ok se)"

definition written_entry :: "Entry option \<Rightarrow> string \<Rightarrow> time_point option \<Rightarrow> time_point \<Rightarrow> Entry" where
  "written_entry it value exp now =
     \<lparr>e_value = value, e_expiry = exp, e_version = next_version it, e_last_access = now\<rparr>"

lemma used_memory_le:
  "storage_inv se \<Longrightarrow> max_memory_bytes (se_config se) \<noteq> 0 \<Longrightarrow>
     se_used_memory se \<le> max_memory_bytes (se_config se)"
  by (simp add: storage_inv_def memory_ok_def)

lemma reserve_memory_cases:
  assumes "storage_inv se"
  shows "reserve_memory se n =
    (if max_memory_bytes (se_config se) = 0 then (True, se)
     else if se_used_memory se + n \<le> max_memory_bytes (se_config se)
     then (True, se\<lparr>se_used_memory := se_used_memory se + n\<rparr>) else (False, se))"
  using used_memory_le [OF assms] by (auto simp: reserve_memory_def)

lemma storage_inv_unlimited: "storage_inv se \<Longrightarrow> max_memory_bytes (se_config se) = 0 \<Longrightarrow> se_used_memory se = 0"
  by (simp add: storage_inv_def memory_ok_def)

text \<open>\<open>charge\<close>: the engine after a granted reservation for replacing \<open>old\<close> by \<open>new\<close> bytes.\<close>

definition charge :: "StorageEngine \<Rightarrow> nat \<Rightarrow> nat \<Rightarrow> StorageEngine" where
  "charge se old new =
     (if max_memory_bytes (se_config se) = 0 then se
      else se\<lparr>se_used_memory := se_used_memory se + (new - old)\<rparr>)"

lemma reserve_or_skip:
  assumes inv: "storage_inv se"
  shows "(if new > old then reserve_memory se (new - old) else (True, se)) =
    (if max_memory_bytes (se_config se) = 0
        \<or> se_used_memory se + (new - old) \<le> max_memory_bytes (se_config se)
     then (True, charge se old new) else (False, se))"
  using used_memory_le [OF inv] by (auto simp: reserve_memory_cases [OF inv] charge_def)

lemma release_charge:
  assumes inv: "storage_inv se"
  shows "(if new > old then release_memory (charge se old new) (new - old) else charge se old new) = se"
  using storage_inv_unlimited [OF inv] by (auto simp: charge_def release_memory_alt)

definition stored :: "StorageEngine \<Rightarrow> nat \<Rightarrow> string \<Rightarrow> Entry \<Rightarrow> nat \<Rightarrow> nat \<Rightarrow> StorageEngine" where
  "stored se i k e old new =
     se\<lparr>se_shards := (se_shards se)[i := (se_shards se ! i)
          \<lparr>s_map := AList.update k e (s_map (se_shards se ! i)),
           s_memory_bytes := s_memory_bytes (se_shards se ! i) - old + new\<rparr>],
        se_used_memory := (if max_memory_bytes (se_config se) = 0 then 0
          else se_used_memory se + (new - old) - (old - new))\<rparr>"

lemma store_and_release:
  assumes inv: "storage_inv se" and i: "i < length (se_shards se)"
  shows "(let se2 = update_shard (put_entry (charge se old new) i k e) i
           (\<lambda>s. s\<lparr>s_memory_bytes := s_memory_bytes s - old + new\<rparr>)
     in if old > new then release_memory se2 (old - new) else se2) = stored se i k e old new"
  using storage_inv_unlimited [OF inv] i
  by (simp add: Let_def stored_def charge_def release_memory_alt put_entry_def update_shard_def)

lemma write_entry_cases:
  assumes inv: "storage_inv se" and i: "i < length (se_shards se)"
  shows "write_entry se i k it value exp now =
    (if write_granted se k it value
     then (Ok, stored se i k (written_entry it value exp now) (memory_of k it) (entry_memory k value))
     else (NoMemory, se))"
proof -
  define old new e where "old = memory_of k it" and "new = entry_memory k value"
    and "e = written_entry it value exp now"
  define room where "room \<longleftrightarrow> max_memory_bytes (se_config se) = 0
      \<or> se_used_memory se + (new - old) \<le> max_memory_bytes (se_config se)"
  have "write_entry se i k it value exp now =
      (case (if room then (True, charge se old new) else (False, se)) of (granted, se1) \<Rightarrow>
         if \<not> granted then (NoMemory, se1)
         else if it = None \<and> \<not> se_alloc_ok se1 then
           (NoMemory, if new > old then release_memory se1 (new - old) else se1)
         else (Ok, let se2 = update_shard (put_entry se1 i k e) i
             (\<lambda>s. s\<lparr>s_memory_bytes := s_memory_bytes s - old + new\<rparr>)
           in if old > new then release_memory se2 (old - new) else se2))"
    unfolding room_def reserve_or_skip [OF inv, symmetric]
    by (simp only: write_entry_def Let_def old_def new_def e_def memory_of_def written_entry_def next_version_def)
  also have "\<dots> = (if room \<and> (it = None \<longrightarrow> se_alloc_ok se) then (Ok, stored se i k e old new) else (NoMemory, se))"
  proof (cases room)
    case True
    have alloc: "se_alloc_ok (charge se old new) = se_alloc_ok se" by (simp add: charge_def)
    from True show ?thesis
      by (simp only: if_True prod.case alloc release_charge [OF inv] store_and_release [OF inv i]) auto
  qed simp
  finally show ?thesis by (simp only: write_granted_def room_def old_def new_def e_def)
qed

lemma same_params_stored [simp, intro]: "same_params se (stored se i k e old new)"
  by (simp add: same_params_def stored_def)

lemma lookup_stored:
  assumes "storage_inv se"
  shows "lookup (stored se (shard_for_key se k) k e old new) = (lookup se)(k \<mapsto> e)"
proof
  fix k'
  have "se_shards (stored se (shard_for_key se k) k e old new) = (se_shards se)[shard_for_key se k :=
      (se_shards se ! shard_for_key se k)
        \<lparr>s_map := AList.update k e (s_map (se_shards se ! shard_for_key se k)),
         s_memory_bytes := s_memory_bytes (se_shards se ! shard_for_key se k) - old + new\<rparr>]"
    by (simp add: stored_def)
  from assms lookup_replace [OF same_params_stored this, of k']
  show "lookup (stored se (shard_for_key se k) k e old new) k' = ((lookup se)(k \<mapsto> e)) k'"
    by (simp add: lookup_alt update_conv')
qed

lemma map_memory_update:
  assumes "distinct (map fst al)"
  shows "map_memory (AList.update k e al) =
    map_memory al - memory_of k (map_of al k) + entry_memory k (e_value e)"
    and "memory_of k (map_of al k) \<le> map_memory al"
proof -
  let ?f = "\<lambda>(k, e). entry_memory k (e_value e)"
  show "memory_of k (map_of al k) \<le> map_memory al"
    using map_of_member_le_sum [of al k _ ?f]
    by (cases "map_of al k") (simp_all add: memory_of_def map_memory_def)
  then show "map_memory (AList.update k e al) =
    map_memory al - memory_of k (map_of al k) + entry_memory k (e_value e)"
    using sum_list_update_absent [of al k ?f e] sum_list_update_present [OF assms, of k _ ?f e]
    by (cases "map_of al k") (force simp: memory_of_def map_memory_def)+
qed

lemma storage_inv_stored:
  assumes inv: "storage_inv se" and i: "i = shard_for_key se k"
    and valid: "key_valid se k" "value_valid se (e_value e)"
    and old: "old = memory_of k (shard_find se i k)" and new: "new = entry_memory k (e_value e)"
    and room: "max_memory_bytes (se_config se) = 0
      \<or> se_used_memory se + (new - old) \<le> max_memory_bytes (se_config se)"
  shows "storage_inv (stored se i k e old new)"
proof -
  let ?s = "se_shards se ! i"
  let ?s' = "?s\<lparr>s_map := AList.update k e (s_map ?s), s_memory_bytes := s_memory_bytes ?s - old + new\<rparr>"
  have i': "i < length (se_shards se)" using inv i by simp
  note wf = storage_inv_shard [OF inv i']
  have dist: "distinct (map fst (s_map ?s))" and mem: "s_memory_bytes ?s = map_memory (s_map ?s)"
    using wf by (simp_all add: shard_wf_def)
  have old_le: "old \<le> s_memory_bytes ?s"
    using map_memory_update(2) [OF dist, of k] mem old by (simp add: shard_find_def)
  have new_mem: "map_memory (AList.update k e (s_map ?s)) = s_memory_bytes ?s - old + new"
    using map_memory_update(1) [OF dist, of k e] mem old new by (simp add: shard_find_def)
  have fields: "se_shards (stored se i k e old new) = (se_shards se)[i := ?s']"
    "se_used_memory (stored se i k e old new) = (if max_memory_bytes (se_config se) = 0 then 0
          else se_used_memory se + (new - old) - (old - new))"
    by (simp_all add: stored_def)
  show ?thesis
  proof (rule storage_inv_replace [OF inv same_params_stored i' fields(1)])
    show "shard_wf (se_hash se) (length (se_shards se)) (se_limits se) i ?s'"
      using wf valid i set_update_subset [of k e "s_map ?s"] new_mem
      by (auto simp: shard_wf_def distinct_update shard_for_key_def key_valid_def value_valid_def)
    show "memory_ok (se_config se) (se_used_memory (stored se i k e old new))
        (total_memory se - s_memory_bytes ?s + s_memory_bytes ?s')"
    proof (cases "max_memory_bytes (se_config se) = 0")
      case False
      with inv have "se_used_memory se = total_memory se" "total_memory se \<le> max_memory_bytes (se_config se)"
        by (simp_all add: storage_inv_def memory_ok_def)
      with False room old_le total_memory_ge [OF i'] show ?thesis
        by (simp add: memory_ok_def fields) arith
    qed (simp add: memory_ok_def fields)
  qed
qed

end
