(* ===== verification/Storage_Ops.thy ===== *)
theory Storage_Ops
  imports Storage_Inv
begin

text \<open>
  What each public operation of the storage engine does to the contents, on every branch, and
  that it keeps \<open>storage_inv\<close> and the parameters.  The effect is an equation for \<open>lookup\<close>;
  the properties about what clients see follow through \<open>view\<close>.
\<close>

text \<open>The contents after the eviction of an expired entry under one key.\<close>

definition evict :: "time_point \<Rightarrow> string \<Rightarrow> (string \<rightharpoonup> Entry) \<Rightarrow> (string \<rightharpoonup> Entry)" where
  "evict now k m = (if visible now (m k) = None then m(k := None) else m)"

text \<open>An operation is correct on an engine when it keeps the invariant and the parameters.\<close>

definition keeps :: "StorageEngine \<Rightarrow> StorageEngine \<Rightarrow> bool" where
  "keeps se se' \<longleftrightarrow> storage_inv se' \<and> same_params se se'"

lemma keepsI [intro]: "storage_inv se' \<Longrightarrow> same_params se se' \<Longrightarrow> keeps se se'"
  by (simp add: keeps_def)

lemma keepsD: "keeps se se' \<Longrightarrow> storage_inv se'" "keeps se se' \<Longrightarrow> same_params se se'"
  by (simp_all add: keeps_def)

lemma keeps_refl [simp]: "storage_inv se \<Longrightarrow> keeps se se"
  by (simp add: keeps_def)

lemma keeps_trans: "keeps a b \<Longrightarrow> keeps b c \<Longrightarrow> keeps a c"
  by (auto simp: keeps_def intro: same_params_trans)

lemma visible_simps [simp]:
  "visible now None = None"
  "visible now (Some e) = (if expired e now then None else Some (e_value e, e_expiry e))"
  by (auto simp: visible_def)

lemma visible_Some: "visible now it = Some (v, x) \<longleftrightarrow> (\<exists>e. it = Some e \<and> \<not> expired e now \<and> v = e_value e \<and> x = e_expiry e)"
  by (auto simp: visible_def split: option.splits if_splits)

lemma evict_lookup:
  "lookup se k = None \<Longrightarrow> evict now k (lookup se) = lookup se"
  "lookup se k = Some e \<Longrightarrow> expired e now \<Longrightarrow> evict now k (lookup se) = (lookup se)(k := None)"
  "lookup se k = Some e \<Longrightarrow> \<not> expired e now \<Longrightarrow> evict now k (lookup se) = lookup se"
  by (auto simp: evict_def fun_eq_iff)

lemma find_shard: "shard_find se (shard_for_key se k) k = lookup se k"
  by (simp add: lookup_def)

text \<open>Erasing an entry whose key hashes to its shard, packaged for the operations.\<close>

lemma erase_spec:
  assumes inv: "storage_inv se" and find: "lookup se k = Some e"
  defines "se' \<equiv> erase_entry_locked se (shard_for_key se k) k e"
  shows "keeps se se'" and "lookup se' = (lookup se)(k := None)"
    and "keeps se (count_expired se' n)" and "lookup (count_expired se' n) = (lookup se)(k := None)"
  using inv find storage_inv_erase [OF inv _ find [unfolded lookup_def]]
    lookup_erase [OF inv find [unfolded lookup_def]]
  by (auto simp: se'_def)

lemma put_spec:
  assumes inv: "storage_inv se" and find: "lookup se k = Some e" and same: "e_value e' = e_value e"
  defines "se' \<equiv> put_entry se (shard_for_key se k) k e'"
  shows "keeps se se'" and "lookup se' = (lookup se)(k \<mapsto> e')"
  using inv storage_inv_put [OF inv _ find [unfolded lookup_def] same] lookup_put [OF inv]
  by (auto simp: se'_def)


section \<open>The operations that start with an eviction\<close>

lemma find_live_cases:
  assumes "storage_inv se" and "find_live se (shard_for_key se k) k now = (it, se')"
  obtains (absent) "lookup se k = None" "it = None" "se' = se"
    | (gone) e where "lookup se k = Some e" "expired e now" "it = None"
        "se' = count_expired (erase_entry_locked se (shard_for_key se k) k e) 1"
    | (live) e where "lookup se k = Some e" "\<not> expired e now" "it = Some e" "se' = se"
  using assms by (auto simp: find_live_def find_shard split: option.splits if_splits)

lemma find_live_spec:
  assumes inv: "storage_inv se" and op: "find_live se (shard_for_key se k) k now = (it, se')"
  shows "keeps se se'" and "lookup se' = evict now k (lookup se)" and "it = lookup se' k"
    and "visible now it = view se now k" and "it = None \<longleftrightarrow> view se now k = None"
proof -
  from inv op have "keeps se se' \<and> lookup se' = evict now k (lookup se) \<and> it = lookup se' k
    \<and> visible now it = view se now k \<and> (it = None \<longleftrightarrow> view se now k = None)"
  proof (cases rule: find_live_cases)
    case (gone e)
    with erase_spec [OF inv gone(1)] show ?thesis
      by (simp add: evict_lookup(2) view_def)
  qed (use inv in \<open>simp_all add: evict_lookup view_def\<close>)
  then show "keeps se se'" "lookup se' = evict now k (lookup se)" "it = lookup se' k"
    "visible now it = view se now k" "it = None \<longleftrightarrow> view se now k = None"
    by blast+
qed

lemma erase_if_expired_find_live:
  "snd (erase_if_expired_locked se i k now) = snd (find_live se i k now)"
  by (auto simp: erase_if_expired_locked_def find_live_def split: option.split)

lemma write_spec:
  assumes inv: "storage_inv se" and valid: "key_valid se k" "value_valid se v"
    and op: "write_entry se (shard_for_key se k) k (lookup se k) v exp now = (c, se')"
  shows "keeps se se'"
    and "c = (if write_granted se k (lookup se k) v then Ok else NoMemory)"
    and "c = Ok \<Longrightarrow> lookup se' = (lookup se)(k \<mapsto> written_entry (lookup se k) v exp now)"
    and "c \<noteq> Ok \<Longrightarrow> se' = se"
proof -
  let ?e = "written_entry (lookup se k) v exp now"
  have w: "write_entry se (shard_for_key se k) k (lookup se k) v exp now =
      (if write_granted se k (lookup se k) v
       then (Ok, stored se (shard_for_key se k) k ?e (memory_of k (lookup se k)) (entry_memory k v))
       else (NoMemory, se))"
    using inv by (intro write_entry_cases) simp_all
  have "storage_inv (stored se (shard_for_key se k) k ?e (memory_of k (lookup se k)) (entry_memory k v))"
    if "write_granted se k (lookup se k) v"
    using that inv valid
    by (intro storage_inv_stored) (auto simp: written_entry_def write_granted_def find_shard)
  then show "keeps se se'"
    using op inv by (auto simp: w split: if_splits)
  show "c = (if write_granted se k (lookup se k) v then Ok else NoMemory)" "c \<noteq> Ok \<Longrightarrow> se' = se"
    using op by (auto simp: w split: if_splits)
  show "c = Ok \<Longrightarrow> lookup se' = (lookup se)(k \<mapsto> ?e)"
    using op lookup_stored [OF inv] by (auto simp: w split: if_splits)
qed

lemma same_params_valid:
  "same_params se se' \<Longrightarrow> key_valid se' k = key_valid se k"
  "same_params se se' \<Longrightarrow> value_valid se' v = value_valid se v"
  by (simp_all add: same_params_def key_valid_def value_valid_def)


text \<open>
  \<open>set\<close>: the error branches, the \<open>NX\<close>/\<open>XX\<close> condition, the memory limit, and the entry that a
  successful write stores.
\<close>

lemma storage_set_spec:
  assumes inv: "storage_inv se" and op: "storage_set se now k v ttl cond = (res, se')"
  shows "keeps se se'"
    and "\<not> key_valid se k \<Longrightarrow> wr_code res = KeyTooLarge \<and> se' = se"
    and "key_valid se k \<Longrightarrow> \<not> value_valid se v \<Longrightarrow> wr_code res = ValueTooLarge \<and> se' = se"
    and "key_valid se k \<Longrightarrow> value_valid se v \<Longrightarrow>
      wr_code res = NotSet \<longleftrightarrow> (cond = NX \<and> view se now k \<noteq> None) \<or> (cond = XX \<and> view se now k = None)"
    and "wr_code res \<noteq> Ok \<Longrightarrow> lookup se' = lookup se \<or> lookup se' = evict now k (lookup se)"
    and "wr_code res = Ok \<Longrightarrow> \<exists>old. lookup se' =
      (lookup se)(k \<mapsto> written_entry old v (map_option (tp_add now) ttl) now)"
    and "wr_code res = Ok \<Longrightarrow> key_valid se k \<and> value_valid se v
       \<and> (cond = NX \<longrightarrow> view se now k = None) \<and> (cond = XX \<longrightarrow> view se now k \<noteq> None)"
    and "key_valid se k \<Longrightarrow> value_valid se v \<Longrightarrow> wr_code res \<in> {Ok, NotSet, NoMemory}"
proof -
  obtain it se1 where fl: "find_live se (shard_for_key se k) k now = (it, se1)" by fastforce
  note live = find_live_spec [OF inv fl]
  note inv1 = keepsD(1) [OF live(1)] and params1 = keepsD(2) [OF live(1)]
  have shard: "shard_for_key se k = shard_for_key se1 k"
    by (simp add: same_params_shard_for_key [OF params1])
  note seen = live(5)
  obtain c se2 where w: "write_entry se1 (shard_for_key se1 k) k (lookup se1 k) v
      (map_option (tp_add now) ttl) now = (c, se2)" by fastforce
  define ok where "ok \<longleftrightarrow> key_valid se k \<and> value_valid se v"
  note wspec = write_spec [OF inv1, of k v, OF _ _ w]
  have e1: "snd (erase_if_expired_locked se (shard_for_key se k) k now) = se1"
    using fl by (simp add: erase_if_expired_find_live)
  have e2: "shard_find se1 (shard_for_key se k) k = lookup se1 k"
    by (simp add: lookup_def shard)
  have step: "(res, se') =
     (if \<not> key_valid se k then (\<lparr>wr_code = KeyTooLarge, wr_integer = 0\<rparr>, se)
      else if \<not> value_valid se v then (\<lparr>wr_code = ValueTooLarge, wr_integer = 0\<rparr>, se)
      else if (cond = NX \<and> view se now k \<noteq> None) \<or> (cond = XX \<and> view se now k = None)
      then (\<lparr>wr_code = NotSet, wr_integer = 0\<rparr>, se1)
      else (\<lparr>wr_code = c, wr_integer = 0\<rparr>, se2))"
    unfolding op [symmetric] storage_set_def Let_def e1 e2 w [folded shard]
      live(5) [unfolded live(3)]
    by (cases "view se now k") auto
  have put: "lookup se2 = (lookup se)(k \<mapsto> written_entry (lookup se1 k) v (map_option (tp_add now) ttl) now)"
    if "ok" "c = Ok"
    using wspec(3) that params1 by (auto simp: same_params_valid ok_def live(2) evict_def)
  have keep2: "keeps se se2" "c \<noteq> Ok \<Longrightarrow> se2 = se1" "c \<in> {Ok, NoMemory}" if ok
    using wspec that params1 keeps_trans [OF live(1)] by (auto simp: same_params_valid ok_def)
  show "keeps se se'" using step inv live(1) keep2 by (auto simp: ok_def split: if_splits)
  show "\<not> key_valid se k \<Longrightarrow> wr_code res = KeyTooLarge \<and> se' = se"
    "key_valid se k \<Longrightarrow> \<not> value_valid se v \<Longrightarrow> wr_code res = ValueTooLarge \<and> se' = se"
    using step by auto
  show "key_valid se k \<Longrightarrow> value_valid se v \<Longrightarrow>
      wr_code res = NotSet \<longleftrightarrow> (cond = NX \<and> view se now k \<noteq> None) \<or> (cond = XX \<and> view se now k = None)"
    using step keep2(3) by (auto simp: ok_def split: if_splits)
  show "wr_code res \<noteq> Ok \<Longrightarrow> lookup se' = lookup se \<or> lookup se' = evict now k (lookup se)"
    using step keep2(2) live(2) by (auto simp: ok_def split: if_splits)
  show "wr_code res = Ok \<Longrightarrow> \<exists>old. lookup se' =
      (lookup se)(k \<mapsto> written_entry old v (map_option (tp_add now) ttl) now)"
    using step put by (auto simp: ok_def split: if_splits)
  show "wr_code res = Ok \<Longrightarrow> key_valid se k \<and> value_valid se v
       \<and> (cond = NX \<longrightarrow> view se now k = None) \<and> (cond = XX \<longrightarrow> view se now k \<noteq> None)"
    using step by (cases "view se now k") (auto split: if_splits)
  show "key_valid se k \<Longrightarrow> value_valid se v \<Longrightarrow> wr_code res \<in> {Ok, NotSet, NoMemory}"
    using step keep2(3) by (auto simp: ok_def split: if_splits)
qed


lemma storage_get_spec:
  assumes inv: "storage_inv se" and op: "storage_get se now k = (res, se')"
  shows "keeps se se'" and "res = map_option fst (view se now k)"
    and "lookup se' = (case lookup se k of None \<Rightarrow> lookup se
      | Some e \<Rightarrow> (lookup se)(k := if expired e now then None else Some (e\<lparr>e_last_access := now\<rparr>)))"
proof -
  have "keeps se se' \<and> res = map_option fst (view se now k) \<and>
    lookup se' = (case lookup se k of None \<Rightarrow> lookup se
      | Some e \<Rightarrow> (lookup se)(k := if expired e now then None else Some (e\<lparr>e_last_access := now\<rparr>)))"
  proof (cases "lookup se k")
    case (Some e)
    with op inv erase_spec [OF inv Some] put_spec [OF inv Some, of "e\<lparr>e_last_access := now\<rparr>"]
    show ?thesis by (auto simp: storage_get_def find_shard view_def split: if_splits)
  qed (use op inv in \<open>auto simp: storage_get_def find_shard view_def\<close>)
  then show "keeps se se'" "res = map_option fst (view se now k)"
    "lookup se' = (case lookup se k of None \<Rightarrow> lookup se
      | Some e \<Rightarrow> (lookup se)(k := if expired e now then None else Some (e\<lparr>e_last_access := now\<rparr>)))"
    by blast+
qed

lemma storage_del_spec:
  assumes inv: "storage_inv se" and op: "storage_del se now k = (n, se')"
  shows "keeps se se'" and "n = (if view se now k = None then 0 else 1)"
    and "lookup se' = (lookup se)(k := None)"
proof -
  have "keeps se se' \<and> n = (if view se now k = None then 0 else 1) \<and> lookup se' = (lookup se)(k := None)"
  proof (cases "lookup se k")
    case (Some e)
    with op inv erase_spec [OF inv Some] show ?thesis
      by (auto simp: storage_del_def find_shard view_def split: if_splits)
  qed (use op inv in \<open>auto simp: storage_del_def find_shard view_def fun_eq_iff\<close>)
  then show "keeps se se'" "n = (if view se now k = None then 0 else 1)"
    "lookup se' = (lookup se)(k := None)"
    by blast+
qed

lemma storage_expire_at_spec:
  assumes inv: "storage_inv se" and op: "storage_expire_at se now k t = (res, se')"
  shows "keeps se se'" and "res \<longleftrightarrow> view se now k \<noteq> None"
    and "lookup se' = (case lookup se k of None \<Rightarrow> lookup se
      | Some e \<Rightarrow> (lookup se)(k := if expired e now \<or> t \<le> now then None
          else Some (e\<lparr>e_expiry := Some t, e_version := e_version e + 1\<rparr>)))"
proof -
  have "keeps se se' \<and> (res \<longleftrightarrow> view se now k \<noteq> None) \<and>
    lookup se' = (case lookup se k of None \<Rightarrow> lookup se
      | Some e \<Rightarrow> (lookup se)(k := if expired e now \<or> t \<le> now then None
          else Some (e\<lparr>e_expiry := Some t, e_version := e_version e + 1\<rparr>)))"
  proof (cases "lookup se k")
    case (Some e)
    with op inv erase_spec [OF inv Some]
      put_spec [OF inv Some, of "e\<lparr>e_expiry := Some t, e_version := e_version e + 1\<rparr>"]
    show ?thesis by (auto simp: storage_expire_at_def find_shard view_def split: if_splits)
  qed (use op inv in \<open>auto simp: storage_expire_at_def find_shard view_def\<close>)
  then show "keeps se se'" "res \<longleftrightarrow> view se now k \<noteq> None"
    "lookup se' = (case lookup se k of None \<Rightarrow> lookup se
      | Some e \<Rightarrow> (lookup se)(k := if expired e now \<or> t \<le> now then None
          else Some (e\<lparr>e_expiry := Some t, e_version := e_version e + 1\<rparr>)))"
    by blast+
qed

lemma storage_ttl_spec:
  assumes inv: "storage_inv se" and op: "storage_ttl se now k = (res, se')"
  shows "keeps se se'" and "lookup se' = evict now k (lookup se)"
    and "res = (case view se now k of
        None \<Rightarrow> \<lparr>tr_state = Missing, tr_milliseconds = 0\<rparr>
      | Some (v, None) \<Rightarrow> \<lparr>tr_state = NoExpiry, tr_milliseconds = 0\<rparr>
      | Some (v, Some t) \<Rightarrow>
          \<lparr>tr_state = HasExpiry, tr_milliseconds = max 0 (wrap64 (t - now) sdiv ticks_per_ms)\<rparr>)"
proof -
  have "keeps se se' \<and> lookup se' = evict now k (lookup se) \<and>
    res = (case view se now k of
        None \<Rightarrow> \<lparr>tr_state = Missing, tr_milliseconds = 0\<rparr>
      | Some (v, None) \<Rightarrow> \<lparr>tr_state = NoExpiry, tr_milliseconds = 0\<rparr>
      | Some (v, Some t) \<Rightarrow>
          \<lparr>tr_state = HasExpiry, tr_milliseconds = max 0 (wrap64 (t - now) sdiv ticks_per_ms)\<rparr>)"
  proof (cases "lookup se k")
    case (Some e)
    with op inv erase_spec [OF inv Some] show ?thesis
      by (auto simp: storage_ttl_def find_shard view_def evict_def split: if_splits option.splits)
  qed (use op inv in \<open>auto simp: storage_ttl_def find_shard view_def evict_def fun_eq_iff\<close>)
  then show "keeps se se'" "lookup se' = evict now k (lookup se)"
    "res = (case view se now k of
        None \<Rightarrow> \<lparr>tr_state = Missing, tr_milliseconds = 0\<rparr>
      | Some (v, None) \<Rightarrow> \<lparr>tr_state = NoExpiry, tr_milliseconds = 0\<rparr>
      | Some (v, Some t) \<Rightarrow>
          \<lparr>tr_state = HasExpiry, tr_milliseconds = max 0 (wrap64 (t - now) sdiv ticks_per_ms)\<rparr>)"
    by blast+
qed

lemma storage_persist_spec:
  assumes inv: "storage_inv se" and op: "storage_persist se now k = (res, se')"
  shows "keeps se se'" and "res \<longleftrightarrow> (\<exists>v t. view se now k = Some (v, Some t))"
    and "lookup se' = (case lookup se k of None \<Rightarrow> lookup se
      | Some e \<Rightarrow> (lookup se)(k := if expired e now then None
          else if e_expiry e = None then Some e
          else Some (e\<lparr>e_expiry := None, e_version := e_version e + 1\<rparr>)))"
proof -
  have "keeps se se' \<and> (res \<longleftrightarrow> (\<exists>v t. view se now k = Some (v, Some t))) \<and>
    lookup se' = (case lookup se k of None \<Rightarrow> lookup se
      | Some e \<Rightarrow> (lookup se)(k := if expired e now then None
          else if e_expiry e = None then Some e
          else Some (e\<lparr>e_expiry := None, e_version := e_version e + 1\<rparr>)))"
  proof (cases "lookup se k")
    case (Some e)
    with op inv erase_spec [OF inv Some]
      put_spec [OF inv Some, of "e\<lparr>e_expiry := None, e_version := e_version e + 1\<rparr>"]
    show ?thesis
      by (auto simp: storage_persist_def find_shard view_def fun_upd_idem split: if_splits)
  qed (use op inv in \<open>auto simp: storage_persist_def find_shard view_def\<close>)
  then show "keeps se se'" "res \<longleftrightarrow> (\<exists>v t. view se now k = Some (v, Some t))"
    "lookup se' = (case lookup se k of None \<Rightarrow> lookup se
      | Some e \<Rightarrow> (lookup se)(k := if expired e now then None
          else if e_expiry e = None then Some e
          else Some (e\<lparr>e_expiry := None, e_version := e_version e + 1\<rparr>)))"
    by blast+
qed


text \<open>
  The write at the end of \<open>incr_by\<close> and \<open>append\<close>, seen from the engine before the eviction.
\<close>

lemma live_write_spec:
  assumes inv: "storage_inv se" and valid: "key_valid se k" "value_valid se v"
    and fl: "find_live se (shard_for_key se k) k now = (it, se1)"
    and w: "write_entry se1 (shard_for_key se k) k it v exp now = (c, se2)"
  shows "keeps se se2" and "c \<in> {Ok, NoMemory}"
    and "c = Ok \<Longrightarrow> lookup se2 = (lookup se)(k \<mapsto> written_entry it v exp now)"
    and "c \<noteq> Ok \<Longrightarrow> lookup se2 = evict now k (lookup se)"
proof -
  note live = find_live_spec [OF inv fl]
  note params = keepsD(2) [OF live(1)]
  have w': "write_entry se1 (shard_for_key se1 k) k (lookup se1 k) v exp now = (c, se2)"
    using w by (simp add: same_params_shard_for_key [OF params] live(3))
  note wspec = write_spec [OF keepsD(1) [OF live(1)] _ _ w']
  show "keeps se se2" "c \<in> {Ok, NoMemory}" "c \<noteq> Ok \<Longrightarrow> lookup se2 = evict now k (lookup se)"
    using wspec valid keeps_trans [OF live(1)] live(2) by (auto simp: same_params_valid [OF params])
  show "c = Ok \<Longrightarrow> lookup se2 = (lookup se)(k \<mapsto> written_entry it v exp now)"
    using wspec(3) valid by (auto simp: same_params_valid [OF params] live(2,3) evict_def)
qed

text \<open>The number \<open>incr_by\<close> starts from: 0 for a missing key, \<open>None\<close> if the value is no integer.\<close>

definition counter_value :: "(string \<times> time_point option) option \<Rightarrow> int option" where
  "counter_value seen = (case seen of None \<Rightarrow> Some 0 | Some (v, _) \<Rightarrow> parse_integer_value v)"

lemma parse_integer_value_range: "parse_integer_value v = Some c \<Longrightarrow> in_i64 c"
  using parse_i64_range
  by (auto simp: parse_integer_value_def from_chars_i64_def in_i64_def Let_def split: if_splits prod.splits)

lemma incr_guard:
  assumes "in_i64 delta" and "in_i64 current"
  shows "((delta > 0 \<and> current > wrap64 (i64_max - delta)) \<or> (delta < 0 \<and> current < wrap64 (i64_min - delta)))
    \<longleftrightarrow> \<not> in_i64 (current + delta)"
proof -
  have "delta > 0 \<Longrightarrow> wrap64 (i64_max - delta) = i64_max - delta"
    "delta < 0 \<Longrightarrow> wrap64 (i64_min - delta) = i64_min - delta"
    using assms by (auto intro!: wrap64_id simp: in_i64_def i64_bounds)
  then show ?thesis using assms by (auto simp: in_i64_def)
qed

lemma counter_value_range: "counter_value seen = Some c \<Longrightarrow> in_i64 c"
  using parse_integer_value_range
  by (auto simp: counter_value_def in_i64_def i64_bounds split: option.splits prod.splits)

lemma storage_incr_by_step:
  assumes inv: "storage_inv se" and delta: "in_i64 delta"
    and fl: "find_live se (shard_for_key se k) k now = (it, se1)"
  shows "storage_incr_by se now k delta =
    (if \<not> key_valid se k then (\<lparr>wr_code = KeyTooLarge, wr_integer = 0\<rparr>, se)
     else case counter_value (view se now k) of
       None \<Rightarrow> (\<lparr>wr_code = InvalidInteger, wr_integer = 0\<rparr>, se1)
     | Some c \<Rightarrow>
         if \<not> in_i64 (c + delta) then (\<lparr>wr_code = Overflow, wr_integer = 0\<rparr>, se1)
         else if \<not> value_valid se (int_to_string (c + delta)) then
           (\<lparr>wr_code = ValueTooLarge, wr_integer = 0\<rparr>, se1)
         else (case write_entry se1 (shard_for_key se k) k it (int_to_string (c + delta)) None now of
             (wcode, se2) \<Rightarrow>
               (\<lparr>wr_code = wcode, wr_integer = (if wcode = Ok then c + delta else 0)\<rparr>, se2)))"
proof -
  note live = find_live_spec [OF inv fl]
  have cv: "(case it of None \<Rightarrow> Some 0 | Some e \<Rightarrow> parse_integer_value (e_value e)) = counter_value (view se now k)"
    using inv fl
    by (cases rule: find_live_cases) (simp_all add: counter_value_def view_def)
  show ?thesis
  proof (cases "counter_value (view se now k)")
    case (Some c)
    show ?thesis
      using incr_guard [OF delta counter_value_range [OF Some]]
      by (simp add: storage_incr_by_def fl cv Some same_params_valid [OF keepsD(2) [OF live(1)]] Let_def)
  qed (simp add: storage_incr_by_def fl cv)
qed

lemma storage_incr_by_spec:
  assumes inv: "storage_inv se" and delta: "in_i64 delta" and op: "storage_incr_by se now k delta = (res, se')"
  shows "keeps se se'"
    and "\<not> key_valid se k \<Longrightarrow> wr_code res = KeyTooLarge \<and> se' = se"
    and "key_valid se k \<Longrightarrow> wr_code res = InvalidInteger \<longleftrightarrow> counter_value (view se now k) = None"
    and "key_valid se k \<Longrightarrow>
      wr_code res = Overflow \<longleftrightarrow> (\<exists>c. counter_value (view se now k) = Some c \<and> \<not> in_i64 (c + delta))"
    and "wr_code res \<noteq> Ok \<Longrightarrow> lookup se' = lookup se \<or> lookup se' = evict now k (lookup se)"
    and "wr_code res = Ok \<Longrightarrow> \<exists>c old. counter_value (view se now k) = Some c \<and> in_i64 (c + delta)
      \<and> wr_integer res = c + delta
      \<and> lookup se' = (lookup se)(k \<mapsto> written_entry old (int_to_string (c + delta)) None now)"
    and "key_valid se k \<Longrightarrow> wr_code res \<notin> {NotSet, KeyTooLarge}"
proof -
  obtain it se1 where fl: "find_live se (shard_for_key se k) k now = (it, se1)" by fastforce
  note live = find_live_spec [OF inv fl] and step = op [unfolded storage_incr_by_step [OF inv delta fl]]
  note wspec = live_write_spec [OF inv _ _ fl]
  have "keeps se se' \<and> (\<not> key_valid se k \<longrightarrow> wr_code res = KeyTooLarge \<and> se' = se)
    \<and> (key_valid se k \<longrightarrow> (wr_code res = InvalidInteger \<longleftrightarrow> counter_value (view se now k) = None))
    \<and> (key_valid se k \<longrightarrow> (wr_code res = Overflow \<longleftrightarrow>
          (\<exists>c. counter_value (view se now k) = Some c \<and> \<not> in_i64 (c + delta))))
    \<and> (wr_code res \<noteq> Ok \<longrightarrow> lookup se' = lookup se \<or> lookup se' = evict now k (lookup se))
    \<and> (wr_code res = Ok \<longrightarrow> (\<exists>c old. counter_value (view se now k) = Some c \<and> in_i64 (c + delta)
      \<and> wr_integer res = c + delta
      \<and> lookup se' = (lookup se)(k \<mapsto> written_entry old (int_to_string (c + delta)) None now)))
    \<and> (key_valid se k \<longrightarrow> wr_code res \<notin> {NotSet, KeyTooLarge})"
  proof (cases "counter_value (view se now k)")
    case (Some c)
    obtain wc se2 where w: "write_entry se1 (shard_for_key se k) k it (int_to_string (c + delta)) None now = (wc, se2)"
      by fastforce
    show ?thesis
      using step Some inv live(1,2) wspec [OF _ _ w] by (auto simp: w split: if_splits)
  qed (use step inv live(1,2) in \<open>auto split: if_splits\<close>)
  then show "keeps se se'"
    "\<not> key_valid se k \<Longrightarrow> wr_code res = KeyTooLarge \<and> se' = se"
    "key_valid se k \<Longrightarrow> wr_code res = InvalidInteger \<longleftrightarrow> counter_value (view se now k) = None"
    "key_valid se k \<Longrightarrow>
      wr_code res = Overflow \<longleftrightarrow> (\<exists>c. counter_value (view se now k) = Some c \<and> \<not> in_i64 (c + delta))"
    "wr_code res \<noteq> Ok \<Longrightarrow> lookup se' = lookup se \<or> lookup se' = evict now k (lookup se)"
    "wr_code res = Ok \<Longrightarrow> \<exists>c old. counter_value (view se now k) = Some c \<and> in_i64 (c + delta)
      \<and> wr_integer res = c + delta
      \<and> lookup se' = (lookup se)(k \<mapsto> written_entry old (int_to_string (c + delta)) None now)"
    "key_valid se k \<Longrightarrow> wr_code res \<notin> {NotSet, KeyTooLarge}"
    by blast+
qed

definition seen_value :: "(string \<times> time_point option) option \<Rightarrow> string" where
  "seen_value seen = (case seen of None \<Rightarrow> [] | Some (v, _) \<Rightarrow> v)"

lemma storage_append_spec:
  assumes inv: "storage_inv se" and op: "storage_append se now k suffix = (res, se')"
  defines "v \<equiv> seen_value (view se now k) @ suffix"
  shows "keeps se se'"
    and "\<not> key_valid se k \<Longrightarrow> wr_code res = KeyTooLarge \<and> se' = se"
    and "key_valid se k \<Longrightarrow> wr_code res = ValueTooLarge \<longleftrightarrow> \<not> value_valid se v"
    and "wr_code res \<noteq> Ok \<Longrightarrow> lookup se' = lookup se \<or> lookup se' = evict now k (lookup se)"
    and "wr_code res = Ok \<Longrightarrow> wr_integer res = int (length v)
      \<and> (\<exists>old. lookup se' = (lookup se)(k \<mapsto> written_entry old v None now))"
    and "key_valid se k \<Longrightarrow> value_valid se v \<Longrightarrow> wr_code res \<in> {Ok, NoMemory}"
proof -
  obtain it se1 where fl: "find_live se (shard_for_key se k) k now = (it, se1)" by fastforce
  note live = find_live_spec [OF inv fl]
  have sv: "(case it of None \<Rightarrow> [] | Some e \<Rightarrow> e_value e) @ suffix = v"
    using inv fl by (cases rule: find_live_cases) (simp_all add: v_def seen_value_def view_def)
  obtain wc se2 where w: "write_entry se1 (shard_for_key se k) k it v None now = (wc, se2)"
    by fastforce
  have step: "(res, se') = (if \<not> key_valid se k then (\<lparr>wr_code = KeyTooLarge, wr_integer = 0\<rparr>, se)
     else if \<not> value_valid se v then (\<lparr>wr_code = ValueTooLarge, wr_integer = 0\<rparr>, se1)
     else (\<lparr>wr_code = wc, wr_integer = (if wc = Ok then int (length v) else 0)\<rparr>, se2))"
    unfolding op [symmetric]
    by (simp add: storage_append_def fl sv Let_def w same_params_valid [OF keepsD(2) [OF live(1)]])
  note wspec = live_write_spec [OF inv _ _ fl w]
  show "keeps se se'"
    "\<not> key_valid se k \<Longrightarrow> wr_code res = KeyTooLarge \<and> se' = se"
    "key_valid se k \<Longrightarrow> wr_code res = ValueTooLarge \<longleftrightarrow> \<not> value_valid se v"
    "wr_code res \<noteq> Ok \<Longrightarrow> lookup se' = lookup se \<or> lookup se' = evict now k (lookup se)"
    "wr_code res = Ok \<Longrightarrow> wr_integer res = int (length v)
      \<and> (\<exists>old. lookup se' = (lookup se)(k \<mapsto> written_entry old v None now))"
    "key_valid se k \<Longrightarrow> value_valid se v \<Longrightarrow> wr_code res \<in> {Ok, NoMemory}"
    using step inv live(1,2) wspec by (auto split: if_splits)
qed

end
