(* ===== verification/Storage_Sweep.thy ===== *)
theory Storage_Sweep
  imports Storage_Ops
begin

text \<open>
  The operations of the storage engine that visit all shards: \<open>dbsize\<close>, \<open>expires_count\<close> and
  \<open>snapshot\<close> erase what has expired and see exactly the live entries; \<open>flushdb\<close> empties the
  engine; \<open>active_expire\<close> only ever erases expired entries, and erases all of them when the
  sample covers a shard.
\<close>

definition live :: "time_point \<Rightarrow> string \<times> Entry \<Rightarrow> bool" where
  "live now p \<longleftrightarrow> \<not> expired (snd p) now"

lemma live_simp [simp]: "live now (k, e) \<longleftrightarrow> \<not> expired e now"
  by (simp add: live_def)

definition live_entries :: "StorageEngine \<Rightarrow> time_point \<Rightarrow> (string \<times> Entry) list" where
  "live_entries se now = concat (map (\<lambda>s. filter (live now) (s_map s)) (se_shards se))"

text \<open>The contents after every expired entry is gone.\<close>

definition evict_all :: "time_point \<Rightarrow> (string \<rightharpoonup> Entry) \<Rightarrow> (string \<rightharpoonup> Entry)" where
  "evict_all now m = (\<lambda>k. if visible now (m k) = None then None else m k)"

lemma shard_distinct:
  "storage_inv se \<Longrightarrow> i < length (se_shards se) \<Longrightarrow> distinct (map fst (s_map (se_shards se ! i)))"
  using storage_inv_shard by (auto simp: shard_wf_def)

lemma shard_member:
  assumes "storage_inv se" and "i < length (se_shards se)"
  shows "(k, e) \<in> set (s_map (se_shards se ! i)) \<longleftrightarrow> shard_for_key se k = i \<and> lookup se k = Some e"
proof
  assume mem: "(k, e) \<in> set (s_map (se_shards se ! i))"
  then have "shard_find se i k = Some e"
    using shard_distinct [OF assms] by (simp add: shard_find_def)
  with shard_find_wf(1) [OF assms this] show "shard_for_key se k = i \<and> lookup se k = Some e"
    by (simp add: lookup_def)
next
  assume "shard_for_key se k = i \<and> lookup se k = Some e"
  then show "(k, e) \<in> set (s_map (se_shards se ! i))"
    by (auto simp: lookup_alt dest: map_of_SomeD)
qed

lemma delete_filter: "AList.delete k al = filter (\<lambda>p. fst p \<noteq> k) al"
  by (induction al) auto

lemma expired_erase_spec:
  assumes inv: "storage_inv se" and i: "i < length (se_shards se)"
    and mem: "(k, e) \<in> set (s_map (se_shards se ! i))"
  defines "se' \<equiv> erase_entry_locked se i k e"
  shows "keeps se se'" and "keeps se (count_expired se' n)"
    and "s_map (se_shards se' ! i) = filter (\<lambda>p. fst p \<noteq> k) (s_map (se_shards se ! i))"
    and "j \<noteq> i \<Longrightarrow> se_shards se' ! j = se_shards se ! j"
proof -
  have "shard_find se i k = Some e"
    using mem shard_distinct [OF inv i] by (simp add: shard_find_def)
  from storage_inv_erase [OF inv i this] show "keeps se se'" "keeps se (count_expired se' n)"
    by (auto simp: se'_def)
  show "s_map (se_shards se' ! i) = filter (\<lambda>p. fst p \<noteq> k) (s_map (se_shards se ! i))"
    "j \<noteq> i \<Longrightarrow> se_shards se' ! j = se_shards se ! j"
    using i by (simp_all add: se'_def erase_entry_locked_fields delete_filter)
qed

lemma shards_count_expired [simp]: "se_shards (count_expired se n) = se_shards se"
  by (simp add: count_expired_def)

lemma sweep_entries_spec:
  assumes "storage_inv se" and "i < length (se_shards se)"
    and "set es \<subseteq> set (s_map (se_shards se ! i))" and "distinct (map fst es)"
    and "sweep_entries visit i now es acc se = (acc', se')"
  shows "keeps se se' \<and> acc' = fold (\<lambda>(k, e). visit k e) (filter (live now) es) acc
    \<and> s_map (se_shards se' ! i) = filter (\<lambda>p. p \<in> set es \<longrightarrow> live now p) (s_map (se_shards se ! i))
    \<and> (\<forall>j. j \<noteq> i \<longrightarrow> se_shards se' ! j = se_shards se ! j)"
  using assms
proof (induction visit i now es acc se rule: sweep_entries.induct)
  case (2 visit i now k e es acc se)
  show ?case
  proof (cases "expired e now")
    case True
    let ?se1 = "count_expired (erase_entry_locked se i k e) 1"
    have mem: "(k, e) \<in> set (s_map (se_shards se ! i))" using 2(5) by simp
    note er = expired_erase_spec [OF 2(3,4) mem]
    have keep1: "keeps se ?se1" by (rule er(2))
    have i1: "i < length (se_shards ?se1)"
      using keepsD(2) [OF keep1] 2(4) by (simp add: same_params_def)
    have sub: "set es \<subseteq> set (s_map (se_shards ?se1 ! i))"
      using 2(5,6) er(3) by (auto simp: image_iff)
    have "keeps ?se1 se' \<and> acc' = fold (\<lambda>(k, e). visit k e) (filter (live now) es) acc
      \<and> s_map (se_shards se' ! i) = filter (\<lambda>p. p \<in> set es \<longrightarrow> live now p) (s_map (se_shards ?se1 ! i))
      \<and> (\<forall>j. j \<noteq> i \<longrightarrow> se_shards se' ! j = se_shards ?se1 ! j)"
      using 2(1) [OF True keepsD(1) [OF keep1] i1 sub] 2(6,7) True by simp
    moreover have "filter (\<lambda>p. p \<in> set es \<longrightarrow> live now p) (filter (\<lambda>p. fst p \<noteq> k) (s_map (se_shards se ! i)))
      = filter (\<lambda>p. p \<in> set ((k, e) # es) \<longrightarrow> live now p) (s_map (se_shards se ! i))"
    proof -
      have "(fst p \<noteq> k \<and> (p \<in> set es \<longrightarrow> live now p)) \<longleftrightarrow> (p \<in> set ((k, e) # es) \<longrightarrow> live now p)"
        if "p \<in> set (s_map (se_shards se ! i))" for p
      proof (cases "fst p = k")
        case True': True
        have "p = (k, e)"
          using that True' mem shard_distinct [OF 2(3,4)] by (metis map_of_is_SomeI option.inject prod.collapse)
        then show ?thesis using True by (simp add: live_def)
      qed auto
      then show ?thesis unfolding filter_filter by (intro filter_cong) blast+
    qed
    ultimately show ?thesis
      using keeps_trans [OF keep1] er(3,4) True by simp
  next
    case False
    have eq: "(\<lambda>p. p \<in> set ((k, e) # es) \<longrightarrow> live now p) = (\<lambda>p. p \<in> set es \<longrightarrow> live now p)"
      using False by (auto simp: fun_eq_iff)
    show ?thesis
      unfolding eq using 2(2) [OF False 2(3,4)] 2(5-7) False by simp
  qed
qed auto


text \<open>A sweep of one whole shard, then of all of them.\<close>

lemma sweep_shards_spec:
  assumes "storage_inv se" and "set is \<subseteq> {..<length (se_shards se)}" and "distinct is"
    and "sweep_shards visit now is acc se = (acc', se')"
  shows "keeps se se'
    \<and> acc' = fold (\<lambda>(k, e). visit k e) (concat (map (\<lambda>i. filter (live now) (s_map (se_shards se ! i))) is)) acc
    \<and> (\<forall>i. s_map (se_shards se' ! i) =
        (if i \<in> set is then filter (live now) (s_map (se_shards se ! i)) else s_map (se_shards se ! i)))"
  using assms
proof (induction visit now "is" acc se rule: sweep_shards.induct)
  case (2 visit now i "is" acc se)
  obtain acc1 se1 where sw: "sweep_entries visit i now (s_map (se_shards se ! i)) acc se = (acc1, se1)"
    by fastforce
  have i: "i < length (se_shards se)" using 2(3) by simp
  have one: "keeps se se1" "acc1 = fold (\<lambda>(k, e). visit k e) (filter (live now) (s_map (se_shards se ! i))) acc"
    "s_map (se_shards se1 ! i) = filter (live now) (s_map (se_shards se ! i))"
    "\<And>j. j \<noteq> i \<Longrightarrow> se_shards se1 ! j = se_shards se ! j"
    using sweep_entries_spec [OF 2(2) i subset_refl shard_distinct [OF 2(2) i] sw]
    by (auto intro: filter_cong)
  have rest: "set is \<subseteq> {..<length (se_shards se1)}"
    using 2(3) keepsD(2) [OF one(1)] by (auto simp: same_params_def)
  have "keeps se1 se'
    \<and> acc' = fold (\<lambda>(k, e). visit k e) (concat (map (\<lambda>i. filter (live now) (s_map (se_shards se1 ! i))) is)) acc1
    \<and> (\<forall>i. s_map (se_shards se' ! i) =
        (if i \<in> set is then filter (live now) (s_map (se_shards se1 ! i)) else s_map (se_shards se1 ! i)))"
    using 2(1) [OF sw [symmetric] keepsD(1) [OF one(1)] rest] 2(4,5) by (simp add: sw)
  moreover have "map (\<lambda>i. filter (live now) (s_map (se_shards se1 ! i))) is
      = map (\<lambda>i. filter (live now) (s_map (se_shards se ! i))) is"
    using one(4) 2(4) by (intro map_cong refl) (metis distinct.simps(2))
  ultimately show ?case
    using keeps_trans [OF one(1)] one(2-4) 2(4) by auto
qed simp

lemma map_se_shards: "map (\<lambda>i. f (se_shards se ! i)) [0..<length (se_shards se)] = map f (se_shards se)"
  by (auto intro: nth_equalityI)

lemma lookup_shard_filter:
  assumes inv: "storage_inv se" and params: "same_params se se'"
    and maps: "\<And>i. i < length (se_shards se) \<Longrightarrow> s_map (se_shards se' ! i) = filter (live now) (s_map (se_shards se ! i))"
  shows "lookup se' = evict_all now (lookup se)"
proof
  fix k
  have i: "shard_for_key se k < length (se_shards se)" using inv by simp
  show "lookup se' k = evict_all now (lookup se) k"
    using map_of_filter_distinct [OF shard_distinct [OF inv i], of "live now" k]
    by (simp add: lookup_alt same_params_shard_for_key [OF params] maps [OF i] evict_all_def live_def
        split: option.splits)
qed

lemma sweep_all_spec:
  assumes inv: "storage_inv se"
    and op: "sweep_shards visit now [0..<length (se_shards se)] acc se = (acc', se')"
  shows "keeps se se'" and "acc' = fold (\<lambda>(k, e). visit k e) (live_entries se now) acc"
    and "lookup se' = evict_all now (lookup se)"
proof -
  have sw: "keeps se se'"
    "acc' = fold (\<lambda>(k, e). visit k e)
       (concat (map (\<lambda>i. filter (live now) (s_map (se_shards se ! i))) [0..<length (se_shards se)])) acc"
    "i < length (se_shards se) \<Longrightarrow> s_map (se_shards se' ! i) = filter (live now) (s_map (se_shards se ! i))" for i
    using sweep_shards_spec [OF inv _ _ op] by (auto simp: lessThan_atLeast0)
  show "keeps se se'" by (rule sw(1))
  show "acc' = fold (\<lambda>(k, e). visit k e) (live_entries se now) acc"
    using sw(2) map_se_shards [of "\<lambda>s. filter (live now) (s_map s)" se] by (simp add: live_entries_def)
  show "lookup se' = evict_all now (lookup se)"
    by (rule lookup_shard_filter [OF inv keepsD(2) [OF sw(1)] sw(3)])
qed

lemma live_entries_member:
  assumes inv: "storage_inv se"
  shows "(k, e) \<in> set (live_entries se now) \<longleftrightarrow> lookup se k = Some e \<and> \<not> expired e now"
proof -
  have "(k, e) \<in> set (live_entries se now) \<longleftrightarrow>
      (\<exists>i < length (se_shards se). (k, e) \<in> set (s_map (se_shards se ! i)) \<and> \<not> expired e now)"
    by (fastforce simp: live_entries_def live_def in_set_conv_nth)
  also have "\<dots> \<longleftrightarrow> lookup se k = Some e \<and> \<not> expired e now"
    using shard_member [OF inv] storage_inv_shard_for_key [OF inv] by blast
  finally show ?thesis .
qed

lemma live_entries_distinct:
  assumes inv: "storage_inv se"
  shows "distinct (map fst (live_entries se now))"
proof -
  define ks where "ks i = map fst (filter (live now) (s_map (se_shards se ! i)))" for i
  have dist: "distinct (ks i)" if "i < length (se_shards se)" for i
    unfolding ks_def using shard_distinct [OF inv that] by (rule distinct_fst_filter)
  have home: "shard_for_key se k = i" if "k \<in> set (ks i)" "i < length (se_shards se)" for k i
    using that shard_member [OF inv that(2)] by (auto simp: ks_def)
  have "distinct (concat (map ks is))"
    if "distinct is" "set is \<subseteq> {..<length (se_shards se)}" for "is"
    using that
  proof (induction "is")
    case (Cons i "is")
    then have "set (ks i) \<inter> set (ks j) = {}" if "j \<in> set is" for j
      using that home [of _ i] home [of _ j] by (auto simp: disjoint_iff)
    then have "set (ks i) \<inter> set (concat (map ks is)) = {}" by auto
    with Cons dist [of i] show ?case by simp
  qed simp
  from this [of "[0..<length (se_shards se)]"] show ?thesis
    using map_se_shards [of "\<lambda>s. map fst (filter (live now) (s_map s))" se]
    by (simp add: live_entries_def map_concat comp_def lessThan_atLeast0 ks_def [abs_def])
qed


section \<open>Counting, snapshot and flush\<close>

lemma fold_count: "fold (\<lambda>(k, e) n. n + 1) xs n = n + length xs" for n :: nat
  by (induction xs arbitrary: n) auto

lemma fold_count_if:
  "fold (\<lambda>(k, e) n. if P e then n + 1 else n) xs n = n + length (filter (\<lambda>(k, e). P e) xs)" for n :: nat
  by (induction xs arbitrary: n) auto

lemma fold_collect: "fold (\<lambda>(k, e) acc. acc @ [f k e]) xs acc = acc @ map (\<lambda>(k, e). f k e) xs"
  by (induction xs arbitrary: acc) auto

lemma live_entries_key:
  assumes inv: "storage_inv se"
  shows "k \<in> set (map fst (filter P (live_entries se now)))
    \<longleftrightarrow> (\<exists>e. lookup se k = Some e \<and> \<not> expired e now \<and> P (k, e))"
proof -
  have "k \<in> set (map fst (filter P (live_entries se now)))
      \<longleftrightarrow> (\<exists>e. (k, e) \<in> set (live_entries se now) \<and> P (k, e))"
    by (auto intro: rev_image_eqI)
  then show ?thesis by (auto simp: live_entries_member [OF inv])
qed

lemma live_entries_keys:
  "storage_inv se \<Longrightarrow> set (map fst (live_entries se now)) = dom (view se now)"
  unfolding set_eq_iff using live_entries_key [of se _ "\<lambda>_. True" now]
  by (simp add: dom_def view_def visible_def split: option.splits)

lemma storage_dbsize_spec:
  assumes inv: "storage_inv se" and op: "storage_dbsize se now = (n, se')"
  shows "keeps se se'" and "lookup se' = evict_all now (lookup se)" and "n = card (dom (view se now))"
proof -
  note sw = sweep_all_spec [OF inv op [unfolded storage_dbsize_def]]
  show "keeps se se'" "lookup se' = evict_all now (lookup se)" by (rule sw)+
  have "n = length (live_entries se now)"
    using sw(2) fold_count [of "live_entries se now" 0] by simp
  also have "\<dots> = card (set (map fst (live_entries se now)))"
    using distinct_card [OF live_entries_distinct [OF inv, of now]] by simp
  finally show "n = card (dom (view se now))" using live_entries_keys [OF inv] by simp
qed

lemma storage_expires_count_spec:
  assumes inv: "storage_inv se" and op: "storage_expires_count se now = (n, se')"
  shows "keeps se se'" and "lookup se' = evict_all now (lookup se)"
    and "n = card {k. \<exists>v t. view se now k = Some (v, Some t)}"
proof -
  note sw = sweep_all_spec [OF inv op [unfolded storage_expires_count_def]]
  show "keeps se se'" "lookup se' = evict_all now (lookup se)" by (rule sw)+
  let ?xs = "filter (\<lambda>(k, e). e_expiry e \<noteq> None) (live_entries se now)"
  have "n = length ?xs"
    using sw(2) fold_count_if [of "\<lambda>e. e_expiry e \<noteq> None" "live_entries se now" 0] by simp
  also have "\<dots> = card (set (map fst ?xs))"
    using distinct_card [OF distinct_fst_filter [OF live_entries_distinct [OF inv, of now]]]
    by (simp only: length_map)
  also have "set (map fst ?xs) = {k. \<exists>v t. view se now k = Some (v, Some t)}"
    unfolding set_eq_iff live_entries_key [OF inv] mem_Collect_eq view_def visible_Some
    by (metis (mono_tags, lifting) case_prod_conv not_None_eq)
  finally show "n = card {k. \<exists>v t. view se now k = Some (v, Some t)}" .
qed

lemma storage_snapshot_spec:
  assumes inv: "storage_inv se" and op: "storage_snapshot se now = (entries, se')"
  shows "keeps se se'" and "lookup se' = evict_all now (lookup se)"
    and "entries = map (\<lambda>(k, e). snapshot_entry k e) (live_entries se now)"
proof -
  note sw = sweep_all_spec [OF inv op [unfolded storage_snapshot_def]]
  show "keeps se se'" "lookup se' = evict_all now (lookup se)" by (rule sw)+
  show "entries = map (\<lambda>(k, e). snapshot_entry k e) (live_entries se now)"
    using sw(2) fold_collect [of snapshot_entry "live_entries se now" "[]"] by simp
qed

lemma storage_flushdb_spec:
  assumes inv: "storage_inv se"
  shows "keeps se (storage_flushdb se)" and "lookup (storage_flushdb se) = Map.empty"
    and "se_used_memory (storage_flushdb se) = 0"
proof -
  let ?clear = "\<lambda>s. s\<lparr>s_memory_bytes := 0, s_map := []\<rparr>"
  have used: "se_used_memory se - total_memory se = 0"
    using inv by (auto simp: storage_inv_def memory_ok_def split: if_splits)
  have fields: "se_shards (storage_flushdb se) = map ?clear (se_shards se)"
    "se_used_memory (storage_flushdb se) = 0" "same_params se (storage_flushdb se)"
    using used by (simp_all add: storage_flushdb_def release_memory_alt total_memory_def same_params_def)
  show "se_used_memory (storage_flushdb se) = 0" by (rule fields)
  show "lookup (storage_flushdb se) = Map.empty"
    using inv by (auto simp: lookup_alt fields(1) same_params_shard_for_key [OF fields(3)])
  have "total_memory (storage_flushdb se) = 0"
    by (simp add: total_memory_def fields(1) comp_def sum_list_0)
  with fields inv show "keeps se (storage_flushdb se)"
    by (auto simp: keeps_def storage_inv_def same_params_def shard_wf_def map_memory_def memory_ok_def)
qed


section \<open>Active expiration\<close>

text \<open>
  The iterator walks the map in a circle.  Read from the iterator on, the map is a list whose
  head is examined next: an expired head is dropped, a live one goes to the back.
\<close>

definition circle :: "nat \<Rightarrow> 'a list \<Rightarrow> 'a list" where
  "circle it xs = drop it xs @ take it xs"

lemma circle_simps [simp]:
  "length (circle it xs) = length xs" "set (circle it xs) = set xs" "circle 0 xs = xs"
  by (auto simp: circle_def min_def set_append [symmetric] simp del: set_append)
    (metis append_take_drop_id set_append sup_commute)+

lemma circle_distinct: "distinct xs \<Longrightarrow> distinct (circle it xs)"
  by (rule card_distinct) (simp add: distinct_card)

lemma circle_hd: "it < length xs \<Longrightarrow> circle it xs = xs ! it # (drop (Suc it) xs @ take it xs)"
  by (simp add: circle_def Cons_nth_drop_Suc [symmetric])

lemma circle_tl: "it < length xs \<Longrightarrow> tl (circle it xs) = drop (Suc it) xs @ take it xs"
  by (simp add: circle_hd)

lemma circle_keep:
  assumes "it < length xs"
  shows "circle (if it + 1 = length xs then 0 else it + 1) xs = tl (circle it xs) @ [xs ! it]"
proof -
  have "take it xs @ [xs ! it] = take (Suc it) xs" using assms by (simp add: take_Suc_conv_app_nth)
  with assms show ?thesis by (simp add: circle_tl) (simp add: circle_def)
qed

lemma delete_nth:
  assumes "distinct (map fst al)" and "it < length al"
  shows "AList.delete (fst (al ! it)) al = take it al @ drop (Suc it) al"
  using assms
proof (induction al arbitrary: it)
  case (Cons p al)
  show ?case
  proof (cases it)
    case 0
    with Cons.prems show ?thesis by (cases p) (auto intro!: delete_absent simp: map_of_eq_None_iff)
  next
    case (Suc j)
    with Cons have "fst p \<noteq> fst (al ! j)" by auto
    with Suc Cons show ?thesis by (cases p) auto
  qed
qed simp

lemma circle_drop:
  assumes "it < length xs" and "ys = take it xs @ drop (Suc it) xs"
  shows "circle (if it = length ys then 0 else it) ys = tl (circle it xs)"
  unfolding circle_tl [OF assms(1)] using assms by (auto simp: circle_def min_def)

lemma active_expire_loop_spec:
  assumes "storage_inv se" and "i < length (se_shards se)"
    and "todo \<le> length (s_map (se_shards se ! i))"
    and "it < length (s_map (se_shards se ! i)) \<or> todo = 0"
    and "active_expire_loop i now todo it sampled n se = (n', sampled', se')"
    and "c = circle it (s_map (se_shards se ! i))"
  shows "keeps se se' \<and> sampled' = sampled + todo
    \<and> n' = n + length (filter (\<lambda>p. \<not> live now p) (take todo c))
    \<and> (\<exists>it'. circle it' (s_map (se_shards se' ! i)) = drop todo c @ filter (live now) (take todo c))
    \<and> (\<forall>j. j \<noteq> i \<longrightarrow> se_shards se' ! j = se_shards se ! j)"
  using assms
proof (induction todo arbitrary: it sampled n se c)
  case (Suc todo)
  note 2 = Suc.IH Suc.prems
  let ?m = "s_map (se_shards se ! i)"
  have it: "it < length ?m" using 2(5) by simp
  obtain k e where p: "?m ! it = (k, e)" by fastforce
  have mem: "(k, e) \<in> set ?m" using it p nth_mem by metis
  define se1 where "se1 = (if expired e now then erase_entry_locked se i k e else se)"
  let ?m1 = "s_map (se_shards se1 ! i)"
  define it1 where "it1 = (let j = (if expired e now then it else it + 1) in if j = length ?m1 then 0 else j)"
  have dist: "distinct (map fst ?m)" by (rule shard_distinct [OF 2(2,3)])
  have m1: "?m1 = (if expired e now then take it ?m @ drop (Suc it) ?m else ?m)"
    using delete_nth [OF dist it] p 2(3) by (simp add: se1_def erase_entry_locked_fields)
  have keep1: "keeps se se1" and other: "\<And>j. j \<noteq> i \<Longrightarrow> se_shards se1 ! j = se_shards se ! j"
    using expired_erase_spec [OF 2(2,3) mem] 2(2) by (auto simp: se1_def)
  have c1: "circle it1 ?m1 = tl c @ (if expired e now then [] else [(k, e)])"
  proof (cases "expired e now")
    case True
    then show ?thesis using circle_drop [OF it, of ?m1] m1 2(7) by (simp add: it1_def)
  next
    case False
    then show ?thesis using circle_keep [OF it] m1 p 2(7) by (simp add: it1_def split: if_splits)
  qed
  have c: "c = (k, e) # tl c" using circle_hd [OF it] p 2(7) by simp
  have len1: "todo \<le> length ?m1" "it1 < length ?m1 \<or> todo = 0"
    using 2(4) it by (auto simp: m1 it1_def Let_def)
  have i1: "i < length (se_shards se1)" using keepsD(2) [OF keep1] 2(3) by (simp add: same_params_def)
  have step: "active_expire_loop i now todo it1 (sampled + 1) (if expired e now then n + 1 else n) se1 = (n', sampled', se')"
    using 2(6) it p by (cases ?m) (auto simp: se1_def it1_def Let_def)
  have todo: "todo \<le> length (tl c)" using 2(4,7) by simp
  have IH: "keeps se1 se' \<and> sampled' = sampled + 1 + todo
    \<and> n' = (if expired e now then n + 1 else n) + length (filter (\<lambda>p. \<not> live now p) (take todo (circle it1 ?m1)))
    \<and> (\<exists>it'. circle it' (s_map (se_shards se' ! i)) =
          drop todo (circle it1 ?m1) @ filter (live now) (take todo (circle it1 ?m1)))
    \<and> (\<forall>j. j \<noteq> i \<longrightarrow> se_shards se' ! j = se_shards se1 ! j)"
    by (rule 2(1) [OF keepsD(1) [OF keep1] i1 len1 step refl])
  have "take (Suc todo) c = (k, e) # take todo (tl c)" "drop (Suc todo) c = drop todo (tl c)"
    by (subst c, simp)+
  with IH todo keeps_trans [OF keep1] other show ?case
    by (auto simp: c1)
qed auto


text \<open>
  One shard of \<open>active_expire\<close>: only expired entries go, each is counted, and none is left when
  the sample covers the shard.
\<close>

lemma update_cursor:
  assumes "storage_inv se" and "i < length (se_shards se)"
  shows "keeps se (update_shard se i (\<lambda>s. s\<lparr>s_expire_cursor := f s\<rparr>))"
    and "s_map (se_shards (update_shard se i (\<lambda>s. s\<lparr>s_expire_cursor := f s\<rparr>)) ! j) = s_map (se_shards se ! j)"
proof -
  let ?se = "update_shard se i (\<lambda>s. s\<lparr>s_expire_cursor := f s\<rparr>)"
  have p: "same_params se ?se" by (simp add: update_shard_def same_params_def)
  have "storage_inv ?se"
    by (rule storage_inv_replace [OF assms(1) p assms(2), where s = "(se_shards se ! i)\<lparr>s_expire_cursor := f (se_shards se ! i)\<rparr>"])
      (use assms storage_inv_shard [OF assms] total_memory_ge [OF assms(2)] in
        \<open>auto simp: update_shard_def shard_wf_def storage_inv_def\<close>)
  with p show "keeps se ?se" by blast
  show "s_map (se_shards ?se ! j) = s_map (se_shards se ! j)"
    using assms(2) by (cases "j = i") (simp_all add: update_shard_def)
qed

lemma active_expire_shard_spec:
  assumes inv: "storage_inv se" and i: "i < length (se_shards se)"
    and op: "active_expire_shard i now sample se = (n, se')"
  defines "m \<equiv> s_map (se_shards se ! i)"
  shows "keeps se se'" and "j \<noteq> i \<Longrightarrow> s_map (se_shards se' ! j) = s_map (se_shards se ! j)"
    and "\<exists>gone. set (s_map (se_shards se' ! i)) = set m - gone \<and> gone \<subseteq> {p \<in> set m. \<not> live now p}
      \<and> n = card gone \<and> n \<le> sample \<and> (length m \<le> sample \<longrightarrow> gone = {p \<in> set m. \<not> live now p})"
proof -
  have "keeps se se' \<and> (\<forall>j. j \<noteq> i \<longrightarrow> s_map (se_shards se' ! j) = s_map (se_shards se ! j)) \<and>
    (\<exists>gone. set (s_map (se_shards se' ! i)) = set m - gone \<and> gone \<subseteq> {p \<in> set m. \<not> live now p}
      \<and> n = card gone \<and> n \<le> sample \<and> (length m \<le> sample \<longrightarrow> gone = {p \<in> set m. \<not> live now p}))"
  proof (cases "m = []")
    case True
    with op have "n = 0" "se' = update_shard se i (\<lambda>s. s\<lparr>s_expire_cursor := 0\<rparr>)"
      by (simp_all add: active_expire_shard_def m_def)
    with True show ?thesis
      using update_cursor [OF inv i, of "\<lambda>_. 0"] by (auto simp: m_def)
  next
    case False
    define cur where "cur = s_expire_cursor (se_shards se ! i) mod length m"
    define todo where "todo = min sample (length m)"
    obtain sampled se1 where loop: "active_expire_loop i now todo cur 0 0 se = (n, sampled, se1)"
      and se': "se' = update_shard se1 i (\<lambda>s. s\<lparr>s_expire_cursor :=
        (if s_map s = [] then 0 else (cur + sampled) mod length (s_map s))\<rparr>)"
      using op False unfolding active_expire_shard_def Let_def m_def [symmetric] cur_def [symmetric] todo_def [symmetric]
      by (auto split: prod.splits)
    define c where "c = circle cur m"
    have le: "todo \<le> length m" by (simp add: todo_def)
    have cur: "cur < length m \<or> todo = 0" using False by (simp add: cur_def)
    have sp: "keeps se se1" "n = length (filter (\<lambda>p. \<not> live now p) (take todo c))"
      "\<exists>it'. circle it' (s_map (se_shards se1 ! i)) = drop todo c @ filter (live now) (take todo c)"
      "\<And>j. j \<noteq> i \<Longrightarrow> se_shards se1 ! j = se_shards se ! j"
      using active_expire_loop_spec [OF inv i le [unfolded m_def] cur [unfolded m_def] loop c_def [unfolded m_def]]
      by simp_all
    have i1: "i < length (se_shards se1)" using keepsD(2) [OF sp(1)] i by (simp add: same_params_def)
    note up = update_cursor [OF keepsD(1) [OF sp(1)] i1, of
        "\<lambda>s. if s_map s = [] then 0 else (cur + sampled) mod length (s_map s)", folded se']
    define gone where "gone = set (filter (\<lambda>p. \<not> live now p) (take todo c))"
    have dc: "distinct c" "set c = set m"
      using distinct_map [of fst m] shard_distinct [OF inv i]
      by (simp_all add: c_def m_def circle_distinct)
    have m1: "set (s_map (se_shards se1 ! i)) = set (drop todo c) \<union> set (filter (live now) (take todo c))"
      using sp(3) circle_simps(2) set_append by metis
    have split_c: "set c = set (take todo c) \<union> set (drop todo c)" "set (take todo c) \<inter> set (drop todo c) = {}"
      using dc(1) by (metis append_take_drop_id set_append)
        (simp add: set_take_disj_set_drop_if_distinct dc(1))
    have "set (s_map (se_shards se1 ! i)) = set m - gone" "gone \<subseteq> {p \<in> set m. \<not> live now p}"
      using m1 split_c dc(2) by (auto simp: gone_def)
    moreover have "n = card gone" "n \<le> sample"
      using sp(2) dc(1) distinct_card [of "filter (\<lambda>p. \<not> live now p) (take todo c)"]
        length_filter_le [of "\<lambda>p. \<not> live now p" "take todo c"]
      by (auto simp: gone_def todo_def)
    moreover have "gone = {p \<in> set m. \<not> live now p}" if "length m \<le> sample"
      using that dc(2) by (auto simp: gone_def todo_def c_def)
    ultimately show ?thesis
      using keeps_trans [OF sp(1) up(1)] sp(4) unfolding up(2)
      by (intro conjI allI impI exI [of _ gone]) simp_all
  qed
  then show "keeps se se'" "j \<noteq> i \<Longrightarrow> s_map (se_shards se' ! j) = s_map (se_shards se ! j)"
    "\<exists>gone. set (s_map (se_shards se' ! i)) = set m - gone \<and> gone \<subseteq> {p \<in> set m. \<not> live now p}
      \<and> n = card gone \<and> n \<le> sample \<and> (length m \<le> sample \<longrightarrow> gone = {p \<in> set m. \<not> live now p})"
    by blast+
qed


definition shard_entries :: "StorageEngine \<Rightarrow> nat set \<Rightarrow> (string \<times> Entry) set" where
  "shard_entries se is = (\<Union>i\<in>is. set (s_map (se_shards se ! i)))"

lemma active_expire_shards_spec:
  assumes "storage_inv se" and "set is \<subseteq> {..<length (se_shards se)}" and "distinct is"
    and "active_expire_shards now sample is se = (n, se')"
  shows "keeps se se' \<and> (\<exists>gone \<subseteq> {p \<in> shard_entries se (set is). \<not> live now p}.
    (\<forall>j < length (se_shards se). set (s_map (se_shards se' ! j)) = set (s_map (se_shards se ! j)) - gone)
    \<and> n = card gone \<and> n \<le> sample * length is
    \<and> ((\<forall>j\<in>set is. length (s_map (se_shards se ! j)) \<le> sample)
        \<longrightarrow> gone = {p \<in> shard_entries se (set is). \<not> live now p}))"
  using assms
proof (induction "is" arbitrary: n se)
  case (Cons i "is")
  obtain n1 se1 where one: "active_expire_shard i now sample se = (n1, se1)" by fastforce
  obtain n2 where two: "active_expire_shards now sample is se1 = (n2, se')" and n: "n = n1 + n2"
    using Cons.prems(4) by (auto simp: one split: prod.splits)
  have i: "i < length (se_shards se)" using Cons.prems(2) by simp
  note sp = active_expire_shard_spec [OF Cons.prems(1) i one]
  obtain g1 where g1: "set (s_map (se_shards se1 ! i)) = set (s_map (se_shards se ! i)) - g1"
    "g1 \<subseteq> {p \<in> set (s_map (se_shards se ! i)). \<not> live now p}" "n1 = card g1" "n1 \<le> sample"
    "length (s_map (se_shards se ! i)) \<le> sample \<longrightarrow> g1 = {p \<in> set (s_map (se_shards se ! i)). \<not> live now p}"
    using sp(3) by blast
  have len: "length (se_shards se1) = length (se_shards se)"
    using keepsD(2) [OF sp(1)] by (simp add: same_params_def)
  have other: "s_map (se_shards se1 ! j) = s_map (se_shards se ! j)" if "j \<in> set is" for j
    using sp(2) [of j] Cons.prems(3) that by auto
  have ents: "shard_entries se1 (set is) = shard_entries se (set is)"
    using other by (simp add: shard_entries_def)
  obtain g2 where g2: "g2 \<subseteq> {p \<in> shard_entries se (set is). \<not> live now p}" "keeps se1 se'"
    "\<And>j. j < length (se_shards se) \<Longrightarrow> set (s_map (se_shards se' ! j)) = set (s_map (se_shards se1 ! j)) - g2"
    "n2 = card g2" "n2 \<le> sample * length is"
    "(\<forall>j\<in>set is. length (s_map (se_shards se ! j)) \<le> sample) \<longrightarrow> g2 = {p \<in> shard_entries se (set is). \<not> live now p}"
    using Cons.IH [OF keepsD(1) [OF sp(1)] _ _ two] Cons.prems(2,3) by (auto simp: len ents other)
  have home: "shard_for_key se (fst p) = j" if "p \<in> set (s_map (se_shards se ! j))" "j < length (se_shards se)" for p j
    using shard_member [OF Cons.prems(1) that(2), of "fst p" "snd p"] that by simp
  have disj: "g1 \<inter> g2 = {}"
  proof (rule equals0I)
    fix p assume "p \<in> g1 \<inter> g2"
    then obtain j where "p \<in> set (s_map (se_shards se ! i))" "j \<in> set is" "p \<in> set (s_map (se_shards se ! j))"
      using g1(2) g2(1) by (auto simp: shard_entries_def)
    with home [of p i] home [of p j] i Cons.prems(2,3) show False by auto
  qed
  have fin: "finite g1" "finite g2"
    by (rule finite_subset [OF g1(2)], simp) (rule finite_subset [OF g2(1)], simp add: shard_entries_def)
  show ?case
  proof (intro conjI exI [of _ "g1 \<union> g2"])
    show "keeps se se'" by (rule keeps_trans [OF sp(1) g2(2)])
    show "g1 \<union> g2 \<subseteq> {p \<in> shard_entries se (set (i # is)). \<not> live now p}"
      using g1(2) g2(1) by (auto simp: shard_entries_def)
    show "n = card (g1 \<union> g2)" using n g1(3) g2(4) disj fin by (simp add: card_Un_disjoint)
    show "n \<le> sample * length (i # is)" using n g1(4) g2(5) by simp
    show "(\<forall>j\<in>set (i # is). length (s_map (se_shards se ! j)) \<le> sample)
        \<longrightarrow> g1 \<union> g2 = {p \<in> shard_entries se (set (i # is)). \<not> live now p}"
      using g1(5) g2(6) by (auto simp: shard_entries_def)
    have "set (s_map (se_shards se1 ! j)) = set (s_map (se_shards se ! j)) - g1" if "j < length (se_shards se)" for j
    proof (cases "j = i")
      case False
      then have "set (s_map (se_shards se ! j)) \<inter> g1 = {}"
        using home [OF _ that] home [OF _ i] g1(2) by blast
      with sp(2) [OF False] show ?thesis by auto
    qed (use g1(1) in simp)
    then show "\<forall>j < length (se_shards se). set (s_map (se_shards se' ! j)) = set (s_map (se_shards se ! j)) - (g1 \<union> g2)"
      using g2(3) by auto
  qed
qed (auto simp: shard_entries_def)


lemma shard_entries_all:
  assumes "storage_inv se"
  shows "(k, e) \<in> shard_entries se {0..<length (se_shards se)} \<longleftrightarrow> lookup se k = Some e"
  using shard_member [OF assms] storage_inv_shard_for_key [OF assms]
  by (auto simp: shard_entries_def Bex_def)

lemma storage_active_expire_spec:
  assumes inv: "storage_inv se" and op: "storage_active_expire se now sample = (n, se')"
  shows "keeps se se'"
    and "\<exists>gone. (\<forall>k\<in>gone. \<exists>e. lookup se k = Some e \<and> expired e now)
      \<and> lookup se' = (lookup se) |` (- gone) \<and> n = card gone \<and> n \<le> sample * length (se_shards se)
      \<and> ((\<forall>s\<in>set (se_shards se). length (s_map s) \<le> sample) \<longrightarrow> lookup se' = evict_all now (lookup se))"
proof -
  let ?n = "length (se_shards se)"
  obtain se1 where run: "active_expire_shards now sample [0..<?n] se = (n, se1)"
    and se': "se' = (if n \<noteq> 0 then count_expired se1 n else se1)"
    using op by (auto simp: storage_active_expire_def split: prod.splits)
  have keep1: "keeps se se1" using active_expire_shards_spec [OF inv _ _ run] by (simp add: lessThan_atLeast0)
  obtain g where g: "g \<subseteq> {p \<in> shard_entries se {0..<?n}. \<not> live now p}"
    "\<And>j. j < ?n \<Longrightarrow> set (s_map (se_shards se1 ! j)) = set (s_map (se_shards se ! j)) - g"
    "n = card g" "n \<le> sample * ?n"
    "(\<forall>j<?n. length (s_map (se_shards se ! j)) \<le> sample) \<longrightarrow> g = {p \<in> shard_entries se {0..<?n}. \<not> live now p}"
    using active_expire_shards_spec [OF inv _ _ run] by (auto simp: lessThan_atLeast0 Ball_def)
  have gone: "(k, e) \<in> g \<Longrightarrow> lookup se k = Some e \<and> expired e now" for k e
    using g(1) shard_entries_all [OF inv] by auto
  have len1: "length (se_shards se1) = ?n" using keepsD(2) [OF keep1] by (simp add: same_params_def)
  have look: "lookup se1 k = Some e \<longleftrightarrow> lookup se k = Some e \<and> (k, e) \<notin> g" for k e
  proof -
    have i: "shard_for_key se k < ?n" using inv by simp
    have "lookup se1 k = Some e \<longleftrightarrow> (k, e) \<in> set (s_map (se_shards se1 ! shard_for_key se k))"
      using shard_member [OF keepsD(1) [OF keep1], of "shard_for_key se k" k e] i
      by (simp add: len1 same_params_shard_for_key [OF keepsD(2) [OF keep1]])
    with shard_member [OF inv i, of k e] g(2) [OF i] show ?thesis by simp
  qed
  have eq: "lookup se1 = (lookup se) |` (- (fst ` g))"
  proof
    fix k
    show "lookup se1 k = ((lookup se) |` (- (fst ` g))) k"
    proof (cases "k \<in> fst ` g")
      case True
      then obtain e where e: "(k, e) \<in> g" by force
      have "lookup se1 k \<noteq> Some e'" for e'
        using look [of k e'] gone [OF e] e by auto
      then have "lookup se1 k = None" by (metis not_None_eq)
      with True show ?thesis by (simp add: restrict_map_def)
    next
      case False
      then have "(k, e) \<notin> g" for e by force
      then have "lookup se1 k = Some e \<longleftrightarrow> lookup se k = Some e" for e
        using look [of k e] by simp
      then have "lookup se1 k = lookup se k" by (metis not_None_eq)
      with False show ?thesis by (simp add: restrict_map_def)
    qed
  qed
  have inj: "inj_on fst g"
  proof (rule inj_onI)
    fix p q assume "p \<in> g" "q \<in> g" "fst p = fst q"
    then show "p = q" using gone [of "fst p" "snd p"] gone [of "fst q" "snd q"] by (cases p; cases q) simp
  qed
  have all: "lookup se1 = evict_all now (lookup se)" if "\<forall>s\<in>set (se_shards se). length (s_map s) \<le> sample"
  proof -
    have "g = {p \<in> shard_entries se {0..<?n}. \<not> live now p}" using g(5) that by simp
    then have mem: "(k, e) \<in> g \<longleftrightarrow> lookup se k = Some e \<and> expired e now" for k e
      using shard_entries_all [OF inv] by auto
    have "lookup se1 k = Some e \<longleftrightarrow> evict_all now (lookup se) k = Some e" for k e
      using look [of k e] mem [of k e] by (auto simp: evict_all_def)
    then have "lookup se1 k = evict_all now (lookup se) k" for k by (metis not_None_eq)
    then show ?thesis by blast
  qed
  show "keeps se se'" using keep1 by (auto simp: se' keeps_def)
  show "\<exists>gone. (\<forall>k\<in>gone. \<exists>e. lookup se k = Some e \<and> expired e now)
      \<and> lookup se' = (lookup se) |` (- gone) \<and> n = card gone \<and> n \<le> sample * ?n
      \<and> ((\<forall>s\<in>set (se_shards se). length (s_map s) \<le> sample) \<longrightarrow> lookup se' = evict_all now (lookup se))"
    using gone eq g(3,4) all card_image [OF inj]
    by (intro exI [of _ "fst ` g"]) (auto simp: se')
qed

end
