(* ===== verification/Storage_Spec.thy ===== *)
theory Storage_Spec
  imports Storage_Sweep
begin

text \<open>
  What the storage engine promises to its clients: a map from keys to a value and an optional
  expiry, on which time only removes.  \<open>kv_store\<close> is that contract, with the consequences
  the command layer uses; it is interpreted on the engine's own operations.  The trace
  specification \<open>kv_step\<close> is refined by every sequence of operations on the engine.
\<close>

type_synonym kv = "string \<rightharpoonup> string \<times> time_point option"

definition alive :: "time_point \<Rightarrow> string \<times> time_point option \<Rightarrow> bool" where
  "alive now p = (case snd p of None \<Rightarrow> True | Some x \<Rightarrow> now < x)"

text \<open>The map after the time \<open>now\<close> has been reached.\<close>

definition live_at :: "time_point \<Rightarrow> kv \<Rightarrow> kv" where
  "live_at now m = (\<lambda>k. case m k of None \<Rightarrow> None | Some p \<Rightarrow> if alive now p then Some p else None)"

lemma live_at_apply [simp]:
  "m k = None \<Longrightarrow> live_at now m k = None"
  "m k = Some p \<Longrightarrow> live_at now m k = (if alive now p then Some p else None)"
  by (simp_all add: live_at_def)

lemma alive_mono: "now \<le> t \<Longrightarrow> alive t p \<Longrightarrow> alive now p"
  by (auto simp: alive_def split: option.splits)

lemma live_at_later: "now \<le> t \<Longrightarrow> live_at t (live_at now m) = live_at t m"
  by (auto simp: live_at_def fun_eq_iff alive_mono split: option.splits)

lemma live_at_upd: "live_at t (m(k := x)) = (live_at t m)(k := live_at t (\<lambda>_. x) k)"
  by (auto simp: live_at_def fun_eq_iff)

lemma live_at_cong: "now \<le> t \<Longrightarrow> live_at now m = live_at now n \<Longrightarrow> live_at t m = live_at t n"
  by (metis live_at_later)

lemma visible_alive:
  "visible now it = (case it of None \<Rightarrow> None
     | Some e \<Rightarrow> if alive now (e_value e, e_expiry e) then Some (e_value e, e_expiry e) else None)"
  by (auto simp: visible_def alive_def expired_def not_le split: option.splits)

definition contents :: "(string \<rightharpoonup> Entry) \<Rightarrow> kv" where
  "contents m = (\<lambda>k. map_option (\<lambda>e. (e_value e, e_expiry e)) (m k))"

lemma view_contents: "view se now = live_at now (contents (lookup se))"
  by (auto simp: view_def visible_alive contents_def live_at_def fun_eq_iff split: option.split)

lemma contents_simps:
  "contents (m(k := None)) = (contents m)(k := None)"
  "contents (m(k \<mapsto> e)) = (contents m)(k \<mapsto> (e_value e, e_expiry e))"
  "contents Map.empty = Map.empty"
  by (auto simp: contents_def fun_eq_iff)

lemma view_later: "now \<le> t \<Longrightarrow> live_at t (view se now) = view se t"
  by (simp add: view_contents live_at_later)

lemma view_live [simp]: "live_at now (view se now) = view se now"
  by (simp add: view_later)

text \<open>
  An update of the contents, seen at a later time: the value read from the view at \<open>now\<close>.
\<close>

lemma view_update:
  assumes "now \<le> t" and "lookup se' = (lookup se)(k := it)"
  shows "view se' t = live_at t ((view se now)(k := visible now it))"
proof
  fix j
  have it: "visible t it = live_at t (\<lambda>_. visible now it) k"
    using alive_mono [OF assms(1)] by (auto simp: visible_alive live_at_def split: option.split)
  show "view se' t j = live_at t ((view se now)(k := visible now it)) j"
    using view_later [OF assms(1), of se] it
    by (cases "j = k") (auto simp: live_at_upd view_def [of se'] assms(2) view_def [of se t, symmetric] fun_eq_iff)
qed

lemma view_same:
  assumes "now \<le> t" and "lookup se' = lookup se \<or> lookup se' = evict now k (lookup se)
    \<or> lookup se' = evict_all now (lookup se)"
  shows "view se' t = view se t"
proof
  fix j
  have "visible t it = None" if "visible now it = None" for it
    using that alive_mono [OF assms(1)] by (auto simp: visible_alive split: option.splits if_splits)
  then show "view se' t j = view se t j"
    using assms(2) by (auto simp: view_def evict_def evict_all_def)
qed

lemma view_write:
  assumes "now \<le> t" and "lookup se' = (lookup se)(k \<mapsto> e)"
  shows "view se' t = live_at t ((view se now)(k \<mapsto> (e_value e, e_expiry e)))"
proof -
  have "live_at t (m(k := visible now (Some e))) = live_at t (m(k \<mapsto> (e_value e, e_expiry e)))" for m
    using alive_mono [OF assms(1)] by (auto simp: live_at_def visible_alive fun_eq_iff split: option.split)
  then show ?thesis using view_update [OF assms] by simp
qed

lemma view_delete:
  assumes "now \<le> t" and "lookup se' = (lookup se)(k := None)"
  shows "view se' t = live_at t ((view se now)(k := None))"
  using view_update [OF assms] by simp


section \<open>The contract\<close>

definition condition_met :: "SetCondition \<Rightarrow> 'a option \<Rightarrow> bool" where
  "condition_met cond it = (case cond of Always \<Rightarrow> True | NX \<Rightarrow> it = None | XX \<Rightarrow> it \<noteq> None)"

locale kv_store =
  fixes inv :: "'s \<Rightarrow> bool" and seen :: "'s \<Rightarrow> time_point \<Rightarrow> kv"
    and set_op :: "'s \<Rightarrow> time_point \<Rightarrow> string \<Rightarrow> string \<Rightarrow> int option \<Rightarrow> SetCondition \<Rightarrow> WriteResult \<times> 's"
    and get_op :: "'s \<Rightarrow> time_point \<Rightarrow> string \<Rightarrow> string option \<times> 's"
    and del_op :: "'s \<Rightarrow> time_point \<Rightarrow> string \<Rightarrow> nat \<times> 's"
    and incr_op :: "'s \<Rightarrow> time_point \<Rightarrow> string \<Rightarrow> int \<Rightarrow> WriteResult \<times> 's"
    and append_op :: "'s \<Rightarrow> time_point \<Rightarrow> string \<Rightarrow> string \<Rightarrow> WriteResult \<times> 's"
    and expire_at_op :: "'s \<Rightarrow> time_point \<Rightarrow> string \<Rightarrow> time_point \<Rightarrow> bool \<times> 's"
    and persist_op :: "'s \<Rightarrow> time_point \<Rightarrow> string \<Rightarrow> bool \<times> 's"
    and ttl_op :: "'s \<Rightarrow> time_point \<Rightarrow> string \<Rightarrow> TtlResult \<times> 's"
  assumes seen_later: "now \<le> t \<Longrightarrow> live_at t (seen s now) = seen s t"
    and set_law: "inv s \<Longrightarrow> set_op s now k v ttl cond = (res, s') \<Longrightarrow> inv s' \<and>
      (wr_code res = Ok \<longrightarrow> condition_met cond (seen s now k)) \<and>
      (now \<le> t \<longrightarrow> seen s' t = (if wr_code res = Ok
         then live_at t ((seen s now)(k \<mapsto> (v, map_option (tp_add now) ttl))) else seen s t))"
    and get_law: "inv s \<Longrightarrow> get_op s now k = (found, s') \<Longrightarrow> inv s' \<and>
      found = map_option fst (seen s now k) \<and> (now \<le> t \<longrightarrow> seen s' t = seen s t)"
    and del_law: "inv s \<Longrightarrow> del_op s now k = (n, s') \<Longrightarrow> inv s' \<and>
      n = (if seen s now k = None then 0 else 1) \<and>
      (now \<le> t \<longrightarrow> seen s' t = live_at t ((seen s now)(k := None)))"
    and incr_law: "inv s \<Longrightarrow> in_i64 delta \<Longrightarrow> incr_op s now k delta = (res, s') \<Longrightarrow> inv s' \<and>
      (wr_code res = Ok \<longrightarrow> (\<exists>c. counter_value (seen s now k) = Some c \<and> in_i64 (c + delta)
         \<and> wr_integer res = c + delta)) \<and>
      (now \<le> t \<longrightarrow> seen s' t = (if wr_code res = Ok
         then live_at t ((seen s now)(k \<mapsto> (int_to_string (wr_integer res), None))) else seen s t))"
    and append_law: "inv s \<Longrightarrow> append_op s now k x = (res, s') \<Longrightarrow> inv s' \<and>
      (wr_code res = Ok \<longrightarrow> wr_integer res = int (length (seen_value (seen s now k) @ x))) \<and>
      (now \<le> t \<longrightarrow> seen s' t = (if wr_code res = Ok
         then live_at t ((seen s now)(k \<mapsto> (seen_value (seen s now k) @ x, None))) else seen s t))"
    and expire_at_law: "inv s \<Longrightarrow> expire_at_op s now k tp = (b, s') \<Longrightarrow> inv s' \<and>
      (b \<longleftrightarrow> seen s now k \<noteq> None) \<and>
      (now \<le> t \<longrightarrow> seen s' t = live_at t ((seen s now)(k := map_option (\<lambda>p. (fst p, Some tp)) (seen s now k))))"
    and persist_law: "inv s \<Longrightarrow> persist_op s now k = (b, s') \<Longrightarrow> inv s' \<and>
      (b \<longleftrightarrow> (\<exists>v x. seen s now k = Some (v, Some x))) \<and>
      (now \<le> t \<longrightarrow> seen s' t = live_at t ((seen s now)(k := map_option (\<lambda>p. (fst p, None)) (seen s now k))))"
    and ttl_law: "inv s \<Longrightarrow> ttl_op s now k = (r, s') \<Longrightarrow> inv s' \<and>
      tr_state r = (case seen s now k of None \<Rightarrow> Missing | Some (v, None) \<Rightarrow> NoExpiry | Some (v, Some x) \<Rightarrow> HasExpiry) \<and>
      (now \<le> t \<longrightarrow> seen s' t = seen s t)"
begin

lemma set_then_get:
  assumes "inv s" and "set_op s now k v ttl cond = (res, s')" and "wr_code res = Ok"
    and "now \<le> t" and "get_op s' t k = (r, s'')"
  shows "r = (if alive t (v, map_option (tp_add now) ttl) then Some v else None)"
  using set_law [OF assms(1,2), of t] get_law [OF _ assms(5), of t] assms(3,4) by simp

lemma set_frame:
  assumes "inv s" and "set_op s now k v ttl cond = (res, s')" and "now \<le> t" and "j \<noteq> k"
  shows "seen s' t j = seen s t j"
  using set_law [OF assms(1,2), of t] assms(3,4) seen_later [OF assms(3), of s]
  by (auto simp: live_at_upd)

lemma write_then_value:
  assumes "now \<le> t" and "seen s' t = live_at t ((seen s now)(k \<mapsto> (v, None)))"
  shows "seen s' t k = Some (v, None)"
  using assms by (simp add: alive_def)

lemma incr_then_incr:
  assumes "inv s" and "in_i64 d1" and "in_i64 d2"
    and "incr_op s now k d1 = (r1, s1)" and "wr_code r1 = Ok"
    and "now \<le> t" and "incr_op s1 t k d2 = (r2, s2)" and "wr_code r2 = Ok"
  shows "wr_integer r2 = wr_integer r1 + d2"
proof -
  have one: "inv s1" "in_i64 (wr_integer r1)" "seen s1 t k = Some (int_to_string (wr_integer r1), None)"
    using incr_law [OF assms(1,2,4), of t] assms(5,6) by (auto simp: alive_def)
  have "counter_value (seen s1 t k) = Some (wr_integer r1)"
    using one(2,3) whole_i64_int_to_string
    by (simp add: counter_value_def parse_integer_value_def whole_i64_def)
  with incr_law [OF one(1) assms(3,7), of t] assms(8) show ?thesis by auto
qed

lemma incr_then_get:
  assumes "inv s" and "in_i64 d" and "incr_op s now k d = (res, s')" and "wr_code res = Ok"
    and "now \<le> t" and "get_op s' t k = (r, s'')"
  shows "r = Some (int_to_string (wr_integer res))"
  using incr_law [OF assms(1-3), of t] assms(4,5) get_law [OF _ assms(6), of t]
  by (auto simp: alive_def)

lemma append_then_get:
  assumes "inv s" and "append_op s now k x = (res, s')" and "wr_code res = Ok"
    and "now \<le> t" and "get_op s' t k = (r, s'')"
  shows "r = Some (seen_value (seen s now k) @ x)"
  using append_law [OF assms(1,2), of t] assms(3,4) get_law [OF _ assms(5), of t]
  by (auto simp: alive_def)

lemma expire_at_then_get:
  assumes "inv s" and "expire_at_op s now k tp = (b, s')" and "now \<le> t" and "get_op s' t k = (r, s'')"
  shows "r = (if t < tp then map_option fst (seen s now k) else None)"
  using expire_at_law [OF assms(1,2), of t] assms(3) get_law [OF _ assms(4), of t]
  by (cases "seen s now k") (auto simp: alive_def)

lemma persist_then_get:
  assumes "inv s" and "persist_op s now k = (b, s')" and "now \<le> t" and "get_op s' t k = (r, s'')"
  shows "r = map_option fst (seen s now k)"
  using persist_law [OF assms(1,2), of t] assms(3) get_law [OF _ assms(4), of t]
  by (cases "seen s now k") (auto simp: alive_def)

lemma del_then_get:
  assumes "inv s" and "del_op s now k = (n, s')" and "now \<le> t" and "get_op s' t k = (r, s'')"
  shows "r = None"
  using del_law [OF assms(1,2), of t] assms(3) get_law [OF _ assms(4), of t] by simp

end

interpretation engine: kv_store storage_inv view storage_set storage_get storage_del storage_incr_by
  storage_append storage_expire_at storage_persist storage_ttl
proof
  fix s s' :: StorageEngine and now t k v ttl cond res
  assume inv: "storage_inv s" and op: "storage_set s now k v ttl cond = (res, s')"
  note spec = storage_set_spec [OF inv op]
  have "condition_met cond (view s now k)" if "wr_code res = Ok"
    using spec(7) [OF that] by (cases cond) (auto simp: condition_met_def)
  moreover have "view s' t = live_at t ((view s now)(k \<mapsto> (v, map_option (tp_add now) ttl)))"
    if "wr_code res = Ok" "now \<le> t"
    using spec(6) [OF that(1)] view_write [OF that(2), of s' s k] by (auto simp: written_entry_def)
  moreover have "view s' t = view s t" if "wr_code res \<noteq> Ok" "now \<le> t"
    using spec(5) [OF that(1)] view_same [OF that(2), of s' s k] by auto
  ultimately show "storage_inv s' \<and> (wr_code res = Ok \<longrightarrow> condition_met cond (view s now k)) \<and>
      (now \<le> t \<longrightarrow> view s' t = (if wr_code res = Ok
         then live_at t ((view s now)(k \<mapsto> (v, map_option (tp_add now) ttl))) else view s t))"
    using keepsD(1) [OF spec(1)] by simp
next
  fix s s' :: StorageEngine and now t k r
  assume inv: "storage_inv s" and op: "storage_get s now k = (r, s')"
  note spec = storage_get_spec [OF inv op]
  have "view s' t = view s t" if "now \<le> t"
  proof (cases "lookup s k")
    case (Some e)
    with spec(3) have "lookup s' = (lookup s)(k := if expired e now then None else Some (e\<lparr>e_last_access := now\<rparr>))"
      by simp
    from view_update [OF that this] view_later [OF that, of s] show ?thesis
      by (simp add: fun_upd_idem view_def Some expired_def)
  qed (use spec(3) in \<open>simp add: view_def fun_eq_iff\<close>)
  with spec keepsD(1) show "storage_inv s' \<and> r = map_option fst (view s now k) \<and> (now \<le> t \<longrightarrow> view s' t = view s t)"
    by blast
next
  fix s s' :: StorageEngine and now t k n
  assume inv: "storage_inv s" and op: "storage_del s now k = (n, s')"
  note spec = storage_del_spec [OF inv op]
  show "storage_inv s' \<and> n = (if view s now k = None then 0 else 1) \<and>
      (now \<le> t \<longrightarrow> view s' t = live_at t ((view s now)(k := None)))"
    using spec(2) keepsD(1) [OF spec(1)] view_delete [OF _ spec(3)] by simp
next
  fix s s' :: StorageEngine and delta now t k res
  assume inv: "storage_inv s" and d: "in_i64 delta" and op: "storage_incr_by s now k delta = (res, s')"
  note spec = storage_incr_by_spec [OF inv d op]
  show "storage_inv s' \<and> (wr_code res = Ok \<longrightarrow> (\<exists>c. counter_value (view s now k) = Some c \<and> in_i64 (c + delta)
         \<and> wr_integer res = c + delta)) \<and>
      (now \<le> t \<longrightarrow> view s' t = (if wr_code res = Ok
         then live_at t ((view s now)(k \<mapsto> (int_to_string (wr_integer res), None))) else view s t))"
    using keepsD(1) [OF spec(1)] spec(5,6) view_write [of now t s' s k] view_same [of now t s' s k]
    by (auto simp: written_entry_def)
next
  fix s s' :: StorageEngine and now t k x res
  assume inv: "storage_inv s" and op: "storage_append s now k x = (res, s')"
  note spec = storage_append_spec [OF inv op]
  show "storage_inv s' \<and> (wr_code res = Ok \<longrightarrow> wr_integer res = int (length (seen_value (view s now k) @ x))) \<and>
      (now \<le> t \<longrightarrow> view s' t = (if wr_code res = Ok
         then live_at t ((view s now)(k \<mapsto> (seen_value (view s now k) @ x, None))) else view s t))"
    using keepsD(1) [OF spec(1)] spec(4,5) view_write [of now t s' s k] view_same [of now t s' s k]
    by (auto simp: written_entry_def)
next
  fix s s' :: StorageEngine and now t tp k b
  assume inv: "storage_inv s" and op: "storage_expire_at s now k tp = (b, s')"
  note spec = storage_expire_at_spec [OF inv op]
  have "view s' t = live_at t ((view s now)(k := map_option (\<lambda>p. (fst p, Some tp)) (view s now k)))" if le: "now \<le> t"
  proof (cases "lookup s k")
    case (Some e)
    let ?it = "if expired e now \<or> tp \<le> now then None
        else Some (e\<lparr>e_expiry := Some tp, e_version := e_version e + 1\<rparr>)"
    have "lookup s' = (lookup s)(k := ?it)" using spec(3) Some by simp
    from view_update [OF le this] show ?thesis
      using le Some by (auto simp: view_def expired_def live_at_def alive_def fun_eq_iff split: option.splits)
  qed (use spec(3) view_later [OF le, of s] in \<open>simp add: view_def fun_upd_idem view_contents [of s'] view_contents [of s t]\<close>)
  with spec(2) keepsD(1) [OF spec(1)]
  show "storage_inv s' \<and> (b \<longleftrightarrow> view s now k \<noteq> None) \<and>
      (now \<le> t \<longrightarrow> view s' t = live_at t ((view s now)(k := map_option (\<lambda>p. (fst p, Some tp)) (view s now k))))"
    by simp
next
  fix s s' :: StorageEngine and now t k b
  assume inv: "storage_inv s" and op: "storage_persist s now k = (b, s')"
  note spec = storage_persist_spec [OF inv op]
  have "view s' t = live_at t ((view s now)(k := map_option (\<lambda>p. (fst p, None)) (view s now k)))" if le: "now \<le> t"
  proof (cases "lookup s k")
    case (Some e)
    let ?it = "if expired e now then None else if e_expiry e = None then Some e
        else Some (e\<lparr>e_expiry := None, e_version := e_version e + 1\<rparr>)"
    have "lookup s' = (lookup s)(k := ?it)" using spec(3) Some by simp
    from view_update [OF le this] show ?thesis
      using Some by (auto simp: view_def expired_def fun_eq_iff split: option.splits)
  qed (use spec(3) view_later [OF le, of s] in \<open>simp add: view_def fun_upd_idem view_contents [of s'] view_contents [of s t]\<close>)
  with spec(2) keepsD(1) [OF spec(1)]
  show "storage_inv s' \<and> (b \<longleftrightarrow> (\<exists>v x. view s now k = Some (v, Some x))) \<and>
      (now \<le> t \<longrightarrow> view s' t = live_at t ((view s now)(k := map_option (\<lambda>p. (fst p, None)) (view s now k))))"
    by simp
next
  fix s s' :: StorageEngine and now t k r
  assume inv: "storage_inv s" and op: "storage_ttl s now k = (r, s')"
  note spec = storage_ttl_spec [OF inv op]
  show "storage_inv s' \<and>
      tr_state r = (case view s now k of None \<Rightarrow> Missing | Some (v, None) \<Rightarrow> NoExpiry | Some (v, Some x) \<Rightarrow> HasExpiry) \<and>
      (now \<le> t \<longrightarrow> view s' t = view s t)"
    using keepsD(1) [OF spec(1)] view_same [of now t s' s k] spec(2,3)
    by (auto split: option.splits)
qed (simp_all add: view_later)

end
