(* ===== verification/Storage_Trace.thy ===== *)
theory Storage_Trace
  imports Storage_Spec
begin

text \<open>
  Sequences of storage operations.  \<open>exec_op\<close> runs one public operation of the engine,
  \<open>kv_step\<close> says what a client may observe of it on a plain map of live keys; every run of the
  engine is a run of the specification with the same replies, and the invariant holds in every
  reachable engine.
\<close>

datatype storage_op =
    OpSet string string "int option" SetCondition
  | OpGet string
  | OpDel string
  | OpIncrBy string int
  | OpAppend string string
  | OpStrlen string
  | OpExpireAt string time_point
  | OpExpire string time_point int
  | OpTtl string
  | OpPersist string
  | OpDbsize
  | OpExpiresCount
  | OpSnapshot
  | OpFlushdb
  | OpActiveExpire nat

datatype storage_reply =
    RWrite WriteResult
  | RValue "string option"
  | RCount nat
  | RBool bool
  | RTtl TtlResult
  | REntries "SnapshotEntry list"
  | RDone

text \<open>
  \<open>OpExpire\<close> carries the first clock reading of \<open>expire\<close>; \<open>now\<close> is the reading inside the lock.
\<close>

fun exec_op :: "StorageEngine \<Rightarrow> time_point \<Rightarrow> storage_op \<Rightarrow> storage_reply \<times> StorageEngine" where
  "exec_op se now (OpSet k v ttl cond) = (case storage_set se now k v ttl cond of (r, se') \<Rightarrow> (RWrite r, se'))"
| "exec_op se now (OpGet k) = (case storage_get se now k of (r, se') \<Rightarrow> (RValue r, se'))"
| "exec_op se now (OpDel k) = (case storage_del se now k of (n, se') \<Rightarrow> (RCount n, se'))"
| "exec_op se now (OpIncrBy k delta) = (case storage_incr_by se now k delta of (r, se') \<Rightarrow> (RWrite r, se'))"
| "exec_op se now (OpAppend k x) = (case storage_append se now k x of (r, se') \<Rightarrow> (RWrite r, se'))"
| "exec_op se now (OpStrlen k) = (case storage_strlen se now k of (n, se') \<Rightarrow> (RCount n, se'))"
| "exec_op se now (OpExpireAt k tp) = (case storage_expire_at se now k tp of (b, se') \<Rightarrow> (RBool b, se'))"
| "exec_op se now (OpExpire k start ttl) =
     (case storage_expire se (\<lambda>i. if i = 0 then start else now) k ttl of (b, se') \<Rightarrow> (RBool b, se'))"
| "exec_op se now (OpTtl k) = (case storage_ttl se now k of (r, se') \<Rightarrow> (RTtl r, se'))"
| "exec_op se now (OpPersist k) = (case storage_persist se now k of (b, se') \<Rightarrow> (RBool b, se'))"
| "exec_op se now OpDbsize = (case storage_dbsize se now of (n, se') \<Rightarrow> (RCount n, se'))"
| "exec_op se now OpExpiresCount = (case storage_expires_count se now of (n, se') \<Rightarrow> (RCount n, se'))"
| "exec_op se now OpSnapshot = (case storage_snapshot se now of (es, se') \<Rightarrow> (REntries es, se'))"
| "exec_op se now OpFlushdb = (RDone, storage_flushdb se)"
| "exec_op se now (OpActiveExpire sample) = (case storage_active_expire se now sample of (n, se') \<Rightarrow> (RCount n, se'))"

text \<open>The increment that \<open>incr_by\<close> takes is an \<open>int64_t\<close>.\<close>

fun op_wf :: "storage_op \<Rightarrow> bool" where
  "op_wf (OpIncrBy k delta) = in_i64 delta"
| "op_wf _ = True"


section \<open>The specification\<close>

text \<open>
  \<open>kv_step lim now m op r m'\<close>: at time \<open>now\<close>, with the live keys \<open>m\<close>, the operation may
  answer \<open>r\<close> and leave the live keys \<open>m'\<close>.  A write may be refused for lack of memory; then
  nothing changes.
\<close>

definition wrote :: "int \<Rightarrow> storage_reply" where
  "wrote n = RWrite \<lparr>wr_code = Ok, wr_integer = n\<rparr>"

definition refused :: "WriteCode \<Rightarrow> storage_reply" where
  "refused c = RWrite \<lparr>wr_code = c, wr_integer = 0\<rparr>"

definition ttl_result :: "time_point \<Rightarrow> (string \<times> time_point option) option \<Rightarrow> TtlResult" where
  "ttl_result now seen = (case seen of
       None \<Rightarrow> \<lparr>tr_state = Missing, tr_milliseconds = 0\<rparr>
     | Some (v, None) \<Rightarrow> \<lparr>tr_state = NoExpiry, tr_milliseconds = 0\<rparr>
     | Some (v, Some t) \<Rightarrow>
         \<lparr>tr_state = HasExpiry, tr_milliseconds = max 0 (wrap64 (t - now) sdiv ticks_per_ms)\<rparr>)"

inductive kv_step :: "ProtocolConfig \<Rightarrow> time_point \<Rightarrow> kv \<Rightarrow> storage_op \<Rightarrow> storage_reply \<Rightarrow> kv \<Rightarrow> bool"
  for lim now m where
  set_ok: "length k \<le> max_key_size lim \<Longrightarrow> length v \<le> max_value_size lim \<Longrightarrow> condition_met cond (m k) \<Longrightarrow>
    kv_step lim now m (OpSet k v ttl cond) (wrote 0) (live_at now (m(k \<mapsto> (v, map_option (tp_add now) ttl))))"
| set_not_set: "length k \<le> max_key_size lim \<Longrightarrow> length v \<le> max_value_size lim \<Longrightarrow> \<not> condition_met cond (m k) \<Longrightarrow>
    kv_step lim now m (OpSet k v ttl cond) (refused NotSet) m"
| set_key: "length k > max_key_size lim \<Longrightarrow> kv_step lim now m (OpSet k v ttl cond) (refused KeyTooLarge) m"
| set_value: "length k \<le> max_key_size lim \<Longrightarrow> length v > max_value_size lim \<Longrightarrow>
    kv_step lim now m (OpSet k v ttl cond) (refused ValueTooLarge) m"
| set_memory: "condition_met cond (m k) \<Longrightarrow> kv_step lim now m (OpSet k v ttl cond) (refused NoMemory) m"
| get: "kv_step lim now m (OpGet k) (RValue (map_option fst (m k))) m"
| strlen: "kv_step lim now m (OpStrlen k) (RCount (length (seen_value (m k)))) m"
| del: "kv_step lim now m (OpDel k) (RCount (if m k = None then 0 else 1)) (m(k := None))"
| incr_ok: "length k \<le> max_key_size lim \<Longrightarrow> counter_value (m k) = Some c \<Longrightarrow> in_i64 (c + delta) \<Longrightarrow>
    kv_step lim now m (OpIncrBy k delta) (wrote (c + delta)) (m(k \<mapsto> (int_to_string (c + delta), None)))"
| incr_integer: "length k \<le> max_key_size lim \<Longrightarrow> counter_value (m k) = None \<Longrightarrow>
    kv_step lim now m (OpIncrBy k delta) (refused InvalidInteger) m"
| incr_overflow: "length k \<le> max_key_size lim \<Longrightarrow> counter_value (m k) = Some c \<Longrightarrow> \<not> in_i64 (c + delta) \<Longrightarrow>
    kv_step lim now m (OpIncrBy k delta) (refused Overflow) m"
| incr_key: "length k > max_key_size lim \<Longrightarrow> kv_step lim now m (OpIncrBy k delta) (refused KeyTooLarge) m"
| incr_value: "counter_value (m k) = Some c \<Longrightarrow> length (int_to_string (c + delta)) > max_value_size lim \<Longrightarrow>
    kv_step lim now m (OpIncrBy k delta) (refused ValueTooLarge) m"
| incr_memory: "kv_step lim now m (OpIncrBy k delta) (refused NoMemory) m"
| append_ok: "v = seen_value (m k) @ x \<Longrightarrow> length k \<le> max_key_size lim \<Longrightarrow> length v \<le> max_value_size lim \<Longrightarrow>
    kv_step lim now m (OpAppend k x) (wrote (int (length v))) (m(k \<mapsto> (v, None)))"
| append_key: "length k > max_key_size lim \<Longrightarrow> kv_step lim now m (OpAppend k x) (refused KeyTooLarge) m"
| append_value: "length (seen_value (m k) @ x) > max_value_size lim \<Longrightarrow>
    kv_step lim now m (OpAppend k x) (refused ValueTooLarge) m"
| append_memory: "kv_step lim now m (OpAppend k x) (refused NoMemory) m"
| expire_at: "kv_step lim now m (OpExpireAt k tp) (RBool (m k \<noteq> None))
    (live_at now (m(k := map_option (\<lambda>p. (fst p, Some tp)) (m k))))"
| expire: "ttl > 0 \<Longrightarrow> kv_step lim now m (OpExpire k start ttl) (RBool (m k \<noteq> None))
    (live_at now (m(k := map_option (\<lambda>p. (fst p, Some (tp_add start ttl))) (m k))))"
| expire_now: "ttl \<le> 0 \<Longrightarrow> kv_step lim now m (OpExpire k start ttl) (RBool (m k \<noteq> None)) (m(k := None))"
| ttl: "kv_step lim now m (OpTtl k) (RTtl (ttl_result now (m k))) m"
| persist: "kv_step lim now m (OpPersist k) (RBool (\<exists>v x. m k = Some (v, Some x)))
    (m(k := map_option (\<lambda>p. (fst p, None)) (m k)))"
| dbsize: "kv_step lim now m OpDbsize (RCount (card (dom m))) m"
| expires_count: "kv_step lim now m OpExpiresCount (RCount (card {k. \<exists>v x. m k = Some (v, Some x)})) m"
| snapshot: "distinct (map sn_key es) \<Longrightarrow>
    (\<And>k v x. \<lparr>sn_key = k, sn_value = v, sn_expire_at_unix_ms = x\<rparr> \<in> set es
       \<longleftrightarrow> (\<exists>t. m k = Some (v, t) \<and> x = map_option unix_ms t)) \<Longrightarrow>
    kv_step lim now m OpSnapshot (REntries es) m"
| flushdb: "kv_step lim now m OpFlushdb RDone Map.empty"
| active_expire: "kv_step lim now m (OpActiveExpire sample) (RCount n) m"


inductive_cases kv_snapshotE: "kv_step lim now m OpSnapshot (REntries es) m'"


section \<open>One operation refines one step\<close>

abbreviation refines :: "StorageEngine \<Rightarrow> time_point \<Rightarrow> storage_op \<Rightarrow> storage_reply \<Rightarrow> StorageEngine \<Rightarrow> bool" where
  "refines se now op r se' \<equiv> keeps se se' \<and> kv_step (se_limits se) now (view se now) op r (view se' now)"

lemma write_result_eq: "wr_code res = c \<Longrightarrow> wr_integer res = n \<Longrightarrow> res = \<lparr>wr_code = c, wr_integer = n\<rparr>"
  by simp

lemma storage_set_integer: "storage_set se now k v ttl cond = (res, se') \<Longrightarrow> wr_integer res = 0"
  by (auto simp: storage_set_def Let_def split: if_splits prod.splits)

lemma live_upd_plain: "live_at now ((view se now)(k \<mapsto> (v, None))) = (view se now)(k \<mapsto> (v, None))"
  by (simp add: live_at_upd alive_def)

lemma live_upd_none: "live_at now ((view se now)(k := None)) = (view se now)(k := None)"
  by (simp add: live_at_upd)

lemma refines_set:
  assumes inv: "storage_inv se" and op: "storage_set se now k v ttl cond = (res, se')"
  shows "refines se now (OpSet k v ttl cond) (RWrite res) se'"
proof -
  note spec = storage_set_spec [OF inv op]
  note law = engine.set_law [OF inv op, of now]
  have int0: "wr_integer res = 0" by (rule storage_set_integer [OF op])
  have reply: "RWrite res = refused (wr_code res)" using int0 by (simp add: refused_def)
  have same: "view se' now = view se now" if "wr_code res \<noteq> Ok" using law that by simp
  have cond: "condition_met cond (view se now k) \<longleftrightarrow>
      \<not> ((cond = NX \<and> view se now k \<noteq> None) \<or> (cond = XX \<and> view se now k = None))"
    by (cases cond; cases "view se now k") (simp_all add: condition_met_def)
  have "kv_step (se_limits se) now (view se now) (OpSet k v ttl cond) (RWrite res) (view se' now)"
  proof (cases "wr_code res = Ok")
    case True
    with law spec(7) have "view se' now = live_at now ((view se now)(k \<mapsto> (v, map_option (tp_add now) ttl)))"
      "condition_met cond (view se now k)" "key_valid se k" "value_valid se v" by auto
    then show ?thesis
      unfolding write_result_eq [OF True int0] wrote_def [symmetric]
      by (simp add: kv_step.set_ok key_valid_def value_valid_def)
  next
    case False
    show ?thesis
      unfolding same [OF False] reply
    proof (cases "key_valid se k \<and> value_valid se v")
      case True
      then have valid: "key_valid se k" "value_valid se v" by simp_all
      have code: "wr_code res = NotSet \<or> wr_code res = NoMemory"
        using spec(8) [OF valid] False by blast
      have met: "wr_code res = NotSet \<longleftrightarrow> \<not> condition_met cond (view se now k)"
        unfolding cond spec(4) [OF valid] by blast
      from code show "kv_step (se_limits se) now (view se now) (OpSet k v ttl cond) (refused (wr_code res)) (view se now)"
        using True met by (elim disjE) (simp_all add: kv_step.set_not_set kv_step.set_memory key_valid_def value_valid_def)
    next
      case bad: False
      show "kv_step (se_limits se) now (view se now) (OpSet k v ttl cond) (refused (wr_code res)) (view se now)"
        using bad spec(2,3) by (cases "key_valid se k")
          (simp_all add: kv_step.set_key kv_step.set_value key_valid_def value_valid_def)
    qed
  qed
  with spec(1) show ?thesis by blast
qed


lemma storage_incr_by_integer:
  "storage_incr_by se now k delta = (res, se') \<Longrightarrow> wr_code res \<noteq> Ok \<Longrightarrow> wr_integer res = 0"
  by (auto simp: storage_incr_by_def Let_def split: if_splits prod.splits option.splits)

lemma storage_incr_by_too_large:
  assumes inv: "storage_inv se" and d: "in_i64 delta" and op: "storage_incr_by se now k delta = (res, se')"
    and "wr_code res = ValueTooLarge"
  shows "\<exists>c. counter_value (view se now k) = Some c \<and> length (int_to_string (c + delta)) > max_value_size (se_limits se)"
proof -
  obtain it se1 where fl: "find_live se (shard_for_key se k) k now = (it, se1)" by fastforce
  have "wc \<in> {Ok, NoMemory}" if "write_entry se1 (shard_for_key se k) k it v None now = (wc, se2)"
    "key_valid se k" "value_valid se v" for v wc se2
    by (rule live_write_spec(2) [OF inv that(2,3) fl that(1)])
  with op assms(4) show ?thesis
    unfolding storage_incr_by_step [OF inv d fl]
    by (fastforce simp: value_valid_def split: if_splits option.splits prod.splits)
qed

lemma refines_incr:
  assumes inv: "storage_inv se" and d: "in_i64 delta" and op: "storage_incr_by se now k delta = (res, se')"
  shows "refines se now (OpIncrBy k delta) (RWrite res) se'"
proof -
  note spec = storage_incr_by_spec [OF inv d op]
  note law = engine.incr_law [OF inv d op, of now]
  have same: "view se' now = view se now" if "wr_code res \<noteq> Ok" using law that by simp
  have reply: "RWrite res = refused (wr_code res)" if "wr_code res \<noteq> Ok"
    using storage_incr_by_integer [OF op that] by (simp add: refused_def)
  note large = storage_incr_by_too_large [OF inv d op]
  have "kv_step (se_limits se) now (view se now) (OpIncrBy k delta) (RWrite res) (view se' now)"
  proof (cases "wr_code res = Ok")
    case True
    with law obtain c where c: "counter_value (view se now k) = Some c" "in_i64 (c + delta)" "wr_integer res = c + delta"
      "view se' now = live_at now ((view se now)(k \<mapsto> (int_to_string (c + delta), None)))" by auto
    moreover have "key_valid se k" using spec(2) True by auto
    ultimately show ?thesis
      unfolding write_result_eq [OF True c(3)] wrote_def [symmetric]
      by (simp add: live_upd_plain kv_step.incr_ok key_valid_def)
  next
    case False
    show ?thesis
      unfolding same [OF False] reply [OF False]
      using False spec(2,3,4,7) large
      by (cases "key_valid se k"; cases "wr_code res")
         (auto simp: key_valid_def not_le intro: kv_step.intros)
  qed
  with spec(1) show ?thesis by blast
qed

lemma storage_append_integer:
  "storage_append se now k x = (res, se') \<Longrightarrow> wr_code res \<noteq> Ok \<Longrightarrow> wr_integer res = 0"
  by (auto simp: storage_append_def Let_def split: if_splits prod.splits)

lemma refines_append:
  assumes inv: "storage_inv se" and op: "storage_append se now k x = (res, se')"
  shows "refines se now (OpAppend k x) (RWrite res) se'"
proof -
  note spec = storage_append_spec [OF inv op]
  note law = engine.append_law [OF inv op, of now]
  have same: "view se' now = view se now" if "wr_code res \<noteq> Ok" using law that by simp
  have reply: "RWrite res = refused (wr_code res)" if "wr_code res \<noteq> Ok"
    using storage_append_integer [OF op that] by (simp add: refused_def)
  let ?v = "seen_value (view se now k) @ x"
  have "kv_step (se_limits se) now (view se now) (OpAppend k x) (RWrite res) (view se' now)"
  proof (cases "wr_code res = Ok")
    case True
    with law have n: "wr_integer res = int (length ?v)"
      and v: "view se' now = (view se now)(k \<mapsto> (?v, None))" by (auto simp: live_upd_plain)
    have "key_valid se k" "value_valid se ?v" using spec(2,3) True by auto
    then have "kv_step (se_limits se) now (view se now) (OpAppend k x) (wrote (int (length ?v))) ((view se now)(k \<mapsto> (?v, None)))"
      by (intro kv_step.append_ok) (simp_all add: key_valid_def value_valid_def)
    then show ?thesis
      unfolding write_result_eq [OF True n] wrote_def [symmetric] v .
  next
    case False
    show ?thesis
      unfolding same [OF False] reply [OF False]
      using False spec(2,3,6)
      by (cases "key_valid se k"; cases "value_valid se ?v")
         (auto simp: key_valid_def value_valid_def not_le intro: kv_step.intros)
  qed
  with spec(1) show ?thesis by blast
qed


lemma refines_count_ops:
  assumes inv: "storage_inv se"
  shows "storage_dbsize se now = (n, se') \<Longrightarrow> refines se now OpDbsize (RCount n) se'"
    and "storage_expires_count se now = (n, se') \<Longrightarrow> refines se now OpExpiresCount (RCount n) se'"
    and "storage_active_expire se now sample = (n, se') \<Longrightarrow> refines se now (OpActiveExpire sample) (RCount n) se'"
proof -
  show "refines se now OpDbsize (RCount n) se'" if "storage_dbsize se now = (n, se')"
    using storage_dbsize_spec [OF inv that] view_same [of now now se' se]
    by (simp add: kv_step.dbsize)
  show "refines se now OpExpiresCount (RCount n) se'" if "storage_expires_count se now = (n, se')"
    using storage_expires_count_spec [OF inv that] view_same [of now now se' se]
    by (simp add: kv_step.expires_count)
  assume op: "storage_active_expire se now sample = (n, se')"
  obtain gone where g: "\<forall>k\<in>gone. \<exists>e. lookup se k = Some e \<and> expired e now" "lookup se' = (lookup se) |` (- gone)"
    using storage_active_expire_spec(2) [OF inv op] by blast
  have "view se' now k = view se now k" for k
    using g by (cases "k \<in> gone") (auto simp: view_def restrict_map_def)
  then have "view se' now = view se now" by blast
  with storage_active_expire_spec(1) [OF inv op] show "refines se now (OpActiveExpire sample) (RCount n) se'"
    by (simp add: kv_step.active_expire)
qed

lemma refines_snapshot:
  assumes inv: "storage_inv se" and op: "storage_snapshot se now = (es, se')"
  shows "refines se now OpSnapshot (REntries es) se'"
proof -
  note spec = storage_snapshot_spec [OF inv op]
  have same: "view se' now = view se now" using view_same [of now now se' se] spec(2) by simp
  have "map sn_key es = map fst (live_entries se now)"
    by (simp add: spec(3) snapshot_entry_def comp_def case_prod_beta)
  with live_entries_distinct [OF inv] have dist: "distinct (map sn_key es)" by simp
  have "\<lparr>sn_key = k, sn_value = v, sn_expire_at_unix_ms = x\<rparr> \<in> set es
      \<longleftrightarrow> (\<exists>t. view se now k = Some (v, t) \<and> x = map_option unix_ms t)" for k v x
  proof -
    have "\<lparr>sn_key = k, sn_value = v, sn_expire_at_unix_ms = x\<rparr> \<in> set es \<longleftrightarrow>
        (\<exists>e. (k, e) \<in> set (live_entries se now) \<and> v = e_value e \<and> x = map_option unix_ms (e_expiry e))"
      by (force simp: spec(3) snapshot_entry_def image_iff)
    then show ?thesis
      by (auto simp: live_entries_member [OF inv] view_def visible_Some)
  qed
  with dist spec(1) show ?thesis unfolding same by (intro conjI kv_step.snapshot) auto
qed

text \<open>The simulation, for every public operation.\<close>

lemma exec_op_refines:
  assumes inv: "storage_inv se" and wf: "op_wf op" and op: "exec_op se now op = (r, se')"
  shows "refines se now op r se'"
  using op wf
proof (cases op)
  case (OpGet k)
  then obtain v where get: "storage_get se now k = (v, se')" "r = RValue v"
    using op by (auto split: prod.splits)
  then show ?thesis
    using engine.get_law [OF inv get(1), of now] storage_get_spec(1) [OF inv get(1)] OpGet
    by (simp add: kv_step.get)
next
  case (OpStrlen k)
  then obtain v where get: "storage_get se now k = (v, se')" "r = RCount (case v of None \<Rightarrow> 0 | Some s \<Rightarrow> length s)"
    using op by (auto simp: storage_strlen_def split: prod.splits option.splits)
  moreover have "(case v of None \<Rightarrow> 0 | Some s \<Rightarrow> length s) = length (seen_value (view se now k))"
    using storage_get_spec(2) [OF inv get(1)] by (simp add: seen_value_def split: option.split prod.split)
  ultimately show ?thesis
    using engine.get_law [OF inv get(1), of now] storage_get_spec(1) [OF inv get(1)] OpStrlen
    by (simp add: kv_step.strlen)
next
  case (OpDel k)
  then obtain n where del: "storage_del se now k = (n, se')" "r = RCount n"
    using op by (auto split: prod.splits)
  then show ?thesis
    using engine.del_law [OF inv del(1), of now] storage_del_spec(1) [OF inv del(1)] OpDel kv_step.del [of _ now "view se now" k]
    by (simp add: live_upd_none)
next
  case (OpExpireAt k tp)
  then obtain b where ex: "storage_expire_at se now k tp = (b, se')" "r = RBool b"
    using op by (auto split: prod.splits)
  then show ?thesis
    using engine.expire_at_law [OF inv ex(1), of now] storage_expire_at_spec(1) [OF inv ex(1)] OpExpireAt
      kv_step.expire_at [of _ now "view se now" k tp] by simp
next
  case (OpExpire k start ttl)
  show ?thesis
  proof (cases "ttl \<le> 0")
    case True
    then obtain n where del: "storage_del se now k = (n, se')" "r = RBool (n = 1)"
      using op OpExpire by (auto simp: storage_expire_def split: prod.splits)
    then show ?thesis
      using engine.del_law [OF inv del(1), of now] storage_del_spec(1) [OF inv del(1)] OpExpire True
        kv_step.expire_now [OF True, of _ now "view se now" k start]
      by (auto simp: live_upd_none split: if_splits)
  next
    case False
    then obtain b where ex: "storage_expire_at se now k (tp_add start ttl) = (b, se')" "r = RBool b"
      using op OpExpire by (auto simp: storage_expire_def split: prod.splits)
    then show ?thesis
      using engine.expire_at_law [OF inv ex(1), of now] storage_expire_at_spec(1) [OF inv ex(1)] OpExpire False
        kv_step.expire [of ttl _ now "view se now" k start] by simp
  qed
next
  case (OpTtl k)
  then obtain tr where ex: "storage_ttl se now k = (tr, se')" "r = RTtl tr"
    using op by (auto split: prod.splits)
  then show ?thesis
    using engine.ttl_law [OF inv ex(1), of now] storage_ttl_spec(1,3) [OF inv ex(1)] OpTtl
      kv_step.ttl [of _ now "view se now" k] by (simp add: ttl_result_def)
next
  case (OpPersist k)
  then obtain b where ex: "storage_persist se now k = (b, se')" "r = RBool b"
    using op by (auto split: prod.splits)
  have "live_at now ((view se now)(k := map_option (\<lambda>p. (fst p, None)) (view se now k))) =
      (view se now)(k := map_option (\<lambda>p. (fst p, None)) (view se now k))"
    by (cases "view se now k") (simp_all add: live_upd_plain live_upd_none)
  then show ?thesis
    using engine.persist_law [OF inv ex(1), of now] storage_persist_spec(1) [OF inv ex(1)] OpPersist ex(2)
      kv_step.persist [of _ now "view se now" k] by simp
next
  case OpFlushdb
  then show ?thesis
    using op storage_flushdb_spec(1,2) [OF inv] kv_step.flushdb [of _ now "view se now"]
    by (simp add: view_contents contents_simps live_at_def)
qed (use refines_set [OF inv] refines_incr [OF inv] refines_append [OF inv] refines_count_ops [OF inv]
    refines_snapshot [OF inv] in \<open>auto split: prod.splits\<close>)



section \<open>Runs\<close>

fun exec_ops :: "StorageEngine \<Rightarrow> (time_point \<times> storage_op) list \<Rightarrow> storage_reply list \<times> StorageEngine" where
  "exec_ops se [] = ([], se)"
| "exec_ops se ((now, op) # ops) =
     (case exec_op se now op of (r, se1) \<Rightarrow>
        case exec_ops se1 ops of (rs, se2) \<Rightarrow> (r # rs, se2))"

text \<open>The clock never goes back along a run that starts at \<open>start\<close>; \<open>end_time\<close> is its last reading.\<close>

fun clock_runs :: "time_point \<Rightarrow> (time_point \<times> storage_op) list \<Rightarrow> bool" where
  "clock_runs start [] = True"
| "clock_runs start ((now, op) # ops) = (start \<le> now \<and> clock_runs now ops)"

fun end_time :: "time_point \<Rightarrow> (time_point \<times> storage_op) list \<Rightarrow> time_point" where
  "end_time start [] = start"
| "end_time start ((now, op) # ops) = end_time now ops"

inductive kv_run :: "ProtocolConfig \<Rightarrow> kv \<Rightarrow> (time_point \<times> storage_op) list \<Rightarrow> storage_reply list \<Rightarrow> kv \<Rightarrow> bool"
  for lim where
  run_nil: "kv_run lim m [] [] m"
| run_step: "kv_step lim now (live_at now m) op r m1 \<Longrightarrow> kv_run lim m1 ops rs m2 \<Longrightarrow>
    kv_run lim m ((now, op) # ops) (r # rs) m2"

inductive_simps kv_run_nil: "kv_run lim m [] rs m'"
inductive_cases kv_run_consE: "kv_run lim m ((now, op) # ops) rs m'"

lemma exec_ops_refine:
  assumes "storage_inv se" and "\<forall>(now, op) \<in> set ops. op_wf op" and "clock_runs start ops"
    and "exec_ops se ops = (rs, se')"
  shows "keeps se se' \<and> kv_run (se_limits se) (view se start) ops rs (view se' (end_time start ops))"
  using assms
proof (induction ops arbitrary: se start rs)
  case (Cons p ops)
  obtain now op where p: "p = (now, op)" by fastforce
  obtain r se1 where one: "exec_op se now op = (r, se1)" by fastforce
  obtain rs1 where rest: "exec_ops se1 ops = (rs1, se')" and rs: "rs = r # rs1"
    using Cons.prems(4) by (auto simp: p one split: prod.splits)
  have step: "refines se now op r se1"
    using exec_op_refines [OF Cons.prems(1) _ one] Cons.prems(2) by (auto simp: p)
  have "keeps se1 se' \<and> kv_run (se_limits se1) (view se1 now) ops rs1 (view se' (end_time now ops))"
    using Cons.IH [OF _ _ _ rest, of now] step Cons.prems(2,3) by (auto simp: p keeps_def)
  with step Cons.prems(3) show ?case
    by (auto simp: p rs view_later keeps_def same_params_def intro: kv_run.run_step)
qed (auto intro: kv_run.intros)

text \<open>The engines that the operations can reach from a fresh one.\<close>

inductive storage_reachable :: "StorageEngine \<Rightarrow> StorageEngine \<Rightarrow> bool" for se0 where
  initial: "storage_reachable se0 se0"
| operation: "storage_reachable se0 se \<Longrightarrow> op_wf op \<Longrightarrow> exec_op se now op = (r, se') \<Longrightarrow> storage_reachable se0 se'"

lemma reachable_keeps:
  assumes "storage_reachable se0 se" and "storage_inv se0"
  shows "keeps se0 se"
  using assms
  by (induction rule: storage_reachable.induct) (auto dest: keepsD(1) exec_op_refines intro: keeps_trans)

end
