(* ===== verification/Storage_Props.thy ===== *)
theory Storage_Props
  imports Storage_Trace
begin

text \<open>
  The properties of the storage engine, over the interpretation \<open>engine\<close> of the store contract
  and the refinement of the trace specification.  The witnesses run on a small engine.
\<close>

text \<open>Two shards, a memory limit of 1000 bytes, keys of at most 8 and values of at most 64 bytes.\<close>

definition small_engine :: StorageEngine where
  "small_engine = mk_storage length True \<lparr>shards = 2, max_memory_bytes = 1000\<rparr>
     \<lparr>max_request_bytes = 1024, max_array_elements = 16, max_key_size = 8, max_value_size = 64,
      max_output_buffer_bytes = 4096\<rparr>"

lemma small_engine_inv [simp]: "storage_inv small_engine"
  by (simp add: small_engine_def)

definition engine_with :: "string \<Rightarrow> string \<Rightarrow> int option \<Rightarrow> StorageEngine" where
  "engine_with k v ttl = snd (storage_set small_engine 0 k v ttl Always)"

lemma engine_with_keeps: "keeps small_engine (engine_with k v ttl)"
  using storage_set_spec(1) [OF small_engine_inv, of 0 k v ttl Always]
  by (cases "storage_set small_engine 0 k v ttl Always") (simp add: engine_with_def)

lemma engine_with_inv [simp]: "storage_inv (engine_with k v ttl)"
  by (rule keepsD(1) [OF engine_with_keeps])

lemma engine_with_valid [simp]: "key_valid (engine_with k v ttl) k' \<longleftrightarrow> length k' \<le> 8"
  using same_params_valid(1) [OF keepsD(2) [OF engine_with_keeps]]
  by (simp add: key_valid_def small_engine_def mk_storage_def)

lemma small_engine_simps [evals]:
  "small_engine = \<lparr>se_config = \<lparr>shards = 2, max_memory_bytes = 1000\<rparr>,
     se_limits = \<lparr>max_request_bytes = 1024, max_array_elements = 16, max_key_size = 8, max_value_size = 64,
      max_output_buffer_bytes = 4096\<rparr>,
     se_shards = [\<lparr>s_map = [], s_memory_bytes = 0, s_expire_cursor = 0\<rparr>, \<lparr>s_map = [], s_memory_bytes = 0, s_expire_cursor = 0\<rparr>],
     se_used_memory = 0, se_expired_keys = 0, se_hash = length, se_alloc_ok = True\<rparr>"
  by (simp add: small_engine_def evals numeral_2_eq_2)

text \<open>
  C10. Every engine that public operations reach from a fresh one is well formed: each key is
  stored once, in the shard its hash selects, within the size limits; each shard's byte counter
  is the sum over its entries, and the global counter the sum over the shards.
\<close>

theorem reachable_engine_well_formed:
  assumes "storage_reachable (mk_storage h alloc config limits) se"
  shows "storage_inv se"
  using reachable_keeps [OF assms] by (simp add: keeps_def)

theorem reachable_engine_well_formed_witness:
  "storage_inv (snd (exec_op small_engine 5 (OpSet ''k'' ''v'' None Always)))"
proof -
  have "storage_reachable small_engine (snd (exec_op small_engine 5 (OpSet ''k'' ''v'' None Always)))"
    by (rule storage_reachable.operation [OF storage_reachable.initial _ prod.collapse [symmetric]]) simp
  then show ?thesis
    unfolding small_engine_def by (rule reachable_engine_well_formed)
qed

text \<open>
  C23. With a memory limit configured, the used-memory counter never exceeds it, and it is exactly
  the sum of the sizes of the stored entries, in every engine that public operations reach.
\<close>

theorem memory_within_limit:
  assumes "storage_reachable (mk_storage h alloc config limits) se" and "max_memory_bytes config \<noteq> 0"
  shows "used_memory_estimate se \<le> max_memory_bytes config
    \<and> used_memory_estimate se = sum_list (map (\<lambda>s. map_memory (s_map s)) (se_shards se))"
proof (rule conjI)
  have keep: "keeps (mk_storage h alloc config limits) se"
    using reachable_keeps [OF assms(1)] by simp
  then have cfg: "max_memory_bytes (se_config se) = max_memory_bytes config"
    by (simp add: keeps_def same_params_def mk_storage_def Let_def)
  have inv: "storage_inv se" using keep by (simp add: keeps_def)
  then show "used_memory_estimate se \<le> max_memory_bytes config"
    using used_memory_le [OF inv] cfg assms(2) by (simp add: used_memory_estimate_def)
  have "map s_memory_bytes (se_shards se) = map (\<lambda>s. map_memory (s_map s)) (se_shards se)"
    using inv by (auto simp: storage_inv_def shard_wf_def in_set_conv_nth)
  with inv cfg assms(2) show "used_memory_estimate se = sum_list (map (\<lambda>s. map_memory (s_map s)) (se_shards se))"
    by (simp add: storage_inv_def memory_ok_def used_memory_estimate_def total_memory_def)
qed

theorem memory_within_limit_witness:
  "used_memory_estimate (engine_with ''k'' ''value'' None) \<le> 1000"
proof -
  have "storage_reachable small_engine (snd (exec_op small_engine 0 (OpSet ''k'' ''value'' None Always)))"
    by (rule storage_reachable.operation [OF storage_reachable.initial _ prod.collapse [symmetric]]) simp
  then have "storage_reachable small_engine (engine_with ''k'' ''value'' None)"
    by (simp add: engine_with_def split: prod.splits)
  from memory_within_limit [OF this [unfolded small_engine_def]] show ?thesis
    by (simp add: small_engine_def)
qed

text \<open>
  C4. Refinement: any run of public operations on a fresh engine, at clock readings that do not go
  back, gives replies that the map specification allows, and ends in the live keys that the
  specification ends in.
\<close>

theorem engine_refines_spec:
  assumes "\<forall>(now, op) \<in> set ops. op_wf op" and "clock_runs start ops"
    and "exec_ops (mk_storage h alloc config limits) ops = (rs, se')"
  shows "kv_run limits Map.empty ops rs (view se' (end_time start ops))"
proof -
  have "view (mk_storage h alloc config limits) start = Map.empty"
    by (simp add: view_def fun_eq_iff)
  moreover have "se_limits (mk_storage h alloc config limits) = limits"
    by (simp add: mk_storage_def Let_def)
  ultimately show ?thesis
    using exec_ops_refine [OF storage_inv_mk_storage assms] by simp
qed

theorem engine_refines_spec_witness:
  "\<exists>rs m. kv_run default_protocol Map.empty [(0, OpSet ''k'' ''41'' None NX), (7, OpIncrBy ''k'' 1)] rs m
     \<and> m ''k'' = Some (''42'', None)"
proof -
  let ?ops = "[(0, OpSet ''k'' ''41'' None NX), (7, OpIncrBy ''k'' 1)]"
  let ?e = "mk_storage length True \<lparr>shards = 1, max_memory_bytes = 0\<rparr> default_protocol"
  obtain rs se' where run: "exec_ops ?e ?ops = (rs, se')" by fastforce
  have "view se' 7 ''k'' = Some (''42'', None)"
    using run by (auto simp: evals view_def lookup_def visible_def)
  moreover have "kv_run default_protocol Map.empty ?ops rs (view se' 7)"
    using engine_refines_spec [OF _ _ run, of 0] by (simp add: in_i64_def i64_bounds)
  ultimately show ?thesis by blast
qed

text \<open>
  C24. A successful \<open>set\<close> makes later reads return the value until its expiry, and then nothing;
  it leaves every other key as it was, and its \<open>NX\<close>/\<open>XX\<close> condition held.
\<close>

theorem set_then_get_returns_value:
  assumes "storage_inv se" and "storage_set se now k v ttl cond = (res, se')" and "wr_code res = Ok"
    and "now \<le> t"
  shows "fst (storage_get se' t k) = (if alive t (v, map_option (tp_add now) ttl) then Some v else None)
    \<and> (\<forall>j. j \<noteq> k \<longrightarrow> view se' t j = view se t j)
    \<and> condition_met cond (view se now k)"
  using engine.set_then_get [OF assms prod.collapse [symmetric]] engine.set_frame [OF assms(1,2,4)]
    engine.set_law [OF assms(1,2)] assms(3) by simp

theorem set_then_get_returns_value_witness:
  "fst (storage_get (engine_with ''k'' ''v'' (Some 10)) 9999999 ''k'') = Some ''v'' \<and>
   fst (storage_get (engine_with ''k'' ''v'' (Some 10)) 10000000 ''k'') = None"
proof -
  have ok: "wr_code (fst (storage_set small_engine 0 ''k'' ''v'' (Some 10) Always)) = Ok"
    by (simp add: evals)
  show ?thesis
    using set_then_get_returns_value [OF small_engine_inv prod.collapse [symmetric] ok, of 9999999]
      set_then_get_returns_value [OF small_engine_inv prod.collapse [symmetric] ok, of 10000000]
    by (simp add: engine_with_def evals alive_def)
qed

text \<open>
  A write that is not \<open>Ok\<close> (size limits, condition, memory) changes no key at any later time.
\<close>

theorem refused_write_changes_nothing:
  assumes "storage_inv se" and "storage_set se now k v ttl cond = (res, se')" and "wr_code res \<noteq> Ok"
    and "now \<le> t"
  shows "view se' t = view se t"
  using engine.set_law [OF assms(1,2), of t] assms(3,4) by simp

theorem refused_write_changes_nothing_witness:
  "view (snd (storage_set (engine_with ''k'' ''v'' None) 3 ''k'' ''w'' None NX)) 8 = view (engine_with ''k'' ''v'' None) 8"
proof -
  have "wr_code (fst (storage_set (engine_with ''k'' ''v'' None) 3 ''k'' ''w'' None NX)) \<noteq> Ok"
    by (simp add: engine_with_def evals)
  then show ?thesis
    by (intro refused_write_changes_nothing [OF engine_with_inv prod.collapse [symmetric]]) simp_all
qed

text \<open>
  C25. \<open>incr_by\<close> is exact: on a key within the size limit it reports an overflow exactly when the
  mathematical sum leaves the range of \<open>int64_t\<close>, an invalid integer exactly when the stored
  value is none, and on success returns and stores the sum (a missing key counts as 0), without
  an expiry.
\<close>

theorem incr_by_exact:
  assumes "storage_inv se" and "in_i64 delta" and "key_valid se k"
    and "storage_incr_by se now k delta = (res, se')"
  shows "(wr_code res = InvalidInteger \<longleftrightarrow> counter_value (view se now k) = None)
    \<and> (wr_code res = Overflow \<longleftrightarrow> (\<exists>c. counter_value (view se now k) = Some c \<and> \<not> in_i64 (c + delta)))
    \<and> (wr_code res = Ok \<longrightarrow> (\<exists>c. counter_value (view se now k) = Some c \<and> wr_integer res = c + delta
          \<and> (\<forall>t\<ge>now. view se' t k = Some (int_to_string (c + delta), None))))"
proof -
  note spec = storage_incr_by_spec [OF assms(1,2,4)]
  have stored: "view se' t k = Some (int_to_string (wr_integer res), None)" if "wr_code res = Ok" "now \<le> t" for t
    using engine.incr_law [OF assms(1,2,4), of t] that by (simp add: alive_def)
  show ?thesis
    using spec(3) [OF assms(3)] spec(4) [OF assms(3)] spec(6) stored by auto
qed

theorem incr_by_exact_witness:
  "wr_code (fst (storage_incr_by (engine_with ''k'' ''9223372036854775807'' None) 3 ''k'' 1)) = Overflow
   \<and> wr_code (fst (storage_incr_by (engine_with ''k'' ''abc'' None) 3 ''k'' 1)) = InvalidInteger"
proof -
  have i64: "in_i64 1" by (simp add: in_i64_def i64_bounds)
  have valid: "key_valid (engine_with ''k'' v None) ''k''" for v
    by simp
  have "counter_value (view (engine_with ''k'' ''9223372036854775807'' None) 3 ''k'') = Some i64_max"
    "counter_value (view (engine_with ''k'' ''abc'' None) 3 ''k'') = None"
    by (simp_all add: engine_with_def evals view_def lookup_def visible_def counter_value_def)
  then show ?thesis
    using incr_by_exact [OF engine_with_inv i64 valid prod.collapse [symmetric], of "''9223372036854775807''" 3]
      incr_by_exact [OF engine_with_inv i64 valid prod.collapse [symmetric], of "''abc''" 3]
    by (simp add: in_i64_def i64_bounds)
qed

text \<open>
  Increments add up: two successful increments of a key, with any time between them, return
  numbers that differ by the second increment, and a read in between returns the decimal form.
\<close>

theorem increments_add_up:
  assumes "storage_inv se" and "in_i64 d1" and "in_i64 d2"
    and "storage_incr_by se now k d1 = (r1, se1)" and "wr_code r1 = Ok"
    and "now \<le> t" and "storage_incr_by se1 t k d2 = (r2, se2)" and "wr_code r2 = Ok"
  shows "wr_integer r2 = wr_integer r1 + d2 \<and> fst (storage_get se1 t k) = Some (int_to_string (wr_integer r1))"
  using engine.incr_then_incr [OF assms] engine.incr_then_get [OF assms(1,2,4,5,6) prod.collapse [symmetric]] by simp

theorem increments_add_up_witness:
  "let (r1, se1) = storage_incr_by (engine_with ''n'' ''-3'' None) 1 ''n'' 5;
       (r2, se2) = storage_incr_by se1 2 ''n'' 40
   in wr_integer r1 = 2 \<and> wr_integer r2 = 42"
proof -
  let ?one = "storage_incr_by (engine_with ''n'' ''-3'' None) 1 ''n'' 5"
  let ?two = "storage_incr_by (snd ?one) 2 ''n'' 40"
  have i64: "in_i64 5" "in_i64 40" by (simp_all add: in_i64_def i64_bounds)
  have one: "wr_code (fst ?one) = Ok" "wr_integer (fst ?one) = 2" and two: "wr_code (fst ?two) = Ok"
    by (simp_all add: engine_with_def evals)
  have "wr_integer (fst ?two) = wr_integer (fst ?one) + 40"
    using increments_add_up [OF engine_with_inv i64 prod.collapse [symmetric] one(1) _ prod.collapse [symmetric] two]
    by simp
  with one show ?thesis by (simp add: case_prod_beta)
qed

text \<open>
  C26. An expiry set with \<open>expire_at\<close> cuts reads off exactly at the deadline, and \<open>persist\<close>
  removes it for good: after \<open>persist\<close> a live key stays readable at every later time.
\<close>

theorem expiry_and_persist:
  assumes "storage_inv se" and "now \<le> t"
  shows "fst (storage_get (snd (storage_expire_at se now k tp)) t k) =
      (if t < tp then map_option fst (view se now k) else None)
    \<and> fst (storage_get (snd (storage_persist se now k)) t k) = map_option fst (view se now k)"
  using engine.expire_at_then_get [OF assms(1) prod.collapse [symmetric] assms(2) prod.collapse [symmetric]]
    engine.persist_then_get [OF assms(1) prod.collapse [symmetric] assms(2) prod.collapse [symmetric]]
  by blast

theorem expiry_and_persist_witness:
  "fst (storage_get (snd (storage_persist (engine_with ''k'' ''v'' (Some 1)) 5 ''k'')) 5000000 ''k'') = Some ''v''"
proof -
  have "view (engine_with ''k'' ''v'' (Some 1)) 5 ''k'' = Some (''v'', Some 1000000)"
    by (simp add: engine_with_def evals view_def lookup_def visible_def)
  then show ?thesis
    using expiry_and_persist [OF engine_with_inv, of 5 5000000 "''k''" "''v''" "Some 1" "''k''" 0] by simp
qed

text \<open>
  C27. \<open>dbsize\<close> counts the live keys, \<open>expires_count\<close> the live keys with an expiry.  Both reclaim every
  expired entry and nothing else: the engine afterwards keeps its invariant, has exactly the live
  entries, unchanged, and shows a client the same keys as before.
\<close>

theorem counts_are_exact:
  assumes "storage_inv se"
  shows "fst (storage_dbsize se now) = card (dom (view se now))
    \<and> fst (storage_expires_count se now) = card {k. \<exists>v x. view se now k = Some (v, Some x)}
    \<and> (\<forall>se' k. se' = snd (storage_dbsize se now) \<or> se' = snd (storage_expires_count se now) \<longrightarrow>
         storage_inv se' \<and> view se' now = view se now
         \<and> (\<forall>e. lookup se' k = Some e \<longleftrightarrow> lookup se k = Some e \<and> \<not> expired e now))"
proof -
  note db = storage_dbsize_spec [OF assms prod.collapse [symmetric], of now]
    and ex = storage_expires_count_spec [OF assms prod.collapse [symmetric], of now]
  have kept: "storage_inv se' \<and> view se' now = view se now \<and> (\<forall>e. lookup se' k = Some e \<longleftrightarrow> lookup se k = Some e \<and> \<not> expired e now)"
    if "keeps se se'" "lookup se' = evict_all now (lookup se)" for se' k
    using that view_same [of now now se' se] by (auto simp: keeps_def evict_all_def split: if_splits option.splits)
  show ?thesis using db(3) ex(3) kept [OF db(1,2)] kept [OF ex(1,2)] by blast
qed

theorem counts_are_exact_witness:
  "fst (storage_dbsize (engine_with ''k'' ''v'' (Some 1)) 1000000) = card (dom (view (engine_with ''k'' ''v'' (Some 1)) 1000000))
   \<and> fst (storage_dbsize (engine_with ''k'' ''v'' (Some 1)) 999999) = 1
   \<and> fst (storage_dbsize (engine_with ''k'' ''v'' (Some 1)) 1000000) = 0
   \<and> lookup (snd (storage_expires_count (engine_with ''k'' ''v'' (Some 1)) 1000000)) ''k'' = None
   \<and> lookup (snd (storage_expires_count (engine_with ''k'' ''v'' (Some 1)) 999999)) ''k'' = lookup (engine_with ''k'' ''v'' (Some 1)) ''k''"
  using counts_are_exact [OF engine_with_inv, of "''k''" "''v''" "Some 1" 1000000]
  by (simp add: engine_with_def evals lookup_def)

text \<open>
  C28. A snapshot has exactly the live keys, each once, with its value and its expiry in
  milliseconds, and taking it changes nothing a client can see.
\<close>

theorem snapshot_is_exact:
  assumes "storage_inv se"
  shows "distinct (map sn_key (fst (storage_snapshot se now)))
    \<and> (\<forall>k v x. \<lparr>sn_key = k, sn_value = v, sn_expire_at_unix_ms = x\<rparr> \<in> set (fst (storage_snapshot se now))
         \<longleftrightarrow> (\<exists>t. view se now k = Some (v, t) \<and> x = map_option unix_ms t))
    \<and> view (snd (storage_snapshot se now)) now = view se now"
proof -
  have "refines se now OpSnapshot (REntries (fst (storage_snapshot se now))) (snd (storage_snapshot se now))"
    by (rule refines_snapshot [OF assms prod.collapse [symmetric]])
  then show ?thesis by (auto elim: kv_snapshotE)
qed

theorem snapshot_is_exact_witness:
  "distinct (map sn_key (fst (storage_snapshot (engine_with ''k'' ''v'' (Some 3)) 1)))
   \<and> fst (storage_snapshot (engine_with ''k'' ''v'' (Some 3)) 1) =
     [\<lparr>sn_key = ''k'', sn_value = ''v'', sn_expire_at_unix_ms = Some 3\<rparr>]"
  using snapshot_is_exact [OF engine_with_inv, of "''k''" "''v''" "Some 3" 1]
  by (simp add: engine_with_def evals)

text \<open>
  C29. Active expiration never removes a live key: it erases only entries that have expired, at
  most \<open>sample\<close> per shard, reports how many, and a sample as large as the shards erases all of them.
\<close>

theorem active_expire_is_safe:
  assumes "storage_inv se"
  shows "storage_inv (snd (storage_active_expire se now sample))
    \<and> (\<forall>t\<ge>now. view (snd (storage_active_expire se now sample)) t = view se t)
    \<and> fst (storage_active_expire se now sample) \<le> sample * length (se_shards se)
    \<and> ((\<forall>s\<in>set (se_shards se). length (s_map s) \<le> sample) \<longrightarrow>
        lookup (snd (storage_active_expire se now sample)) = evict_all now (lookup se))"
proof -
  let ?se' = "snd (storage_active_expire se now sample)"
  note spec = storage_active_expire_spec [OF assms prod.collapse [symmetric], of now sample]
  obtain gone where g: "\<forall>k\<in>gone. \<exists>e. lookup se k = Some e \<and> expired e now" "lookup ?se' = (lookup se) |` (- gone)"
    "fst (storage_active_expire se now sample) \<le> sample * length (se_shards se)"
    "(\<forall>s\<in>set (se_shards se). length (s_map s) \<le> sample) \<longrightarrow> lookup ?se' = evict_all now (lookup se)"
    using spec(2) by blast
  have "view ?se' t k = view se t k" if "now \<le> t" for t k
  proof (cases "k \<in> gone")
    case True
    then obtain e where e: "lookup se k = Some e" "expired e now" using g(1) by blast
    then have "expired e t" using that by (auto simp: expired_def split: option.splits)
    with e True show ?thesis by (simp add: view_def g(2) restrict_map_def)
  qed (simp add: view_def g(2) restrict_map_def)
  with spec(1) g(3,4) show ?thesis by (auto simp: keeps_def fun_eq_iff)
qed

theorem active_expire_is_safe_witness:
  "fst (storage_active_expire (engine_with ''k'' ''v'' (Some 1)) 2000000 20) \<le> 40
   \<and> lookup (snd (storage_active_expire (engine_with ''k'' ''v'' (Some 1)) 2000000 20)) =
       evict_all 2000000 (lookup (engine_with ''k'' ''v'' (Some 1)))"
proof -
  have "length (se_shards (engine_with ''k'' ''v'' (Some 1))) = 2"
    "\<forall>s\<in>set (se_shards (engine_with ''k'' ''v'' (Some 1))). length (s_map s) \<le> 20"
    by (simp_all add: engine_with_def evals)
  then show ?thesis
    using active_expire_is_safe [OF engine_with_inv, of "''k''" "''v''" "Some 1" 2000000 20] by simp
qed

end
