(* ===== verification/Config_Loader.thy ===== *)
theory Config_Loader
  imports Config_Types
begin

text \<open>
  The configuration loader of \<open>src/config/config.cpp\<close>: the file format, the environment, the
  command line, and the order in which they override each other.  The environment and the
  contents of the configuration file are arguments (\<open>getenv\<close>, \<open>read_text\<close>).
\<close>


section \<open>Values\<close>

definition strip_quotes :: "string \<Rightarrow> string" where
  "strip_quotes value =
     (let v = trim value in
      if length v \<ge> 2 \<and> hd v = CHR 0x22 \<and> last v = CHR 0x22 then take (length v - 2) (drop 1 v) else v)"

fun remove_comment_from :: "bool \<Rightarrow> string \<Rightarrow> string" where
  "remove_comment_from in_string [] = []"
| "remove_comment_from in_string (c # cs) =
     (let in_string' = (if c = CHR 0x22 then \<not> in_string else in_string) in
      if \<not> in_string' \<and> c = CHR ''#'' then [] else c # remove_comment_from in_string' cs)"

definition remove_comment :: "string \<Rightarrow> string" where
  "remove_comment line = remove_comment_from False line"

text \<open>The setters return the status and the new value of their output argument.\<close>

definition set_u16 :: "nat \<Rightarrow> string \<Rightarrow> string \<Rightarrow> status \<times> nat" where
  "set_u16 out value name =
     (case parse_u64 value of
        None \<Rightarrow> (invalid_argument (''invalid uint16 value for '' @ name), out)
      | Some parsed \<Rightarrow>
          if parsed > 65535 then (invalid_argument (''invalid uint16 value for '' @ name), out)
          else (status_ok, parsed))"

definition set_size :: "nat \<Rightarrow> string \<Rightarrow> string \<Rightarrow> status \<times> nat" where
  "set_size out value name =
     (case parse_u64 value of
        None \<Rightarrow> (invalid_argument (''invalid size value for '' @ name), out)
      | Some parsed \<Rightarrow>
          if parsed > u64_max then (invalid_argument (''invalid size value for '' @ name), out)
          else (status_ok, parsed))"

definition set_bool :: "bool \<Rightarrow> string \<Rightarrow> string \<Rightarrow> status \<times> bool" where
  "set_bool out value name =
     (case parse_bool value of
        None \<Rightarrow> (invalid_argument (''invalid bool value for '' @ name), out)
      | Some parsed \<Rightarrow> (status_ok, parsed))"

definition set_bytes :: "nat \<Rightarrow> string \<Rightarrow> string \<Rightarrow> status \<times> nat" where
  "set_bytes out value name =
     (case parse_byte_size value of
        None \<Rightarrow> (invalid_argument (''invalid byte size for '' @ name), out)
      | Some parsed \<Rightarrow> (status_ok, parsed))"

text \<open>Updates of a nested configuration struct.\<close>

definition on_server :: "(ServerConfig \<Rightarrow> ServerConfig) \<Rightarrow> Config \<Rightarrow> Config" where
  "on_server f c = c\<lparr>server := f (server c)\<rparr>"
definition on_storage :: "(StorageConfig \<Rightarrow> StorageConfig) \<Rightarrow> Config \<Rightarrow> Config" where
  "on_storage f c = c\<lparr>storage_cfg := f (storage_cfg c)\<rparr>"
definition on_persistence :: "(PersistenceConfig \<Rightarrow> PersistenceConfig) \<Rightarrow> Config \<Rightarrow> Config" where
  "on_persistence f c = c\<lparr>persistence := f (persistence c)\<rparr>"
definition on_expiration :: "(ExpirationConfig \<Rightarrow> ExpirationConfig) \<Rightarrow> Config \<Rightarrow> Config" where
  "on_expiration f c = c\<lparr>expiration := f (expiration c)\<rparr>"
definition on_protocol :: "(ProtocolConfig \<Rightarrow> ProtocolConfig) \<Rightarrow> Config \<Rightarrow> Config" where
  "on_protocol f c = c\<lparr>protocol := f (protocol c)\<rparr>"

text \<open>A setter applied to a field: the status, and the configuration with the field's new value.\<close>

definition assign :: "status \<times> 'a \<Rightarrow> ('a \<Rightarrow> Config) \<Rightarrow> status \<times> Config" where
  "assign r upd = (fst r, upd (snd r))"

definition apply_kv :: "Config \<Rightarrow> string \<Rightarrow> string \<Rightarrow> status \<times> Config" where
  "apply_kv config key value =
     (let v = strip_quotes value;
          srv = server config; sto = storage_cfg config; per = persistence config;
          ex = expiration config; pro = protocol config
      in
      if key = ''server.host'' then (status_ok, on_server (\<lambda>s. s\<lparr>host := v\<rparr>) config)
      else if key = ''server.port'' then
        assign (set_u16 (port srv) v key) (\<lambda>x. on_server (\<lambda>s. s\<lparr>port := x\<rparr>) config)
      else if key = ''server.workers'' then
        assign (set_size (workers srv) v key) (\<lambda>x. on_server (\<lambda>s. s\<lparr>workers := x\<rparr>) config)
      else if key = ''server.max_clients'' then
        assign (set_size (max_clients srv) v key) (\<lambda>x. on_server (\<lambda>s. s\<lparr>max_clients := x\<rparr>) config)
      else if key = ''storage.shards'' then
        assign (set_size (shards sto) v key) (\<lambda>x. on_storage (\<lambda>s. s\<lparr>shards := x\<rparr>) config)
      else if key = ''storage.max_memory'' then
        assign (set_bytes (max_memory_bytes sto) v key) (\<lambda>x. on_storage (\<lambda>s. s\<lparr>max_memory_bytes := x\<rparr>) config)
      else if key = ''storage.max_memory_bytes'' then
        assign (set_size (max_memory_bytes sto) v key) (\<lambda>x. on_storage (\<lambda>s. s\<lparr>max_memory_bytes := x\<rparr>) config)
      else if key = ''persistence.aof_enabled'' then
        assign (set_bool (aof_enabled per) v key) (\<lambda>x. on_persistence (\<lambda>s. s\<lparr>aof_enabled := x\<rparr>) config)
      else if key = ''persistence.aof_path'' then
        (status_ok, on_persistence (\<lambda>s. s\<lparr>aof_path := v\<rparr>) config)
      else if key = ''persistence.fsync_policy'' then
        (let policy = to_lower_ascii v in
         if policy \<noteq> ''always'' \<and> policy \<noteq> ''everysec'' \<and> policy \<noteq> ''no'' then
           (invalid_argument ''fsync policy must be always, everysec, or no'', config)
         else (status_ok, on_persistence (\<lambda>s. s\<lparr>fsync_policy := policy\<rparr>) config))
      else if key = ''persistence.snapshot_path'' then
        (status_ok, on_persistence (\<lambda>s. s\<lparr>snapshot_path := v\<rparr>) config)
      else if key = ''persistence.manifest_path'' then
        (status_ok, on_persistence (\<lambda>s. s\<lparr>manifest_path := v\<rparr>) config)
      else if key = ''expiration.active_enabled'' then
        assign (set_bool (active_enabled ex) v key) (\<lambda>x. on_expiration (\<lambda>s. s\<lparr>active_enabled := x\<rparr>) config)
      else if key = ''expiration.interval_ms'' then
        (case parse_u64 v of
           None \<Rightarrow> (invalid_argument ''invalid interval'', config)
         | Some parsed \<Rightarrow> (status_ok, on_expiration (\<lambda>s. s\<lparr>interval_ms := parsed\<rparr>) config))
      else if key = ''expiration.sample_per_shard'' then
        assign (set_size (sample_per_shard ex) v key) (\<lambda>x. on_expiration (\<lambda>s. s\<lparr>sample_per_shard := x\<rparr>) config)
      else if key = ''logging.level'' then (status_ok, config\<lparr>logging_level := to_lower_ascii v\<rparr>)
      else if key = ''metrics.enabled'' then
        assign (set_bool (metrics_enabled config) v key) (\<lambda>x. config\<lparr>metrics_enabled := x\<rparr>)
      else if key = ''admin.shutdown_enabled'' then
        assign (set_bool (shutdown_enabled config) v key) (\<lambda>x. config\<lparr>shutdown_enabled := x\<rparr>)
      else if key = ''protocol.max_request_bytes'' then
        assign (set_bytes (max_request_bytes pro) v key) (\<lambda>x. on_protocol (\<lambda>s. s\<lparr>max_request_bytes := x\<rparr>) config)
      else if key = ''protocol.max_array_elements'' then
        assign (set_size (max_array_elements pro) v key) (\<lambda>x. on_protocol (\<lambda>s. s\<lparr>max_array_elements := x\<rparr>) config)
      else if key = ''protocol.max_key_size'' then
        assign (set_bytes (max_key_size pro) v key) (\<lambda>x. on_protocol (\<lambda>s. s\<lparr>max_key_size := x\<rparr>) config)
      else if key = ''protocol.max_value_size'' then
        assign (set_bytes (max_value_size pro) v key) (\<lambda>x. on_protocol (\<lambda>s. s\<lparr>max_value_size := x\<rparr>) config)
      else if key = ''protocol.max_output_buffer_bytes'' then
        assign (set_bytes (max_output_buffer_bytes pro) v key) (\<lambda>x. on_protocol (\<lambda>s. s\<lparr>max_output_buffer_bytes := x\<rparr>) config)
      else (invalid_argument (''unknown config key: '' @ key), config))"


section \<open>File, environment, command line\<close>

text \<open>The loop of \<open>load_file\<close>: section name, number of the last line read, remaining lines.\<close>

fun load_lines :: "Config \<Rightarrow> string \<Rightarrow> nat \<Rightarrow> string list \<Rightarrow> status \<times> Config" where
  "load_lines config sect line_no [] = (status_ok, config)"
| "load_lines config sect line_no (l # ls) =
     (let n = line_no + 1; line = trim (remove_comment l) in
      if line = [] then load_lines config sect n ls
      else if hd line = CHR ''['' \<and> last line = CHR '']'' then
        load_lines config (trim (take (length line - 2) (drop 1 line))) n ls
      else (case split_at_char (CHR ''='') line of
          None \<Rightarrow> (invalid_argument (''invalid config line '' @ nat_to_string n), config)
        | Some (before, after) \<Rightarrow>
            (let key = (if sect = [] then trim before else sect @ ''.'' @ trim before) in
             case apply_kv config key (strip_quotes after) of (st, config') \<Rightarrow>
               if \<not> ok_status st then
                 (invalid_argument (''config line '' @ nat_to_string n @ '': '' @ message st), config')
               else load_lines config' sect n ls)))"

definition load_file :: "(string \<Rightarrow> string option) \<Rightarrow> Config \<Rightarrow> string \<Rightarrow> status \<times> Config" where
  "load_file read_text config path =
     (case read_text path of
        None \<Rightarrow> (io_error (''failed to open config file: '' @ path), config)
      | Some content \<Rightarrow> load_lines config [] 0 (lines_of content))"

definition env_entries :: "(string \<times> string) list" where
  "env_entries =
     [(''VELOXDB_HOST'', ''server.host''),
      (''VELOXDB_PORT'', ''server.port''),
      (''VELOXDB_WORKERS'', ''server.workers''),
      (''VELOXDB_MAX_CLIENTS'', ''server.max_clients''),
      (''VELOXDB_STORAGE_SHARDS'', ''storage.shards''),
      (''VELOXDB_MAX_MEMORY'', ''storage.max_memory''),
      (''VELOXDB_AOF_ENABLED'', ''persistence.aof_enabled''),
      (''VELOXDB_AOF_PATH'', ''persistence.aof_path''),
      (''VELOXDB_FSYNC_POLICY'', ''persistence.fsync_policy''),
      (''VELOXDB_SNAPSHOT_PATH'', ''persistence.snapshot_path''),
      (''VELOXDB_MANIFEST_PATH'', ''persistence.manifest_path''),
      (''VELOXDB_LOG_LEVEL'', ''logging.level''),
      (''VELOXDB_SHUTDOWN_ENABLED'', ''admin.shutdown_enabled''),
      (''VELOXDB_EXPIRATION_ACTIVE'', ''expiration.active_enabled''),
      (''VELOXDB_EXPIRATION_INTERVAL_MS'', ''expiration.interval_ms'')]"

fun apply_env_from :: "(string \<Rightarrow> string option) \<Rightarrow> (string \<times> string) list \<Rightarrow> Config \<Rightarrow> status \<times> Config" where
  "apply_env_from getenv [] config = (status_ok, config)"
| "apply_env_from getenv ((env, key) # es) config =
     (case getenv env of
        None \<Rightarrow> apply_env_from getenv es config
      | Some value \<Rightarrow>
          (case apply_kv config key value of (st, config') \<Rightarrow>
             if \<not> ok_status st then (invalid_argument (env @ '': '' @ message st), config')
             else apply_env_from getenv es config'))"

definition apply_env :: "(string \<Rightarrow> string option) \<Rightarrow> Config \<Rightarrow> status \<times> Config" where
  "apply_env getenv config = apply_env_from getenv env_entries config"

definition cli_aliases :: "(string \<times> string) list" where
  "cli_aliases =
     [(''host'', ''server.host''),
      (''port'', ''server.port''),
      (''workers'', ''server.workers''),
      (''max-clients'', ''server.max_clients''),
      (''storage-shards'', ''storage.shards''),
      (''max-memory'', ''storage.max_memory''),
      (''aof-enabled'', ''persistence.aof_enabled''),
      (''aof-path'', ''persistence.aof_path''),
      (''fsync-policy'', ''persistence.fsync_policy''),
      (''snapshot-path'', ''persistence.snapshot_path''),
      (''manifest-path'', ''persistence.manifest_path''),
      (''log-level'', ''logging.level''),
      (''shutdown-enabled'', ''admin.shutdown_enabled''),
      (''max-request-bytes'', ''protocol.max_request_bytes''),
      (''max-key-size'', ''protocol.max_key_size''),
      (''max-value-size'', ''protocol.max_value_size''),
      (''max-output-buffer-bytes'', ''protocol.max_output_buffer_bytes''),
      (''expiration-interval-ms'', ''expiration.interval_ms''),
      (''expiration-active'', ''expiration.active_enabled'')]"

definition apply_cli_pair :: "Config \<Rightarrow> string \<Rightarrow> string \<Rightarrow> status \<times> Config" where
  "apply_cli_pair config name value =
     (case map_of cli_aliases name of
        None \<Rightarrow> (invalid_argument (''unknown option --'' @ name), config)
      | Some key \<Rightarrow> apply_kv config key value)"


text \<open>The first pass over the command line: \<open>--help\<close> and the configuration path.\<close>

datatype scan_result = Scan_Help | Scan_Error status | Scan_Path string

fun scan_args :: "string list \<Rightarrow> string \<Rightarrow> scan_result" where
  "scan_args [] path = Scan_Path path"
| "scan_args (a # as) path =
     (if a = ''--help'' \<or> a = ''-h'' then Scan_Help
      else if a = ''--config'' then
        (case as of
           [] \<Rightarrow> Scan_Error (invalid_argument ''--config requires a path'')
         | p # as' \<Rightarrow> scan_args as' p)
      else if take 9 a = ''--config='' then scan_args as (drop 9 a)
      else scan_args as path)"

text \<open>The second pass: the options, in order.\<close>

fun cli_loop :: "Config \<Rightarrow> string list \<Rightarrow> status \<times> Config" where
  "cli_loop config [] = (status_ok, config)"
| "cli_loop config (a # as) =
     (if a = ''--config'' then (case as of [] \<Rightarrow> (status_ok, config) | _ # as' \<Rightarrow> cli_loop config as')
      else if take 9 a = ''--config='' then cli_loop config as
      else if take 2 a \<noteq> ''--'' then
        (invalid_argument (''unexpected positional argument: '' @ a), config)
      else (case split_at_char (CHR ''='') a of
          Some (before, value) \<Rightarrow>
            (case apply_cli_pair config (drop 2 before) value of (st, config') \<Rightarrow>
               if \<not> ok_status st then (st, config') else cli_loop config' as)
        | None \<Rightarrow>
            (case as of
               [] \<Rightarrow> (invalid_argument (a @ '' requires a value''), config)
             | value # as' \<Rightarrow>
                 (case apply_cli_pair config (drop 2 a) value of (st, config') \<Rightarrow>
                    if \<not> ok_status st then (st, config') else cli_loop config' as'))))"

definition at_least_one :: "nat \<Rightarrow> nat" where
  "at_least_one n = (if n = 0 then 1 else n)"

definition clamp_config :: "Config \<Rightarrow> Config" where
  "clamp_config config =
     on_expiration (\<lambda>e. e\<lparr>interval_ms := at_least_one (interval_ms e)\<rparr>)
       (on_storage (\<lambda>s. s\<lparr>shards := at_least_one (shards s)\<rparr>)
         (on_server (\<lambda>s. s\<lparr>workers := at_least_one (workers s)\<rparr>) config))"

definition help_text :: string where
  "help_text = concat (map (\<lambda>l. l @ [CHR 0x0A])
     [''VeloxDB 0.1.0'',
      [],
      ''Usage:'',
      ''  veloxdb [--config ./veloxdb.toml] [options]'',
      [],
      ''Options:'',
      ''  --host <addr>                         Listen address (default 0.0.0.0)'',
      ''  --port <port>                         Listen port (default 7379)'',
      ''  --workers <n>                         Worker event loops'',
      ''  --max-clients <n>                     Connection limit'',
      ''  --storage-shards <n>                  Storage shard count'',
      ''  --max-memory <bytes|kb|mb|gb>         No-eviction write limit'',
      ''  --aof-enabled <true|false>            Enable append-only persistence'',
      ''  --aof-path <path>                     AOF path'',
      ''  --fsync-policy <always|everysec|no>   AOF fsync policy'',
      ''  --snapshot-path <path>                SAVE snapshot path'',
      ''  --manifest-path <path>                Snapshot/AOF manifest path'',
      ''  --log-level <trace|debug|info|warn|error|off>'',
      ''  --shutdown-enabled <true|false>       Enable SHUTDOWN command'',
      ''  --max-request-bytes <n>'',
      ''  --max-key-size <bytes|kb|mb|gb>'',
      ''  --max-value-size <bytes|kb|mb|gb>'',
      ''  --expiration-active <true|false>'',
      ''  --expiration-interval-ms <n>''])"

record ConfigLoadResult =
  cl_config :: Config
  cl_status :: status
  cl_show_help :: bool
  cl_help_text :: string

text \<open>\<open>argv\<close> is the list of the arguments after the program name.\<close>

definition load_config ::
  "(string \<Rightarrow> string option) \<Rightarrow> (string \<Rightarrow> string option) \<Rightarrow> string list \<Rightarrow> ConfigLoadResult" where
  "load_config getenv read_text argv =
     (let res = (\<lambda>st c. \<lparr>cl_config = c, cl_status = st, cl_show_help = False, cl_help_text = help_text\<rparr>) in
      case scan_args argv [] of
        Scan_Help \<Rightarrow> (res status_ok default_config)\<lparr>cl_show_help := True\<rparr>
      | Scan_Error st \<Rightarrow> res st default_config
      | Scan_Path path \<Rightarrow>
          (case (if path \<noteq> [] then load_file read_text default_config path else (status_ok, default_config)) of
             (st1, c1) \<Rightarrow>
               if \<not> ok_status st1 then res st1 c1
               else (case apply_env getenv c1 of (st2, c2) \<Rightarrow>
                 if \<not> ok_status st2 then res st2 c2
                 else (case cli_loop c2 argv of (st3, c3) \<Rightarrow>
                   if \<not> ok_status st3 then res st3 c3
                   else res status_ok (clamp_config c3)))))"


section \<open>What a loaded configuration satisfies\<close>

text \<open>
  \<open>config_ok\<close>: every number is within its machine type and the fsync policy is one of the
  three that \<open>Aof\<close> knows.
\<close>

definition config_ok :: "Config \<Rightarrow> bool" where
  "config_ok c \<longleftrightarrow>
     port (server c) \<le> 65535 \<and> workers (server c) \<le> u64_max \<and> max_clients (server c) \<le> u64_max \<and>
     shards (storage_cfg c) \<le> u64_max \<and> max_memory_bytes (storage_cfg c) \<le> u64_max \<and>
     fsync_policy (persistence c) \<in> {''always'', ''everysec'', ''no''} \<and>
     interval_ms (expiration c) \<le> u64_max \<and> sample_per_shard (expiration c) \<le> u64_max \<and>
     max_request_bytes (protocol c) \<le> u64_max \<and> max_array_elements (protocol c) \<le> u64_max \<and>
     max_key_size (protocol c) \<le> u64_max \<and> max_value_size (protocol c) \<le> u64_max \<and>
     max_output_buffer_bytes (protocol c) \<le> u64_max"

lemma setter_range:
  "set_u16 out v n = (st, x) \<Longrightarrow> out \<le> 65535 \<Longrightarrow> x \<le> 65535"
  "set_size out v n = (st, x) \<Longrightarrow> out \<le> u64_max \<Longrightarrow> x \<le> u64_max"
  "set_bytes out v n = (st, x) \<Longrightarrow> out \<le> u64_max \<Longrightarrow> x \<le> u64_max"
  using parse_byte_size_range
  by (auto simp: set_u16_def set_size_def set_bytes_def split: option.splits if_splits)

lemma setter_range_snd [simp]:
  "out \<le> 65535 \<Longrightarrow> snd (set_u16 out v n) \<le> 65535"
  "out \<le> u64_max \<Longrightarrow> snd (set_size out v n) \<le> u64_max"
  "out \<le> u64_max \<Longrightarrow> snd (set_bytes out v n) \<le> u64_max"
  using setter_range by (metis prod.collapse)+

lemmas on_defs = on_server_def on_storage_def on_persistence_def on_expiration_def on_protocol_def

lemma default_config_ok: "config_ok default_config"
  by (simp add: config_ok_def evals)


lemma branch_ok: "config_ok (snd x) \<Longrightarrow> config_ok (snd y) \<Longrightarrow> config_ok (snd (if b then x else y))"
  by simp

lemma policy_branch_ok:
  "config_ok c \<Longrightarrow> config_ok (snd (if p \<noteq> ''always'' \<and> p \<noteq> ''everysec'' \<and> p \<noteq> ''no'' then (st, c)
     else (st', on_persistence (\<lambda>s. s\<lparr>fsync_policy := p\<rparr>) c)))"
  by (auto simp: config_ok_def on_defs)

lemma interval_branch_ok:
  "config_ok c \<Longrightarrow> config_ok (snd (case parse_u64 v of None \<Rightarrow> (st, c)
     | Some n \<Rightarrow> (st', on_expiration (\<lambda>s. s\<lparr>interval_ms := n\<rparr>) c)))"
  using parse_u64_range by (auto simp: config_ok_def on_defs split: option.split)

lemma apply_kv_ok: "config_ok c \<Longrightarrow> config_ok (snd (apply_kv c key value))"
  unfolding apply_kv_def Let_def
  by (intro policy_branch_ok interval_branch_ok branch_ok)
     (simp_all add: assign_def config_ok_def on_defs)

lemma load_lines_ok: "config_ok c \<Longrightarrow> config_ok (snd (load_lines c sect n ls))"
proof (induction c sect n ls rule: load_lines.induct)
  case (2 c sect n l ls)
  then show ?case
    using apply_kv_ok [OF 2(4)]
    by (auto simp: Let_def split: option.splits prod.splits) (metis snd_conv)+
qed simp


lemma load_file_ok: "config_ok c \<Longrightarrow> config_ok (snd (load_file read_text c path))"
  by (auto simp: load_file_def load_lines_ok split: option.split)

lemma apply_env_from_ok: "config_ok c \<Longrightarrow> config_ok (snd (apply_env_from getenv es c))"
proof (induction getenv es c rule: apply_env_from.induct)
  case (2 getenv env key es c)
  then show ?case
    using apply_kv_ok [OF 2(3)]
    by (auto split: option.splits prod.splits) (metis snd_conv)+
qed simp

lemma apply_cli_pair_ok: "config_ok c \<Longrightarrow> config_ok (snd (apply_cli_pair c name value))"
  by (auto simp: apply_cli_pair_def apply_kv_ok split: option.split)

text \<open>
  One round of the option loop: it stops with success, stops with an error after at most one
  assignment, or goes on with fewer arguments after at most one assignment.
\<close>

definition cli_assigns :: "Config \<Rightarrow> Config \<Rightarrow> bool" where
  "cli_assigns c c' \<longleftrightarrow> c' = c \<or> (\<exists>n v. c' = snd (apply_cli_pair c n v))"

lemma cli_pair_step:
  fixes k :: "Config \<Rightarrow> status \<times> Config"
  shows "let r = (case apply_cli_pair c n v of (st, c') \<Rightarrow> if \<not> ok_status st then (st, c') else k c') in
    (\<not> ok_status (fst r) \<and> cli_assigns c (snd r)) \<or> (\<exists>c'. cli_assigns c c' \<and> r = k c')"
proof -
  obtain st c' where pair: "apply_cli_pair c n v = (st, c')" by (cases "apply_cli_pair c n v")
  then have "cli_assigns c c'" unfolding cli_assigns_def by (metis snd_conv)
  with pair show ?thesis by (auto simp: Let_def)
qed

lemma cli_loop_step:
  "cli_loop c (a # as) = r \<Longrightarrow> r = (status_ok, c) \<or> (\<not> ok_status (fst r) \<and> cli_assigns c (snd r))
     \<or> (\<exists>c' as'. cli_assigns c c' \<and> length as' \<le> length as \<and> r = cli_loop c' as')"
proof -
  assume r: "cli_loop c (a # as) = r"
  have same: "cli_assigns c c" by (simp add: cli_assigns_def)
  consider (path) "a = ''--config''" | (path_eq) "a \<noteq> ''--config''" "take 9 a = ''--config=''"
    | (positional) "a \<noteq> ''--config''" "take 9 a \<noteq> ''--config=''" "take 2 a \<noteq> ''--''"
    | (opt) "a \<noteq> ''--config''" "take 9 a \<noteq> ''--config=''" "take 2 a = ''--''" by blast
  then show ?thesis
  proof cases
    case path
    show ?thesis
    proof (cases as)
      case (Cons b bs)
      with path r have "r = cli_loop c bs" by simp
      with same Cons show ?thesis by force
    qed (use path r in simp)
  next
    case path_eq
    with r have "r = cli_loop c as" by simp
    with same show ?thesis by blast
  next
    case positional
    with r same show ?thesis by auto
  next
    case opt
    show ?thesis
    proof (cases "split_at_char (CHR ''='') a")
      case None
      show ?thesis
      proof (cases as)
        case (Cons v as')
        with opt None r cli_pair_step [where c = c and n = "drop 2 a" and v = v and k = "\<lambda>c'. cli_loop c' as'"]
        show ?thesis by (simp add: Let_def) (metis le_SucI order_refl)
      qed (use opt None r same in auto)
    next
      case (Some p)
      obtain k v where p: "p = (k, v)" by (cases p)
      with Some opt r cli_pair_step [where c = c and n = "drop 2 k" and v = v and k = "\<lambda>c'. cli_loop c' as"]
      show ?thesis by (simp add: Let_def) blast
    qed
  qed
qed

lemma cli_assigns_ok: "cli_assigns c c' \<Longrightarrow> config_ok c \<Longrightarrow> config_ok c'"
  by (auto simp: cli_assigns_def apply_cli_pair_ok)

lemma cli_loop_ok:
  "config_ok c \<Longrightarrow> config_ok (snd (cli_loop c as)) \<and> (ok_status (fst (cli_loop c as)) \<longrightarrow> fst (cli_loop c as) = status_ok)"
proof (induction as arbitrary: c rule: length_induct)
  case (1 as)
  show ?case
  proof (cases as)
    case (Cons a rest)
    from cli_loop_step [OF refl, of c a rest] 1 Cons cli_assigns_ok show ?thesis
      by (force simp: less_Suc_eq_le)
  qed (use 1 in simp)
qed

lemma scan_error_not_ok: "scan_args argv p = Scan_Error st \<Longrightarrow> \<not> ok_status st"
proof (induction argv p rule: scan_args.induct)
  case (2 a as p)
  show ?case
  proof (cases "a = ''--help'' \<or> a = ''-h''")
    case nohelp: False
    show ?thesis
    proof (cases "a = ''--config''")
      case True
      with 2(1) [OF nohelp True] 2(4) nohelp show ?thesis by (cases as) auto
    next
      case config: False
      show ?thesis
      proof (cases "take 9 a = ''--config=''")
        case True
        from 2(4) nohelp config True have "scan_args as (drop 9 a) = Scan_Error st" by simp
        then show ?thesis by (rule 2(2) [OF nohelp config True])
      next
        case False
        from 2(4) nohelp config False have "scan_args as p = Scan_Error st" by simp
        then show ?thesis by (rule 2(3) [OF nohelp config False])
      qed
    qed
  qed (use 2(4) in auto)
qed simp

lemma clamp_config_ok: "config_ok c \<Longrightarrow> config_ok (clamp_config c)"
  by (auto simp: config_ok_def clamp_config_def on_defs at_least_one_def u64_max_def)

lemma clamp_config_positive:
  "workers (server (clamp_config c)) \<ge> 1" "shards (storage_cfg (clamp_config c)) \<ge> 1"
  "interval_ms (expiration (clamp_config c)) \<ge> 1"
  by (simp_all add: clamp_config_def on_defs at_least_one_def)

lemma apply_env_from_status: "ok_status (fst (apply_env_from getenv es c)) \<Longrightarrow> fst (apply_env_from getenv es c) = status_ok"
  by (induction getenv es c rule: apply_env_from.induct) (auto split: option.splits prod.splits if_splits)

text \<open>A successful load runs the three sources in order and clamps the result.\<close>

lemma load_config_result:
  assumes "ok_status (cl_status (load_config getenv read_text argv))"
    and "\<not> cl_show_help (load_config getenv read_text argv)"
  shows "\<exists>path c1 c2 c3. scan_args argv [] = Scan_Path path
    \<and> snd (if path \<noteq> [] then load_file read_text default_config path else (status_ok, default_config)) = c1
    \<and> ok_status (fst (if path \<noteq> [] then load_file read_text default_config path else (status_ok, default_config)))
    \<and> apply_env getenv c1 = (status_ok, c2) \<and> cli_loop c2 argv = (status_ok, c3)
    \<and> config_ok c3 \<and> cl_config (load_config getenv read_text argv) = clamp_config c3"
proof (cases "scan_args argv []")
  case (Scan_Path path)
  define r1 where "r1 = (if path \<noteq> [] then load_file read_text default_config path else (status_ok, default_config))"
  define r2 where "r2 = apply_env getenv (snd r1)"
  define r3 where "r3 = cli_loop (snd r2) argv"
  have "config_ok (snd r1)" by (simp add: r1_def load_file_ok default_config_ok)
  then have "config_ok (snd r2)" by (simp add: r2_def apply_env_def apply_env_from_ok)
  then have ok3: "config_ok (snd r3)" by (simp add: r3_def cli_loop_ok)
  have "load_config getenv read_text argv =
      (let res = (\<lambda>st c. \<lparr>cl_config = c, cl_status = st, cl_show_help = False, cl_help_text = help_text\<rparr>) in
       if \<not> ok_status (fst r1) then res (fst r1) (snd r1)
       else if \<not> ok_status (fst r2) then res (fst r2) (snd r2)
       else if \<not> ok_status (fst r3) then res (fst r3) (snd r3)
       else res status_ok (clamp_config (snd r3)))"
    unfolding load_config_def Scan_Path scan_result.case r1_def [symmetric]
    by (simp add: r2_def r3_def split: prod.split)
  with assms have "ok_status (fst r1)" "ok_status (fst r2)" "ok_status (fst r3)"
    and result: "cl_config (load_config getenv read_text argv) = clamp_config (snd r3)"
    by (auto simp: Let_def split: if_splits)
  then have "fst r2 = status_ok" "fst r3 = status_ok"
    using \<open>config_ok (snd r2)\<close> cli_loop_ok [of "snd r2" argv]
    by (auto simp: r2_def r3_def apply_env_def apply_env_from_status)
  with ok3 result show ?thesis
    using \<open>ok_status (fst r1)\<close> Scan_Path
    by (intro exI [of _ path] exI [of _ "snd r1"] exI [of _ "snd r2"] exI [of _ "snd r3"])
       (simp add: r1_def [symmetric] r2_def [symmetric] r3_def [symmetric] prod_eq_iff)
qed (use assms scan_error_not_ok in \<open>auto simp: load_config_def Let_def\<close>)


section \<open>Which source wins\<close>

text \<open>
  The settings that each source names, as pairs of a key and a value in the order they are named, and
  what it means to accept all settings of a list one after the other.
\<close>

type_synonym settings = "(string \<times> string) list"

fun file_settings :: "string \<Rightarrow> string list \<Rightarrow> settings" where
  "file_settings sect [] = []"
| "file_settings sect (l # ls) =
     (let line = trim (remove_comment l) in
      if line = [] then file_settings sect ls
      else if hd line = CHR ''['' \<and> last line = CHR '']'' then file_settings (trim (take (length line - 2) (drop 1 line))) ls
      else (case split_at_char (CHR ''='') line of
          None \<Rightarrow> []
        | Some (before, after) \<Rightarrow>
            (if sect = [] then trim before else sect @ ''.'' @ trim before, strip_quotes after) # file_settings sect ls))"

fun env_settings :: "(string \<Rightarrow> string option) \<Rightarrow> (string \<times> string) list \<Rightarrow> settings" where
  "env_settings getenv [] = []"
| "env_settings getenv ((env, key) # es) =
     (case getenv env of None \<Rightarrow> env_settings getenv es | Some v \<Rightarrow> (key, v) # env_settings getenv es)"

definition cli_setting :: "string \<Rightarrow> string \<Rightarrow> settings" where
  "cli_setting name v = (case map_of cli_aliases name of None \<Rightarrow> [] | Some key \<Rightarrow> [(key, v)])"

fun cli_settings :: "string list \<Rightarrow> settings" where
  "cli_settings [] = []"
| "cli_settings (a # as) =
     (if a = ''--config'' then cli_settings (drop 1 as)
      else if take 9 a = ''--config='' then cli_settings as
      else (case split_at_char (CHR ''='') a of
          Some (before, v) \<Rightarrow> cli_setting (drop 2 before) v @ cli_settings as
        | None \<Rightarrow> (case as of [] \<Rightarrow> [] | v # as' \<Rightarrow> cli_setting (drop 2 a) v @ cli_settings as')))"

definition config_file_settings :: "(string \<Rightarrow> string option) \<Rightarrow> string list \<Rightarrow> settings" where
  "config_file_settings read_text argv =
     (case scan_args argv [] of
        Scan_Path path \<Rightarrow>
          if path = [] then [] else (case read_text path of None \<Rightarrow> [] | Some content \<Rightarrow> file_settings [] (lines_of content))
      | _ \<Rightarrow> [])"

fun accept_settings :: "Config \<Rightarrow> settings \<Rightarrow> Config option" where
  "accept_settings c [] = Some c"
| "accept_settings c ((key, v) # ss) =
     (case apply_kv c key v of (st, c') \<Rightarrow> if ok_status st then accept_settings c' ss else None)"

lemma accept_settings_append:
  "accept_settings c (xs @ ys) = (case accept_settings c xs of None \<Rightarrow> None | Some c' \<Rightarrow> accept_settings c' ys)"
  by (induction c xs rule: accept_settings.induct) (auto split: prod.splits)

lemma load_lines_settings:
  "ok_status (fst (load_lines c sect n ls)) \<Longrightarrow> accept_settings c (file_settings sect ls) = Some (snd (load_lines c sect n ls))"
proof (induction c sect n ls rule: load_lines.induct)
  case (2 c sect n l ls)
  then show ?case by (auto simp: Let_def split: if_splits option.splits prod.splits)
qed simp

lemma apply_env_settings:
  "ok_status (fst (apply_env_from getenv es c)) \<Longrightarrow> accept_settings c (env_settings getenv es) = Some (snd (apply_env_from getenv es c))"
  by (induction getenv es c rule: apply_env_from.induct) (auto split: option.splits prod.splits if_splits)

lemma cli_setting_accepted:
  "apply_cli_pair c name v = (st, c') \<Longrightarrow> ok_status st \<Longrightarrow> accept_settings c (cli_setting name v) = Some c'"
  by (auto simp: apply_cli_pair_def cli_setting_def split: option.splits)

lemma cli_loop_settings:
  "ok_status (fst (cli_loop c argv)) \<Longrightarrow> accept_settings c (cli_settings argv) = Some (snd (cli_loop c argv))"
proof (induction c argv rule: cli_loop.induct)
  case (2 c a as)
  then show ?case
    by (auto simp: accept_settings_append cli_setting_accepted split: if_splits option.splits prod.splits list.splits)
qed simp

lemma load_config_settings:
  assumes "ok_status (cl_status (load_config getenv read_text argv))"
    and "\<not> cl_show_help (load_config getenv read_text argv)"
  shows "\<exists>c. accept_settings default_config
      (config_file_settings read_text argv @ env_settings getenv env_entries @ cli_settings argv) = Some c
    \<and> cl_config (load_config getenv read_text argv) = clamp_config c"
proof -
  obtain path c1 c2 c3 where path: "scan_args argv [] = Scan_Path path"
    and r1: "snd (if path \<noteq> [] then load_file read_text default_config path else (status_ok, default_config)) = c1"
      "ok_status (fst (if path \<noteq> [] then load_file read_text default_config path else (status_ok, default_config)))"
    and r2: "apply_env getenv c1 = (status_ok, c2)" and r3: "cli_loop c2 argv = (status_ok, c3)"
    and result: "cl_config (load_config getenv read_text argv) = clamp_config c3"
    using load_config_result [OF assms] by blast
  have "accept_settings default_config (config_file_settings read_text argv) = Some c1"
    using r1 path load_lines_settings
    by (auto simp: config_file_settings_def load_file_def split: option.splits if_splits)
  moreover have "accept_settings c1 (env_settings getenv env_entries) = Some c2"
    using apply_env_settings [of getenv env_entries c1] r2 by (simp add: apply_env_def)
  moreover have "accept_settings c2 (cli_settings argv) = Some c3"
    using cli_loop_settings [of c2 argv] r3 by simp
  ultimately show ?thesis using result by (simp add: accept_settings_append)
qed

lemma port_branch:
  "port (server (snd x)) = p \<Longrightarrow> port (server (snd y)) = p \<Longrightarrow> port (server (snd (if b then x else y))) = p"
  by simp

lemma apply_kv_keeps_port:
  "key \<noteq> ''server.port'' \<Longrightarrow> port (server (snd (apply_kv c key v))) = port (server c)"
  unfolding apply_kv_def Let_def
  by (simp only: if_False, intro port_branch) (simp_all add: assign_def on_defs split: option.split)

lemma apply_kv_sets_port:
  "ok_status (fst (apply_kv c ''server.port'' v)) \<Longrightarrow>
     parse_u64 (strip_quotes v) = Some (port (server (snd (apply_kv c ''server.port'' v))))"
  by (auto simp: apply_kv_def assign_def set_u16_def on_defs Let_def split: option.splits if_splits)

lemma accept_settings_port:
  "accept_settings c ss = Some c' \<Longrightarrow>
     Some (port (server c')) = (case map_of (rev ss) ''server.port'' of None \<Rightarrow> Some (port (server c)) | Some v \<Rightarrow> parse_u64 (strip_quotes v))"
proof (induction ss arbitrary: c' rule: rev_induct)
  case (snoc s ss)
  obtain k v where s: "s = (k, v)" by (cases s)
  obtain c1 where c1: "accept_settings c ss = Some c1" using snoc.prems by (auto simp: accept_settings_append split: option.splits)
  with snoc.prems s have st: "ok_status (fst (apply_kv c1 k v))" and c': "c' = snd (apply_kv c1 k v)"
    by (auto simp: accept_settings_append split: prod.splits if_splits)
  show ?case
  proof (cases "k = ''server.port''")
    case True
    with apply_kv_sets_port [of c1 v] st c' s show ?thesis by simp
  next
    case False
    with snoc.IH [OF c1] apply_kv_keeps_port [of k c1 v] c' s show ?thesis by simp
  qed
qed simp

text \<open>A rejected assignment leaves the configuration as it was.\<close>

lemma atomic_branch:
  "(\<not> ok_status (fst x) \<longrightarrow> snd x = c) \<Longrightarrow> (\<not> ok_status (fst y) \<longrightarrow> snd y = c) \<Longrightarrow>
   (\<not> ok_status (fst (if b then x else y)) \<longrightarrow> snd (if b then x else y) = c)"
  by simp

lemma atomic_setters:
  "\<not> ok_status (fst (set_u16 out v n)) \<Longrightarrow> snd (set_u16 out v n) = out"
  "\<not> ok_status (fst (set_size out v n)) \<Longrightarrow> snd (set_size out v n) = out"
  "\<not> ok_status (fst (set_bool b v n)) \<Longrightarrow> snd (set_bool b v n) = b"
  "\<not> ok_status (fst (set_bytes out v n)) \<Longrightarrow> snd (set_bytes out v n) = out"
  by (auto simp: set_u16_def set_size_def set_bool_def set_bytes_def split: option.splits if_splits)

lemma atomic_interval:
  "\<not> ok_status (fst (case parse_u64 v of None \<Rightarrow> (st, c) | Some n \<Rightarrow> (status_ok, f n)))
    \<longrightarrow> snd (case parse_u64 v of None \<Rightarrow> (st, c) | Some n \<Rightarrow> (status_ok, f n)) = c"
  by (simp split: option.split)

lemma apply_kv_atomic: "\<not> ok_status (fst (apply_kv c key v)) \<longrightarrow> snd (apply_kv c key v) = c"
  unfolding apply_kv_def Let_def
  by (intro atomic_branch atomic_interval) (simp_all add: assign_def on_defs atomic_setters)


lemmas [evals] = strip_quotes_def remove_comment_def set_u16_def set_size_def set_bool_def set_bytes_def
  on_defs assign_def apply_kv_def load_file_def env_entries_def apply_env_def cli_aliases_def
  apply_cli_pair_def at_least_one_def clamp_config_def load_config_def config_ok_def
  config_file_settings_def cli_setting_def


section \<open>Properties\<close>

text \<open>
  C34. A configuration that \<open>ConfigLoader::load\<close> returns for starting the server has all its
  numbers within their machine types, a known fsync policy, at least one worker, at least one
  shard, and a positive expiration interval.
\<close>

theorem loaded_config_valid:
  assumes r: "r = load_config getenv read_text argv"
    and "ok_status (cl_status r)" and "\<not> cl_show_help r"
  shows "config_ok (cl_config r) \<and> workers (server (cl_config r)) \<ge> 1
    \<and> shards (storage_cfg (cl_config r)) \<ge> 1 \<and> interval_ms (expiration (cl_config r)) \<ge> 1"
  using load_config_result [OF assms(2,3) [unfolded r]] clamp_config_ok clamp_config_positive
  by (auto simp: r)

theorem loaded_config_valid_witness:
  "workers (server (cl_config (load_config (\<lambda>_. None) (\<lambda>_. None) [''--workers'', ''0'']))) \<ge> 1"
proof -
  let ?r = "load_config (\<lambda>_. None) (\<lambda>_. None) [''--workers'', ''0'']"
  have "ok_status (cl_status ?r)" "\<not> cl_show_help ?r" by (simp_all add: evals)
  then show ?thesis using loaded_config_valid [OF refl] by blast
qed

text \<open>
  C33. The sources override each other in the order defaults, file, environment, command line.  A successful
  load is the same as accepting the settings of the file, then those of the environment, then the
  options, each list in its order, on top of the defaults.  So the port is the one that the last option
  for it names; without one, that of the environment; without that, that of the last line for it in
  the file; and the default otherwise.
\<close>

theorem config_precedence:
  assumes "r = load_config getenv read_text argv" and "ok_status (cl_status r)" and "\<not> cl_show_help r"
    and "from_file = config_file_settings read_text argv" and "from_env = env_settings getenv env_entries"
  shows "(\<exists>c. accept_settings default_config (from_file @ from_env @ cli_settings argv) = Some c \<and> cl_config r = clamp_config c)
    \<and> Some (port (server (cl_config r))) =
       (case map_of (rev (cli_settings argv)) ''server.port'' of Some v \<Rightarrow> parse_u64 (strip_quotes v)
        | None \<Rightarrow> (case map_of (rev from_env) ''server.port'' of Some v \<Rightarrow> parse_u64 (strip_quotes v)
        | None \<Rightarrow> (case map_of (rev from_file) ''server.port'' of Some v \<Rightarrow> parse_u64 (strip_quotes v)
        | None \<Rightarrow> Some (port (server default_config)))))"
proof -
  obtain c where c: "accept_settings default_config (from_file @ from_env @ cli_settings argv) = Some c" and r: "cl_config r = clamp_config c"
    using load_config_settings [OF assms(2,3) [unfolded assms(1)]] assms(1,4,5) by auto
  have "port (server (cl_config r)) = port (server c)" by (simp add: r clamp_config_def on_defs)
  with accept_settings_port [OF c] c r show ?thesis by (auto simp: map_add_def split: option.splits)
qed

theorem config_precedence_witness:
  "port (server (cl_config (load_config ((\<lambda>_. None)(''VELOXDB_PORT'' := Some ''4'')) (\<lambda>_. Some ''server.port=5'') [''--config=f'', ''--port=2'', ''--port=3'']))) = 3
   \<and> port (server (cl_config (load_config ((\<lambda>_. None)(''VELOXDB_PORT'' := Some ''4'')) (\<lambda>_. Some ''server.port=5'') [''--config=f'']))) = 4
   \<and> port (server (cl_config (load_config (\<lambda>_. None) (\<lambda>_. Some ''server.port=5'') [''--config=f'']))) = 5"
proof -
  let ?env = "(\<lambda>_. None)(''VELOXDB_PORT'' := Some ''4'')" and ?text = "\<lambda>_. Some ''server.port=5''"
  let ?all = "load_config ?env ?text [''--config=f'', ''--port=2'', ''--port=3'']"
    and ?two = "load_config ?env ?text [''--config=f'']" and ?one = "load_config (\<lambda>_. None) ?text [''--config=f'']"
  have run: "ok_status (cl_status ?all)" "\<not> cl_show_help ?all" "ok_status (cl_status ?two)" "\<not> cl_show_help ?two"
      "ok_status (cl_status ?one)" "\<not> cl_show_help ?one"
    by (simp_all add: evals)
  have sets: "config_file_settings ?text [''--config=f''] = [(''server.port'', ''5'')]"
      "env_settings ?env env_entries = [(''server.port'', ''4'')]" "env_settings (\<lambda>_. None) env_entries = []"
      "cli_settings [''--config=f'', ''--port=2'', ''--port=3''] = [(''server.port'', ''2''), (''server.port'', ''3'')]"
      "cli_settings [''--config=f''] = []"
    by (simp_all add: evals)
  have nums: "parse_u64 (strip_quotes ''3'') = Some 3" "parse_u64 (strip_quotes ''4'') = Some 4" "parse_u64 (strip_quotes ''5'') = Some 5"
    by (simp_all add: evals)
  show ?thesis
    using config_precedence [OF refl run(1,2) refl refl, THEN conjunct2, unfolded sets]
      config_precedence [OF refl run(3,4) refl refl, THEN conjunct2, unfolded sets]
      config_precedence [OF refl run(5,6) refl refl, THEN conjunct2, unfolded sets] by (simp add: nums)
qed

text \<open>
  C35. A rejected setting changes nothing: when \<open>apply_kv\<close> reports an error (unknown key, number
  out of range, malformed value) the configuration is the one before the call, and an option
  name outside the alias table is always rejected.
\<close>

theorem rejected_setting_changes_nothing:
  assumes "\<not> ok_status (fst (apply_kv c key v))" and "map_of cli_aliases name = None"
  shows "snd (apply_kv c key v) = c \<and> \<not> ok_status (fst (apply_cli_pair c name v))
    \<and> snd (apply_cli_pair c name v) = c"
  using apply_kv_atomic assms by (simp add: apply_cli_pair_def)


theorem rejected_setting_changes_nothing_witness:
  "snd (apply_kv default_config ''server.port'' ''70000'') = default_config"
proof -
  have "\<not> ok_status (fst (apply_kv default_config ''server.port'' ''70000''))"
    and "map_of cli_aliases ''prot'' = None"
    by (simp_all add: evals)
  then show ?thesis by (rule rejected_setting_changes_nothing [THEN conjunct1])
qed

end
