(* ===== verification/Os.thy ===== *)
theory Os
  imports Status_Codes
begin

text \<open>
  The part of the operating system that the persistence layer calls: \<open>open\<close>, \<open>write\<close>,
  \<open>fsync\<close>, \<open>close\<close> and what \<open>std::filesystem\<close> and the file streams do with a path.

  A name refers to an inode, an inode holds bytes, and a file descriptor is an inode: a
  descriptor stays on its file when the name is replaced by \<open>rename\<close>.  \<open>os_synced\<close> is the
  length of the prefix of a file that an \<open>fsync\<close> has put on stable storage.  Directories are
  not represented.  Every call can fail: its outcome is the next one of \<open>os_script\<close>, and a
  call after the end of the script succeeds.  Error texts of \<open>errno\<close> are part of the script.
\<close>

datatype outcome = Done | Partial nat | Interrupted | Failed string

record os =
  os_names :: "string \<Rightarrow> nat option"
  os_data :: "nat \<Rightarrow> string"
  os_synced :: "nat \<Rightarrow> nat"
  os_next :: nat
  os_pid :: nat
  os_script :: "outcome list"

definition empty_os :: "nat \<Rightarrow> outcome list \<Rightarrow> os" where
  "empty_os pid script =
     \<lparr>os_names = (\<lambda>_. None), os_data = (\<lambda>_. []), os_synced = (\<lambda>_. 0), os_next = 0, os_pid = pid,
      os_script = script\<rparr>"

definition next_outcome :: "os \<Rightarrow> outcome \<times> os" where
  "next_outcome s =
     (case os_script s of [] \<Rightarrow> (Done, s) | x # rest \<Rightarrow> (x, s\<lparr>os_script := rest\<rparr>))"

text \<open>The error of a call other than \<open>write\<close>, if any.\<close>

definition outcome_error :: "outcome \<Rightarrow> string option" where
  "outcome_error x =
     (case x of Done \<Rightarrow> None | Partial n \<Rightarrow> None | Interrupted \<Rightarrow> Some ''Interrupted system call''
      | Failed e \<Rightarrow> Some e)"

definition sys_call :: "os \<Rightarrow> string option \<times> os" where
  "sys_call s = (case next_outcome s of (x, s') \<Rightarrow> (outcome_error x, s'))"


section \<open>Calls\<close>

text \<open>\<open>open\<close> for writing with \<open>O_CREAT\<close>, and \<open>O_TRUNC\<close> when \<open>trunc\<close>; \<open>Inl\<close> is the error.\<close>

definition open_existing :: "bool \<Rightarrow> nat \<Rightarrow> os \<Rightarrow> os" where
  "open_existing trunc ino s =
     (if trunc then s\<lparr>os_data := (os_data s)(ino := []), os_synced := (os_synced s)(ino := 0)\<rparr> else s)"

definition create_file :: "string \<Rightarrow> os \<Rightarrow> os" where
  "create_file path s =
     s\<lparr>os_names := (os_names s)(path := Some (os_next s)), os_data := (os_data s)(os_next s := []),
       os_synced := (os_synced s)(os_next s := 0), os_next := os_next s + 1\<rparr>"

definition sys_open :: "bool \<Rightarrow> string \<Rightarrow> os \<Rightarrow> (string + nat) \<times> os" where
  "sys_open trunc path s =
     (case sys_call s of
        (Some e, s1) \<Rightarrow> (Inl e, s1)
      | (None, s1) \<Rightarrow>
          (case os_names s1 path of
             Some ino \<Rightarrow> (Inr ino, open_existing trunc ino s1)
           | None \<Rightarrow> (Inr (os_next s1), create_file path s1)))"

datatype write_result = Wrote nat | Write_Interrupted | Write_Error string

definition append_data :: "nat \<Rightarrow> string \<Rightarrow> os \<Rightarrow> os" where
  "append_data ino bs s = s\<lparr>os_data := (os_data s)(ino := os_data s ino @ bs)\<rparr>"

definition sys_write :: "nat \<Rightarrow> string \<Rightarrow> os \<Rightarrow> write_result \<times> os" where
  "sys_write ino bs s =
     (case next_outcome s of (x, s1) \<Rightarrow>
        (case x of
           Done \<Rightarrow> (Wrote (length bs), append_data ino bs s1)
         | Partial n \<Rightarrow> (Wrote (min n (length bs)), append_data ino (take n bs) s1)
         | Interrupted \<Rightarrow> (Write_Interrupted, s1)
         | Failed e \<Rightarrow> (Write_Error e, s1)))"

definition sys_fsync :: "nat \<Rightarrow> os \<Rightarrow> string option \<times> os" where
  "sys_fsync ino s =
     (case sys_call s of
        (Some e, s1) \<Rightarrow> (Some e, s1)
      | (None, s1) \<Rightarrow> (None, s1\<lparr>os_synced := (os_synced s1)(ino := length (os_data s1 ino))\<rparr>))"

definition sys_close :: "os \<Rightarrow> string option \<times> os" where
  "sys_close s = sys_call s"

definition sys_rename :: "string \<Rightarrow> string \<Rightarrow> os \<Rightarrow> string option \<times> os" where
  "sys_rename src dst s =
     (case sys_call s of
        (Some e, s1) \<Rightarrow> (Some e, s1)
      | (None, s1) \<Rightarrow>
          (case os_names s1 src of
             None \<Rightarrow> (Some ''No such file or directory'', s1)
           | Some ino \<Rightarrow> (None, s1\<lparr>os_names := (os_names s1)(src := None, dst := Some ino)\<rparr>)))"

definition sys_remove :: "string \<Rightarrow> os \<Rightarrow> string option \<times> os" where
  "sys_remove path s =
     (case sys_call s of
        (Some e, s1) \<Rightarrow> (Some e, s1)
      | (None, s1) \<Rightarrow> (None, s1\<lparr>os_names := (os_names s1)(path := None)\<rparr>))"

definition sys_exists :: "string \<Rightarrow> os \<Rightarrow> bool" where
  "sys_exists path s \<longleftrightarrow> os_names s path \<noteq> None"

definition sys_file_size :: "string \<Rightarrow> os \<Rightarrow> (string + nat) \<times> os" where
  "sys_file_size path s =
     (case sys_call s of
        (Some e, s1) \<Rightarrow> (Inl e, s1)
      | (None, s1) \<Rightarrow>
          (case os_names s1 path of
             None \<Rightarrow> (Inl ''No such file or directory'', s1)
           | Some ino \<Rightarrow> (Inr (length (os_data s1 ino)), s1)))"

text \<open>The bytes an input file stream reads; \<open>None\<close> when it does not open.\<close>

definition sys_read_file :: "string \<Rightarrow> os \<Rightarrow> string option \<times> os" where
  "sys_read_file path s =
     (case sys_call s of
        (Some e, s1) \<Rightarrow> (None, s1)
      | (None, s1) \<Rightarrow> (map_option (os_data s1) (os_names s1 path), s1))"

text \<open>The text of a \<open>std::error_code\<close> that the last call set or cleared.\<close>

definition ec_message :: "string option \<Rightarrow> string" where
  "ec_message ec = (case ec of None \<Rightarrow> ''Success'' | Some e \<Rightarrow> e)"


section \<open>Paths\<close>

definition path_is_safe :: "string \<Rightarrow> bool" where
  "path_is_safe path \<longleftrightarrow> path \<noteq> [] \<and> CHR 0x00 \<notin> set path"

text \<open>
  \<open>std::filesystem::path::parent_path\<close>: without the file name and the separators before it,
  except those of the root directory.
\<close>

definition parent_path :: "string \<Rightarrow> string" where
  "parent_path path =
     (let dir = rev (dropWhile (\<lambda>c. c \<noteq> CHR ''/'') (rev path));
          stripped = rev (dropWhile (\<lambda>c. c = CHR ''/'') (rev dir))
      in if dir \<noteq> [] \<and> stripped = [] then ''/'' else stripped)"

lemmas [evals] = empty_os_def next_outcome_def outcome_error_def sys_call_def open_existing_def
  create_file_def sys_open_def append_data_def sys_write_def sys_fsync_def sys_close_def
  sys_rename_def sys_remove_def sys_exists_def sys_file_size_def sys_read_file_def ec_message_def
  path_is_safe_def parent_path_def


section \<open>What the calls keep\<close>

text \<open>
  \<open>fs_ok\<close>: the inodes of names are allocated and no two names share one.  \<open>file_at\<close> is the
  content under a name.
\<close>

definition fs_ok :: "os \<Rightarrow> bool" where
  "fs_ok s \<longleftrightarrow> (\<forall>p ino. os_names s p = Some ino \<longrightarrow> ino < os_next s) \<and>
     (\<forall>p q ino. os_names s p = Some ino \<longrightarrow> os_names s q = Some ino \<longrightarrow> p = q)"

definition file_at :: "os \<Rightarrow> string \<Rightarrow> string option" where
  "file_at s path = map_option (os_data s) (os_names s path)"

text \<open>Two states with the same files; only the script has moved on.\<close>

definition same_files :: "os \<Rightarrow> os \<Rightarrow> bool" where
  "same_files s s' \<longleftrightarrow> os_names s' = os_names s \<and> os_data s' = os_data s \<and> os_synced s' = os_synced s
     \<and> os_next s' = os_next s \<and> os_pid s' = os_pid s"

lemma same_files_refl [simp]: "same_files s s"
  by (simp add: same_files_def)

lemma same_files_trans: "same_files a b \<Longrightarrow> same_files b c \<Longrightarrow> same_files a c"
  by (simp add: same_files_def)

lemma same_files_file: "same_files s s' \<Longrightarrow> file_at s' = file_at s"
  by (rule ext) (simp add: same_files_def file_at_def)

lemma same_files_ok: "same_files s s' \<Longrightarrow> fs_ok s' = fs_ok s"
  by (simp add: same_files_def fs_ok_def)

lemma next_outcome_files: "next_outcome s = (x, s') \<Longrightarrow> same_files s s'"
  by (auto simp: next_outcome_def same_files_def split: list.splits)

lemma next_outcome_script: "next_outcome s = (x, s') \<Longrightarrow> length (os_script s') \<le> length (os_script s)"
  by (auto simp: next_outcome_def split: list.splits)

lemma sys_call_files: "sys_call s = (r, s') \<Longrightarrow> same_files s s'"
  by (auto simp: sys_call_def next_outcome_files split: prod.splits)

text \<open>Without faults.\<close>

lemma no_fault_calls [simp]:
  assumes "os_script s = []"
  shows "next_outcome s = (Done, s)" and "sys_call s = (None, s)" and "sys_close s = (None, s)"
    and "sys_write ino bs s = (Wrote (length bs), append_data ino bs s)"
  using assms by (simp_all add: next_outcome_def sys_call_def sys_close_def sys_write_def outcome_error_def)

lemma append_data_simps [simp]:
  "os_names (append_data i bs s) = os_names s" "os_synced (append_data i bs s) = os_synced s"
  "os_next (append_data i bs s) = os_next s" "os_pid (append_data i bs s) = os_pid s"
  "os_script (append_data i bs s) = os_script s"
  "os_data (append_data i bs s) = (os_data s)(i := os_data s i @ bs)"
  by (simp_all add: append_data_def)

lemma append_data_append [simp]: "append_data i bs (append_data i as s) = append_data i (as @ bs) s"
  by (simp add: append_data_def)

lemma append_data_nil [simp]: "append_data i [] s = s"
  by (simp add: append_data_def)

lemma append_data_ok [simp]: "fs_ok (append_data i bs s) = fs_ok s"
  by (simp add: fs_ok_def)

lemma sys_write_progress:
  "sys_write fd bs s = (Write_Interrupted, s') \<Longrightarrow> length (os_script s') < length (os_script s)"
  "sys_write fd bs s = (Wrote n, s') \<Longrightarrow> length (os_script s') \<le> length (os_script s) \<and> n \<le> length bs"
  by (auto simp: sys_write_def next_outcome_def split: list.splits outcome.splits)

text \<open>The files after a write: the bytes counted as written are at the end of the file.\<close>

lemma sys_write_files:
  "sys_write fd bs s = (Wrote n, s') \<Longrightarrow> n \<le> length bs \<and> same_files (append_data fd (take n bs) s) s'"
  "sys_write fd bs s = (Write_Interrupted, s') \<Longrightarrow> same_files s s'"
  "sys_write fd bs s = (Write_Error e, s') \<Longrightarrow> same_files s s'"
  by (auto simp: sys_write_def next_outcome_def same_files_def min_def split: list.splits outcome.splits)

lemma same_files_append: "same_files s s' \<Longrightarrow> same_files (append_data i bs s) (append_data i bs s')"
  by (simp add: same_files_def)

lemma create_file_ok: "fs_ok s \<Longrightarrow> fs_ok (create_file path s)"
  unfolding fs_ok_def create_file_def by (auto simp: less_Suc_eq split: if_splits)

lemma open_existing_ok [simp]: "fs_ok (open_existing trunc ino s) = fs_ok s"
  by (simp add: fs_ok_def open_existing_def)

end
