(* ===== verification/Aof.thy ===== *)
theory Aof
  imports Os Resp_Stream Storage_Sweep
begin

text \<open>
  The append-only file of \<open>include/veloxdb/persistence/aof.h\<close> and \<open>src/persistence/aof.cpp\<close>:
  opening, appending, syncing, rewriting and replaying the log.  An operation takes the state of
  the operating system and returns it changed.  Every operation that holds \<open>mu_\<close> or the
  exclusive side of \<open>rewrite_mu_\<close> is one atomic step; log output is left out.
\<close>


section \<open>Helpers\<close>

definition ensure_parent_dir :: "string \<Rightarrow> os \<Rightarrow> status \<times> os" where
  "ensure_parent_dir path s =
     (let parent = parent_path path in
      if parent \<noteq> [] then
        (case sys_call s of
           (Some e, s1) \<Rightarrow> (io_error (''failed to create directory '' @ parent @ '': '' @ e), s1)
         | (None, s1) \<Rightarrow> (status_ok, s1))
      else (status_ok, s))"

text \<open>
  The loop of \<open>write_all\<close> ends: a round either writes a non-empty part of the bytes, or it
  uses up an interruption of the script.
\<close>

function write_all :: "nat \<Rightarrow> string \<Rightarrow> os \<Rightarrow> status \<times> os" where
  "write_all fd bs s =
     (if bs = [] then (status_ok, s)
      else case sys_write fd bs s of
          (Write_Interrupted, s1) \<Rightarrow> write_all fd bs s1
        | (Write_Error e, s1) \<Rightarrow> (io_error e, s1)
        | (Wrote n, s1) \<Rightarrow>
            if n = 0 then (io_error ''write returned zero bytes'', s1)
            else write_all fd (drop n bs) s1)"
  by pat_completeness auto
termination
  by (relation "measure (\<lambda>(fd, bs, s). length (os_script s) + length bs)")
     (auto dest!: sys_write_progress [OF sym] simp: less_eq_Suc_le intro!: add_le_less_mono)

declare write_all.simps [simp del]
lemmas [evals] = ensure_parent_dir_def write_all.simps

definition sync_fd :: "nat \<Rightarrow> string \<Rightarrow> os \<Rightarrow> status \<times> os" where
  "sync_fd fd target s =
     (case sys_fsync fd s of
        (Some e, s1) \<Rightarrow> (io_error (''fsync failed for '' @ target @ '': '' @ e), s1)
      | (None, s1) \<Rightarrow> (status_ok, s1))"

definition close_fd :: "string \<Rightarrow> os \<Rightarrow> status \<times> os" where
  "close_fd target s =
     (case sys_close s of
        (Some e, s1) \<Rightarrow> (io_error (''failed to close '' @ target @ '': '' @ e), s1)
      | (None, s1) \<Rightarrow> (status_ok, s1))"

definition sync_parent_dir_best_effort :: "string \<Rightarrow> os \<Rightarrow> os" where
  "sync_parent_dir_best_effort path s =
     (if parent_path path = [] then s
      else case sys_call s of
          (Some e, s1) \<Rightarrow> s1
        | (None, s1) \<Rightarrow> snd (sys_close (snd (sys_call s1))))"

definition rewrite_tmp_path :: "nat \<Rightarrow> string \<Rightarrow> string" where
  "rewrite_tmp_path pid path = path @ ''.rewrite.'' @ nat_to_string pid @ ''.tmp''"

definition read_file :: "string \<Rightarrow> os \<Rightarrow> string \<times> os" where
  "read_file path s =
     (case sys_read_file path s of (None, s1) \<Rightarrow> ([], s1) | (Some content, s1) \<Rightarrow> (content, s1))"


section \<open>The log\<close>

datatype FsyncPolicy = Policy_Always | Policy_EverySec | Policy_No

text \<open>\<open>ao_sync_thread\<close> is whether the background thread that runs \<open>sync_loop\<close> exists.\<close>

record Aof =
  ao_config :: PersistenceConfig
  ao_protocol :: ProtocolConfig
  ao_policy :: FsyncPolicy
  ao_fd :: "nat option"
  ao_stop :: bool
  ao_sync_thread :: bool
  ao_current_size :: nat
  ao_last_write_ok :: bool
  ao_last_error :: string

definition parse_policy :: "string \<Rightarrow> FsyncPolicy" where
  "parse_policy policy =
     (let lower = to_lower_ascii policy in
      if lower = ''always'' then Policy_Always
      else if lower = ''no'' then Policy_No
      else Policy_EverySec)"

definition mk_aof :: "PersistenceConfig \<Rightarrow> ProtocolConfig \<Rightarrow> Aof" where
  "mk_aof config limits =
     \<lparr>ao_config = config, ao_protocol = limits, ao_policy = parse_policy (fsync_policy config),
      ao_fd = None, ao_stop = False, ao_sync_thread = False, ao_current_size = 0,
      ao_last_write_ok = True, ao_last_error = []\<rparr>"

definition enabled :: "Aof \<Rightarrow> bool" where
  "enabled aof \<longleftrightarrow> aof_enabled (ao_config aof) \<and> ao_fd aof \<noteq> None"

definition reopen_locked :: "Aof \<Rightarrow> os \<Rightarrow> status \<times> Aof \<times> os" where
  "reopen_locked aof s =
     (let path = aof_path (ao_config aof) in
      case sys_open False path s of
        (Inl e, s1) \<Rightarrow> (io_error (''failed to open AOF '' @ path @ '': '' @ e), aof, s1)
      | (Inr new_fd, s1) \<Rightarrow>
          (let s2 = (if ao_fd aof \<noteq> None then snd (sys_close s1) else s1) in
           case sys_file_size path s2 of
             (Inl e, s3) \<Rightarrow> (status_ok, aof\<lparr>ao_fd := Some new_fd, ao_current_size := 0\<rparr>, s3)
           | (Inr sz, s3) \<Rightarrow> (status_ok, aof\<lparr>ao_fd := Some new_fd, ao_current_size := sz\<rparr>, s3)))"

definition aof_open :: "Aof \<Rightarrow> os \<Rightarrow> status \<times> Aof \<times> os" where
  "aof_open aof s =
     (if \<not> aof_enabled (ao_config aof) then (status_ok, aof, s)
      else if \<not> path_is_safe (aof_path (ao_config aof)) then
        (invalid_argument ''invalid AOF path'', aof, s)
      else case ensure_parent_dir (aof_path (ao_config aof)) s of (st, s1) \<Rightarrow>
        if \<not> ok_status st then (st, aof, s1)
        else case reopen_locked aof s1 of (st, aof', s2) \<Rightarrow>
          if \<not> ok_status st then (st, aof', s2)
          else (status_ok, aof'\<lparr>ao_stop := False,
                 ao_sync_thread := (ao_policy aof' = Policy_EverySec)\<rparr>, s2))"

definition aof_close :: "Aof \<Rightarrow> os \<Rightarrow> Aof \<times> os" where
  "aof_close aof s =
     (let aof' = aof\<lparr>ao_stop := True, ao_sync_thread := False\<rparr> in
      case ao_fd aof' of
        None \<Rightarrow> (aof', s)
      | Some fd \<Rightarrow> (aof'\<lparr>ao_fd := None\<rparr>, snd (sys_close (snd (sys_fsync fd s)))))"

definition write_bytes_locked :: "Aof \<Rightarrow> string \<Rightarrow> os \<Rightarrow> status \<times> Aof \<times> os" where
  "write_bytes_locked aof bs s =
     (case ao_fd aof of
        None \<Rightarrow> (io_error ''AOF is not open'', aof, s)
      | Some fd \<Rightarrow>
          (case write_all fd bs s of (st, s1) \<Rightarrow>
             if ok_status st then
               (st, aof\<lparr>ao_current_size := ao_current_size aof + length bs\<rparr>, s1)
             else (st, aof, s1)))"

text \<open>The fields an operation sets when it reports an error.\<close>

definition note_failure :: "status \<Rightarrow> Aof \<Rightarrow> Aof" where
  "note_failure st aof = aof\<lparr>ao_last_write_ok := False, ao_last_error := message st\<rparr>"

definition aof_append :: "Aof \<Rightarrow> string list \<Rightarrow> os \<Rightarrow> status \<times> Aof \<times> os" where
  "aof_append aof as s =
     (if \<not> enabled aof then (status_ok, aof, s)
      else case write_bytes_locked aof (encode_command as) s of (st, aof1, s1) \<Rightarrow>
        (case (if ok_status st \<and> ao_policy aof1 = Policy_Always then
                 (case sys_fsync (the (ao_fd aof1)) s1 of
                    (Some e, s2) \<Rightarrow> (io_error (''fsync failed: '' @ e), s2)
                  | (None, s2) \<Rightarrow> (st, s2))
               else (st, s1)) of (st', s2) \<Rightarrow>
           if \<not> ok_status st' then (st', note_failure st' aof1, s2)
           else (status_ok, aof1\<lparr>ao_last_write_ok := True\<rparr>, s2)))"

definition aof_sync :: "Aof \<Rightarrow> os \<Rightarrow> status \<times> os" where
  "aof_sync aof s =
     (case ao_fd aof of
        None \<Rightarrow> (status_ok, s)
      | Some fd \<Rightarrow> sync_fd fd (aof_path (ao_config aof)) s)"

text \<open>One round of \<open>sync_loop\<close>, after its sleep.\<close>

definition sync_round :: "Aof \<Rightarrow> os \<Rightarrow> Aof \<times> os" where
  "sync_round aof s =
     (case aof_sync aof s of (st, s1) \<Rightarrow>
        (if \<not> ok_status st then note_failure st aof else aof, s1))"


section \<open>Rewriting\<close>

text \<open>The commands that restore one entry of a snapshot, as the rewrite and \<open>SAVE\<close> write them.\<close>

definition restore_commands :: "SnapshotEntry \<Rightarrow> string list list" where
  "restore_commands entry =
     [''SET'', sn_key entry, sn_value entry] #
     (case sn_expire_at_unix_ms entry of
        None \<Rightarrow> []
      | Some ms \<Rightarrow> [[''PEXPIREAT'', sn_key entry, int_to_string ms]])"

fun write_commands :: "nat \<Rightarrow> string list list \<Rightarrow> os \<Rightarrow> status \<times> os" where
  "write_commands fd [] s = (status_ok, s)"
| "write_commands fd (c # cs) s =
     (case write_all fd (encode_command c) s of (st, s1) \<Rightarrow>
        if \<not> ok_status st then (st, s1) else write_commands fd cs s1)"

definition rewrite_entries :: "nat \<Rightarrow> SnapshotEntry list \<Rightarrow> os \<Rightarrow> status \<times> os" where
  "rewrite_entries fd entries s = write_commands fd (concat (map restore_commands entries)) s"

text \<open>From the complete temporary file on: rename, invalidate the manifest, reopen.\<close>

definition install_rewrite :: "Aof \<Rightarrow> string \<Rightarrow> os \<Rightarrow> status \<times> Aof \<times> os" where
  "install_rewrite aof tmp_path s =
     (let path = aof_path (ao_config aof) in
      case sys_rename tmp_path path s of
        (Some e, s1) \<Rightarrow>
          (case sys_remove tmp_path s1 of (ec, s2) \<Rightarrow>
             (let st = io_error (''failed to install rewritten AOF: '' @ ec_message ec) in
              (st, note_failure st aof, s2)))
      | (None, s1) \<Rightarrow>
          (let s2 = sync_parent_dir_best_effort path s1;
               manifest = manifest_path (ao_config aof);
               s3 = (if path_is_safe manifest then snd (sys_remove manifest s2) else s2)
           in case reopen_locked aof s3 of (st, aof', s4) \<Rightarrow>
                if \<not> ok_status st then (st, note_failure st aof', s4)
                else (status_ok, aof'\<lparr>ao_last_error := [], ao_last_write_ok := True\<rparr>, s4)))"

text \<open>Writing the temporary file; after an error it is removed again.\<close>

definition write_rewrite_tmp :: "string \<Rightarrow> SnapshotEntry list \<Rightarrow> nat \<Rightarrow> os \<Rightarrow> status \<times> os" where
  "write_rewrite_tmp tmp_path entries tmp_fd s =
     (case rewrite_entries tmp_fd entries s of (st, s1) \<Rightarrow>
        if \<not> ok_status st then (st, snd (sys_remove tmp_path (snd (sys_close s1))))
        else case sync_fd tmp_fd tmp_path s1 of (sync_status, s2) \<Rightarrow>
          case close_fd tmp_path s2 of (close_status, s3) \<Rightarrow>
            (let st = (if ok_status sync_status \<and> \<not> ok_status close_status then close_status else sync_status) in
             if \<not> ok_status st then (st, snd (sys_remove tmp_path s3)) else (status_ok, s3)))"

definition aof_rewrite ::
  "Aof \<Rightarrow> StorageEngine \<Rightarrow> time_point \<Rightarrow> os \<Rightarrow> status \<times> Aof \<times> StorageEngine \<times> os" where
  "aof_rewrite aof se now s =
     (if \<not> aof_enabled (ao_config aof) then (invalid_argument ''AOF is disabled'', aof, se, s)
      else if \<not> path_is_safe (aof_path (ao_config aof)) then
        (invalid_argument ''invalid AOF path'', aof, se, s)
      else case ensure_parent_dir (aof_path (ao_config aof)) s of (st, s1) \<Rightarrow>
        if \<not> ok_status st then (st, note_failure st aof, se, s1)
        else
          (let tmp_path = rewrite_tmp_path (os_pid s1) (aof_path (ao_config aof)) in
           case sys_open True tmp_path s1 of
             (Inl e, s2) \<Rightarrow>
               (let st = io_error (''failed to open AOF rewrite temp file: '' @ e) in
                (st, note_failure st aof, se, s2))
           | (Inr tmp_fd, s2) \<Rightarrow>
               (case storage_snapshot se now of (entries, se') \<Rightarrow>
                  case write_rewrite_tmp tmp_path entries tmp_fd s2 of (st, s3) \<Rightarrow>
                    if \<not> ok_status st then (st, note_failure st aof, se', s3)
                    else case install_rewrite aof tmp_path s3 of (st, aof', s4) \<Rightarrow> (st, aof', se', s4))))"


section \<open>Replaying\<close>

record ReplayStats =
  rs_commands :: nat
  rs_ignored_partial_tail :: bool
  rs_status :: status

lemma next_command_less:
  "(parsed, p') = next_command p \<Longrightarrow> cp_status parsed = Parse_Ok \<Longrightarrow> length (buffer p') < length (buffer p)"
  using next_command_ok(1,2) [of p parsed p'] by auto

text \<open>
  The loop of \<open>replay_file\<close>.  The callback works on a state of its own; every round but the
  last takes a command off the buffer.
\<close>

function replay_loop ::
  "('s \<Rightarrow> string list \<Rightarrow> status \<times> 's) \<Rightarrow> parser \<Rightarrow> ReplayStats \<Rightarrow> 's \<Rightarrow> ReplayStats \<times> 's" where
  "replay_loop callback p stats x =
     (case next_command p of (parsed, p') \<Rightarrow>
        (case cp_status parsed of
           NeedMore \<Rightarrow> (stats\<lparr>rs_ignored_partial_tail := (buffered_bytes p' \<noteq> 0)\<rparr>, x)
         | Parse_Error \<Rightarrow>
             (stats\<lparr>rs_status := protocol_error (''AOF replay failed: '' @ cp_error parsed)\<rparr>, x)
         | Parse_Ok \<Rightarrow>
             (case callback x (args (cp_command parsed)) of (st, x') \<Rightarrow>
                if \<not> ok_status st then (stats\<lparr>rs_status := st\<rparr>, x')
                else replay_loop callback p' (stats\<lparr>rs_commands := rs_commands stats + 1\<rparr>) x')))"
  by pat_completeness auto
termination
  by (relation "measure (\<lambda>(_, p, _, _). length (buffer p))") (simp_all add: next_command_less)

declare replay_loop.simps [simp del]

definition no_stats :: ReplayStats where
  "no_stats = \<lparr>rs_commands = 0, rs_ignored_partial_tail = False, rs_status = status_ok\<rparr>"

definition replay_file ::
  "string \<Rightarrow> ProtocolConfig \<Rightarrow> ('s \<Rightarrow> string list \<Rightarrow> status \<times> 's) \<Rightarrow> nat \<Rightarrow> 's \<Rightarrow> os \<Rightarrow> ReplayStats \<times> 's \<times> os" where
  "replay_file path limits callback start_offset x s =
     (if \<not> path_is_safe path \<or> \<not> sys_exists path s then (no_stats, x, s)
      else case read_file path s of (content, s1) \<Rightarrow>
        if content = [] then (no_stats, x, s1)
        else if start_offset > length content then
          (no_stats\<lparr>rs_status := protocol_error ''AOF replay offset is beyond end of file''\<rparr>, x, s1)
        else if start_offset = length content then (no_stats, x, s1)
        else case parser_append (mk_parser (parser_options_from_config limits)) (drop start_offset content) of
            (st, p) \<Rightarrow>
              if \<not> ok_status st then (no_stats\<lparr>rs_status := st\<rparr>, x, s1)
              else case replay_loop callback p no_stats x of (stats, x') \<Rightarrow> (stats, x', s1))"

lemmas [evals] = sync_fd_def close_fd_def sync_parent_dir_best_effort_def rewrite_tmp_path_def
  read_file_def parse_policy_def mk_aof_def enabled_def reopen_locked_def aof_open_def aof_close_def
  write_bytes_locked_def note_failure_def aof_append_def aof_sync_def sync_round_def
  restore_commands_def rewrite_entries_def install_rewrite_def write_rewrite_tmp_def aof_rewrite_def
  replay_loop.simps no_stats_def replay_file_def

end
