(* ===== verification/Snapshot.thy ===== *)
theory Snapshot
  imports Aof
begin

text \<open>
  The snapshot store of \<open>include/veloxdb/persistence/snapshot.h\<close> and
  \<open>src/persistence/snapshot.cpp\<close>: the snapshot file, the manifest that ties it to an offset of
  the append-only file, and loading at start-up.  Output file streams write through to the file;
  a failed operation sets the stream's fail bit, after which it writes nothing.
\<close>


section \<open>Helpers\<close>

definition snapshot_ensure_parent_dir :: "string \<Rightarrow> os \<Rightarrow> status \<times> os" where
  "snapshot_ensure_parent_dir path s =
     (if parent_path path \<noteq> [] then
        (case sys_call s of
           (Some e, s1) \<Rightarrow> (io_error (''failed to create snapshot directory: '' @ e), s1)
         | (None, s1) \<Rightarrow> (status_ok, s1))
      else (status_ok, s))"

definition default_manifest_path :: "string \<Rightarrow> string" where
  "default_manifest_path path = path @ ''.manifest''"

definition manifest_tmp_path :: "string \<Rightarrow> string" where
  "manifest_tmp_path path = path @ ''.tmp''"

text \<open>
  \<open>std::filesystem::path::lexically_normal\<close> on POSIX paths.  The file names of a path are what
  is between separators; \<open>normal_names\<close> drops dot names and resolves dot-dot names against the
  names before them (kept in reverse).  A path whose last name was dropped, or that ended in a
  separator, ends in a separator.
\<close>

fun path_names :: "string \<Rightarrow> string \<Rightarrow> string list" where
  "path_names acc [] = (if acc = [] then [] else [rev acc])"
| "path_names acc (c # cs) =
     (if c = CHR ''/'' then (if acc = [] then path_names [] cs else rev acc # path_names [] cs)
      else path_names (c # acc) cs)"

fun normal_names :: "bool \<Rightarrow> string list \<Rightarrow> string list \<Rightarrow> string list" where
  "normal_names absolute acc [] = rev acc"
| "normal_names absolute acc (n # ns) =
     (if n = ''.'' then normal_names absolute acc ns
      else if n = ''..'' then
        (case acc of
           [] \<Rightarrow> if absolute then normal_names absolute [] ns else normal_names absolute [n] ns
         | a # as \<Rightarrow> if a = ''..'' then normal_names absolute (n # acc) ns else normal_names absolute as ns)
      else normal_names absolute (n # acc) ns)"

fun join_names :: "string list \<Rightarrow> string" where
  "join_names [] = []"
| "join_names [n] = n"
| "join_names (n # ns) = n @ ''/'' @ join_names ns"

definition lexically_normal :: "string \<Rightarrow> string" where
  "lexically_normal path =
     (if path = [] then []
      else
        (let absolute = (hd path = CHR ''/'');
             names = path_names [] path;
             kept = normal_names absolute [] names;
             trailing = (last path = CHR ''/'' \<or> names \<noteq> [] \<and> (last names = ''.'' \<or> last names = ''..''));
             body = join_names kept @ (if kept \<noteq> [] \<and> trailing \<and> last kept \<noteq> ''..'' then ''/'' else [])
         in if absolute then ''/'' @ body else if body = [] then ''.'' else body))"

definition normalize_path_string :: "string \<Rightarrow> string" where
  "normalize_path_string path = lexically_normal path"

text \<open>\<open>emplace\<close> keeps the first value of a key.\<close>

definition emplace :: "'k \<Rightarrow> 'v \<Rightarrow> ('k \<times> 'v) list \<Rightarrow> ('k \<times> 'v) list" where
  "emplace k v al = (if map_of al k = None then al @ [(k, v)] else al)"

fun manifest_values :: "(string \<times> string) list \<Rightarrow> string list \<Rightarrow> (string \<times> string) list" where
  "manifest_values values [] = values"
| "manifest_values values (l # ls) =
     (let line = trim l in
      if line = [] \<or> hd line = CHR ''#'' then manifest_values values ls
      else case split_at_char (CHR ''='') line of
          None \<Rightarrow> manifest_values values ls
        | Some (k, v) \<Rightarrow> manifest_values (emplace (trim k) (trim v) values) ls)"

definition parse_manifest_lines :: "string \<Rightarrow> (string \<times> string) list" where
  "parse_manifest_lines content = manifest_values [] (lines_of content)"

text \<open>
  An output file stream: its file and its fail bit.  An insertion that fails can leave some of its bytes in
  the file (\<open>Partial\<close>) or none.
\<close>

record ofstream =
  of_fd :: nat
  of_good :: bool

definition stream_put :: "ofstream \<Rightarrow> string \<Rightarrow> os \<Rightarrow> ofstream \<times> os" where
  "stream_put out bs s =
     (if \<not> of_good out then (out, s)
      else case next_outcome s of (x, s1) \<Rightarrow>
        (case x of
           Done \<Rightarrow> (out, append_data (of_fd out) bs s1)
         | Partial n \<Rightarrow> (out\<lparr>of_good := length bs \<le> n\<rparr>, append_data (of_fd out) (take n bs) s1)
         | Interrupted \<Rightarrow> (out\<lparr>of_good := False\<rparr>, s1)
         | Failed e \<Rightarrow> (out\<lparr>of_good := False\<rparr>, s1)))"

definition stream_close :: "ofstream \<Rightarrow> os \<Rightarrow> ofstream \<times> os" where
  "stream_close out s =
     (case sys_close s of
        (Some e, s1) \<Rightarrow> (out\<lparr>of_good := False\<rparr>, s1)
      | (None, s1) \<Rightarrow> (out, s1))"


section \<open>The store\<close>

record SnapshotStore =
  ss_path :: string
  ss_manifest_path :: string
  ss_protocol :: ProtocolConfig

record Manifest =
  mf_snapshot_path :: string
  mf_aof_path :: string
  mf_aof_offset :: nat
  mf_created_unix_ms :: int

record RecoveryLoadResult =
  rl_status :: status
  rl_loaded_snapshot :: bool
  rl_found_manifest :: bool
  rl_aof_replay_offset :: nat

definition mk_snapshot_store :: "string \<Rightarrow> ProtocolConfig \<Rightarrow> string \<Rightarrow> SnapshotStore" where
  "mk_snapshot_store path limits manifest =
     \<lparr>ss_path = path,
      ss_manifest_path = (if manifest = [] then default_manifest_path path else manifest),
      ss_protocol = limits\<rparr>"

text \<open>The loop over the entries; \<open>False\<close> when the stream has failed.\<close>

fun put_commands :: "ofstream \<Rightarrow> string list list \<Rightarrow> os \<Rightarrow> ofstream \<times> os" where
  "put_commands out [] s = (out, s)"
| "put_commands out (c # cs) s =
     (case stream_put out (encode_command c) s of (out', s') \<Rightarrow> put_commands out' cs s')"

fun put_entries :: "ofstream \<Rightarrow> SnapshotEntry list \<Rightarrow> os \<Rightarrow> bool \<times> ofstream \<times> os" where
  "put_entries out [] s = (True, out, s)"
| "put_entries out (entry # entries) s =
     (case put_commands out (restore_commands entry) s of (out', s') \<Rightarrow>
        if \<not> of_good out' then (False, out', s') else put_entries out' entries s')"

text \<open>Rename a temporary file over its target, or remove it.\<close>

definition install_file :: "string \<Rightarrow> string \<Rightarrow> string \<Rightarrow> os \<Rightarrow> status \<times> os" where
  "install_file what tmp_path path s =
     (case sys_rename tmp_path path s of
        (Some e, s1) \<Rightarrow> (io_error (''failed to install '' @ what @ '': '' @ e), snd (sys_remove tmp_path s1))
      | (None, s1) \<Rightarrow> (status_ok, s1))"

definition save_snapshot_file ::
  "SnapshotStore \<Rightarrow> StorageEngine \<Rightarrow> time_point \<Rightarrow> os \<Rightarrow> status \<times> StorageEngine \<times> os" where
  "save_snapshot_file store se now s =
     (if \<not> path_is_safe (ss_path store) then (invalid_argument ''invalid snapshot path'', se, s)
      else case snapshot_ensure_parent_dir (ss_path store) s of (st, s1) \<Rightarrow>
        if \<not> ok_status st then (st, se, s1)
        else
          (let tmp_path = ss_path store @ ''.tmp'' in
           case sys_open True tmp_path s1 of
             (Inl e, s2) \<Rightarrow> (io_error ''failed to open snapshot temp file'', se, s2)
           | (Inr fd, s2) \<Rightarrow>
               (case storage_snapshot se now of (entries, se') \<Rightarrow>
                  case put_entries \<lparr>of_fd = fd, of_good = True\<rparr> entries s2 of (done, out, s3) \<Rightarrow>
                    if \<not> done then (io_error ''failed writing snapshot'', se', s3)
                    else case stream_close out s3 of (out', s4) \<Rightarrow>
                      if \<not> of_good out' then (io_error ''failed closing snapshot'', se', s4)
                      else case install_file ''snapshot'' tmp_path (ss_path store) s4 of
                        (st, s5) \<Rightarrow> (st, se', s5))))"

definition manifest_lines :: "Manifest \<Rightarrow> string list" where
  "manifest_lines manifest =
     [''format_version=1'',
      ''snapshot_path='' @ normalize_path_string (mf_snapshot_path manifest),
      ''aof_path='' @ normalize_path_string (mf_aof_path manifest),
      ''aof_offset='' @ nat_to_string (mf_aof_offset manifest),
      ''created_unix_ms='' @ int_to_string (mf_created_unix_ms manifest)]"

fun put_lines :: "ofstream \<Rightarrow> string list \<Rightarrow> os \<Rightarrow> ofstream \<times> os" where
  "put_lines out [] s = (out, s)"
| "put_lines out (l # ls) s =
     (case stream_put out (l @ [CHR 0x0A]) s of (out', s') \<Rightarrow> put_lines out' ls s')"

definition write_manifest :: "SnapshotStore \<Rightarrow> Manifest \<Rightarrow> os \<Rightarrow> status \<times> os" where
  "write_manifest store manifest s =
     (if \<not> path_is_safe (ss_manifest_path store) then
        (invalid_argument ''invalid snapshot manifest path'', s)
      else case snapshot_ensure_parent_dir (ss_manifest_path store) s of (st, s1) \<Rightarrow>
        if \<not> ok_status st then (st, s1)
        else
          (let tmp_path = manifest_tmp_path (ss_manifest_path store) in
           case sys_open True tmp_path s1 of
             (Inl e, s2) \<Rightarrow> (io_error ''failed to open snapshot manifest temp file'', s2)
           | (Inr fd, s2) \<Rightarrow>
               (case put_lines \<lparr>of_fd = fd, of_good = True\<rparr> (manifest_lines manifest) s2 of (out, s3) \<Rightarrow>
                  case stream_close out s3 of (out', s4) \<Rightarrow>
                    if \<not> of_good out' then (io_error ''failed writing snapshot manifest'', s4)
                    else install_file ''snapshot manifest'' tmp_path (ss_manifest_path store) s4)))"

definition remove_manifest :: "SnapshotStore \<Rightarrow> os \<Rightarrow> os" where
  "remove_manifest store s =
     (if \<not> path_is_safe (ss_manifest_path store) then s
      else snd (sys_remove (ss_manifest_path store) s))"

text \<open>
  \<open>save\<close> reads the clock for the snapshot (\<open>clk 0\<close>) and for the manifest (\<open>clk 1\<close>).  The
  offset is the size of the log when the checkpoint guard was taken.
\<close>

definition snapshot_save ::
  "SnapshotStore \<Rightarrow> StorageEngine \<Rightarrow> Aof option \<Rightarrow> clock \<Rightarrow> os \<Rightarrow> status \<times> StorageEngine \<times> os" where
  "snapshot_save store se aof clk s =
     (case aof of
        Some a \<Rightarrow>
          if enabled a then
            (let offset = ao_current_size a in
             case aof_sync a s of (st, s1) \<Rightarrow>
               if \<not> ok_status st then (st, se, s1)
               else case save_snapshot_file store se (clk 0) s1 of (st, se', s2) \<Rightarrow>
                 if \<not> ok_status st then (st, se', s2)
                 else case write_manifest store
                     \<lparr>mf_snapshot_path = ss_path store, mf_aof_path = aof_path (ao_config a),
                      mf_aof_offset = offset, mf_created_unix_ms = unix_ms (clk 1)\<rparr> s2 of
                   (st, s3) \<Rightarrow> (st, se', s3))
          else (case save_snapshot_file store se (clk 0) s of (st, se', s1) \<Rightarrow>
                  (st, se', if ok_status st then remove_manifest store s1 else s1))
      | None \<Rightarrow>
          (case save_snapshot_file store se (clk 0) s of (st, se', s1) \<Rightarrow>
             (st, se', if ok_status st then remove_manifest store s1 else s1)))"

definition manifest_from_values :: "(string \<times> string) list \<Rightarrow> Manifest option" where
  "manifest_from_values values =
     (case (map_of values ''format_version'', map_of values ''snapshot_path'', map_of values ''aof_path'',
            map_of values ''aof_offset'', map_of values ''created_unix_ms'') of
        (Some version, Some path, Some log, Some offset, Some created) \<Rightarrow>
          if version \<noteq> ''1'' then None
          else (case (parse_u64 offset, parse_i64 created) of
              (Some parsed_offset, Some parsed_created) \<Rightarrow>
                Some \<lparr>mf_snapshot_path = path, mf_aof_path = log, mf_aof_offset = parsed_offset,
                      mf_created_unix_ms = parsed_created\<rparr>
            | _ \<Rightarrow> None)
      | _ \<Rightarrow> None)"

definition read_manifest :: "SnapshotStore \<Rightarrow> os \<Rightarrow> Manifest option \<times> os" where
  "read_manifest store s =
     (if \<not> path_is_safe (ss_manifest_path store) \<or> \<not> sys_exists (ss_manifest_path store) s then (None, s)
      else case sys_read_file (ss_manifest_path store) s of
          (None, s1) \<Rightarrow> (None, s1)
        | (Some content, s1) \<Rightarrow> (manifest_from_values (parse_manifest_lines content), s1))"

definition manifest_matches :: "SnapshotStore \<Rightarrow> Manifest \<Rightarrow> string \<Rightarrow> nat \<Rightarrow> os \<Rightarrow> bool" where
  "manifest_matches store manifest aof_file aof_size s \<longleftrightarrow>
     (if mf_snapshot_path manifest \<noteq> normalize_path_string (ss_path store) then False
      else if mf_aof_path manifest \<noteq> normalize_path_string aof_file then False
      else if mf_aof_offset manifest > aof_size then False
      else sys_exists (ss_path store) s)"

text \<open>One command of a snapshot file.\<close>

definition load_command :: "StorageEngine \<Rightarrow> time_point \<Rightarrow> string list \<Rightarrow> status \<times> StorageEngine" where
  "load_command se now as =
     (if length as = 3 \<and> as ! 0 = ''SET'' then
        (case storage_set se now (as ! 1) (as ! 2) None Always of (write, se') \<Rightarrow>
           if wr_code write \<noteq> Ok then (internal_error (storage_write_error (wr_code write)), se')
           else (status_ok, se'))
      else if length as = 3 \<and> as ! 0 = ''PEXPIREAT'' then
        (case parse_i64 (as ! 2) of
           None \<Rightarrow> (protocol_error ''invalid PEXPIREAT in snapshot'', se)
         | Some w \<Rightarrow> (status_ok, snd (storage_expire_at se now (as ! 1) (timepoint_from_unix_ms w))))
      else (protocol_error ''unknown snapshot command'', se))"

function load_loop :: "parser \<Rightarrow> clock \<Rightarrow> StorageEngine \<Rightarrow> status \<times> StorageEngine" where
  "load_loop p clk se =
     (case next_command p of (parsed, p') \<Rightarrow>
        (case cp_status parsed of
           NeedMore \<Rightarrow>
             (if buffered_bytes p' = 0 then status_ok else protocol_error ''partial snapshot command'', se)
         | Parse_Error \<Rightarrow> (protocol_error (cp_error parsed), se)
         | Parse_Ok \<Rightarrow>
             (case load_command se (clk 0) (args (cp_command parsed)) of (st, se') \<Rightarrow>
                if \<not> ok_status st then (st, se') else load_loop p' (\<lambda>i. clk (Suc i)) se')))"
  by pat_completeness auto
termination
  by (relation "measure (\<lambda>(p, _, _). length (buffer p))") (simp_all add: next_command_less)

declare load_loop.simps [simp del]

definition snapshot_load :: "SnapshotStore \<Rightarrow> StorageEngine \<Rightarrow> clock \<Rightarrow> os \<Rightarrow> status \<times> StorageEngine \<times> os" where
  "snapshot_load store se clk s =
     (if \<not> path_is_safe (ss_path store) \<or> \<not> sys_exists (ss_path store) s then (status_ok, se, s)
      else case sys_read_file (ss_path store) s of
          (None, s1) \<Rightarrow> (io_error ''failed to open snapshot'', se, s1)
        | (Some content, s1) \<Rightarrow>
            if content = [] then (status_ok, se, s1)
            else case parser_append (mk_parser (parser_options_from_config (ss_protocol store))) content of
              (st, p) \<Rightarrow>
                if \<not> ok_status st then (st, se, s1)
                else case load_loop p clk se of (st, se') \<Rightarrow> (st, se', s1))"

definition load_for_recovery ::
  "SnapshotStore \<Rightarrow> StorageEngine \<Rightarrow> string \<Rightarrow> nat \<Rightarrow> clock \<Rightarrow> os \<Rightarrow> RecoveryLoadResult \<times> StorageEngine \<times> os" where
  "load_for_recovery store se aof_file aof_size clk s =
     (let result = \<lparr>rl_status = status_ok, rl_loaded_snapshot = False, rl_found_manifest = False,
                    rl_aof_replay_offset = 0\<rparr> in
      case read_manifest store s of
        (None, s1) \<Rightarrow> (result, se, s1)
      | (Some manifest, s1) \<Rightarrow>
          (let result = result\<lparr>rl_found_manifest := True\<rparr> in
           if \<not> manifest_matches store manifest aof_file aof_size s1 then (result, se, s1)
           else case snapshot_load store se clk s1 of (st, se', s2) \<Rightarrow>
             if \<not> ok_status st then (result\<lparr>rl_status := st\<rparr>, se', s2)
             else (result\<lparr>rl_status := st, rl_loaded_snapshot := True,
                     rl_aof_replay_offset := mf_aof_offset manifest\<rparr>, se', s2)))"

lemmas [evals] = snapshot_ensure_parent_dir_def default_manifest_path_def manifest_tmp_path_def
  lexically_normal_def normalize_path_string_def emplace_def parse_manifest_lines_def stream_put_def
  stream_close_def mk_snapshot_store_def install_file_def save_snapshot_file_def manifest_lines_def
  write_manifest_def remove_manifest_def snapshot_save_def manifest_from_values_def read_manifest_def
  manifest_matches_def load_command_def load_loop.simps snapshot_load_def load_for_recovery_def

end
