(* ===== verification/Runtime.thy ===== *)
theory Runtime
  imports Util_Strings
begin

text \<open>
  The run-time support components: the level filter of \<open>src/util/logger.cpp\<close> and the counters
  of \<open>src/metrics/metrics.cpp\<close>.  The lines that a log call writes are in
  \<open>Log_Lines\<close>; the reading of the steady clock is an argument of \<open>uptime_seconds\<close>.
\<close>


section \<open>Logger\<close>

datatype LogLevel = Level_Trace | Level_Debug | Level_Info | Level_Warn | Level_Error | Level_Off

text \<open>The numeric values of the enumerators, which the comparison of levels goes by.\<close>

definition level_value :: "LogLevel \<Rightarrow> nat" where
  "level_value l =
     (case l of Level_Trace \<Rightarrow> 0 | Level_Debug \<Rightarrow> 1 | Level_Info \<Rightarrow> 2 | Level_Warn \<Rightarrow> 3
      | Level_Error \<Rightarrow> 4 | Level_Off \<Rightarrow> 5)"

lemma level_value_inject: "level_value a = level_value b \<longleftrightarrow> a = b"
  by (cases a; cases b) (simp_all add: level_value_def)

instantiation LogLevel :: linorder
begin

definition less_eq_LogLevel :: "LogLevel \<Rightarrow> LogLevel \<Rightarrow> bool" where
  "less_eq_LogLevel a b \<longleftrightarrow> level_value a \<le> level_value b"

definition less_LogLevel :: "LogLevel \<Rightarrow> LogLevel \<Rightarrow> bool" where
  "less_LogLevel a b \<longleftrightarrow> level_value a < level_value b"

instance
  by standard (auto simp: less_eq_LogLevel_def less_LogLevel_def level_value_inject)

end

record Logger =
  lg_level :: LogLevel

definition logger_instance :: Logger where
  "logger_instance = \<lparr>lg_level = Level_Info\<rparr>"

definition set_level :: "Logger \<Rightarrow> LogLevel \<Rightarrow> Logger" where
  "set_level lg level = lg\<lparr>lg_level := level\<rparr>"

definition log_enabled :: "Logger \<Rightarrow> LogLevel \<Rightarrow> bool" where
  "log_enabled lg level \<longleftrightarrow> level \<ge> lg_level lg \<and> level \<noteq> Level_Off"

definition parse_log_level :: "string \<Rightarrow> LogLevel" where
  "parse_log_level value =
     (let lower = to_lower_ascii value in
      if lower = ''trace'' then Level_Trace
      else if lower = ''debug'' then Level_Debug
      else if lower = ''warn'' \<or> lower = ''warning'' then Level_Warn
      else if lower = ''error'' then Level_Error
      else if lower = ''off'' then Level_Off
      else Level_Info)"

definition log_level_name :: "LogLevel \<Rightarrow> string" where
  "log_level_name level =
     (case level of Level_Trace \<Rightarrow> ''trace'' | Level_Debug \<Rightarrow> ''debug'' | Level_Info \<Rightarrow> ''info''
      | Level_Warn \<Rightarrow> ''warn'' | Level_Error \<Rightarrow> ''error'' | Level_Off \<Rightarrow> ''off'')"

lemma parse_log_level_name [simp]: "parse_log_level (log_level_name l) = l"
  by (cases l) (simp_all add: parse_log_level_def log_level_name_def evals)

lemma log_enabled_mono: "log_enabled lg a \<Longrightarrow> a \<le> b \<Longrightarrow> b \<noteq> Level_Off \<Longrightarrow> log_enabled lg b"
  by (auto simp: log_enabled_def)

lemma log_off_silent: "\<not> log_enabled (set_level lg Level_Off) l"
  by (cases l) (simp_all add: log_enabled_def set_level_def less_eq_LogLevel_def level_value_def)


section \<open>Metrics\<close>

record Metrics =
  m_start :: int
  m_enabled :: bool
  m_connected_clients :: nat
  m_total_connections :: nat
  m_total_commands :: nat
  m_evicted_keys :: nat
  m_aof_last_write_ok :: bool

text \<open>\<open>m_start\<close> and the argument of \<open>uptime_seconds\<close> are readings of the steady clock in nanoseconds.\<close>

definition mk_metrics :: "int \<Rightarrow> Metrics" where
  "mk_metrics start = \<lparr>m_start = start, m_enabled = True, m_connected_clients = 0, m_total_connections = 0,
     m_total_commands = 0, m_evicted_keys = 0, m_aof_last_write_ok = True\<rparr>"

definition set_enabled :: "Metrics \<Rightarrow> bool \<Rightarrow> Metrics" where
  "set_enabled m enabled = m\<lparr>m_enabled := enabled\<rparr>"

definition connection_opened :: "Metrics \<Rightarrow> Metrics" where
  "connection_opened m =
     m\<lparr>m_connected_clients := m_connected_clients m + 1, m_total_connections := m_total_connections m + 1\<rparr>"

definition connection_closed :: "Metrics \<Rightarrow> Metrics" where
  "connection_closed m =
     (if m_connected_clients m \<noteq> 0 then m\<lparr>m_connected_clients := m_connected_clients m - 1\<rparr> else m)"

definition command_processed :: "Metrics \<Rightarrow> Metrics" where
  "command_processed m = (if m_enabled m then m\<lparr>m_total_commands := m_total_commands m + 1\<rparr> else m)"

definition uptime_seconds :: "Metrics \<Rightarrow> int \<Rightarrow> nat" where
  "uptime_seconds m now = nat (((now - m_start m) sdiv 1000000000) mod 2 ^ 64)"

definition aof_write_failed :: "Metrics \<Rightarrow> Metrics" where
  "aof_write_failed m = m\<lparr>m_aof_last_write_ok := False\<rparr>"

definition aof_write_succeeded :: "Metrics \<Rightarrow> Metrics" where
  "aof_write_succeeded m = m\<lparr>m_aof_last_write_ok := True\<rparr>"

lemma connection_counts:
  "m_connected_clients (connection_opened m) = m_connected_clients m + 1"
  "m_connected_clients (connection_closed m) = m_connected_clients m - 1"
  "m_total_connections (connection_closed m) = m_total_connections m"
  by (simp_all add: connection_opened_def connection_closed_def)

lemmas [evals] = level_value_def log_enabled_def set_level_def parse_log_level_def log_level_name_def
  less_eq_LogLevel_def logger_instance_def mk_metrics_def uptime_seconds_def set_enabled_def connection_opened_def
  connection_closed_def command_processed_def aof_write_failed_def aof_write_succeeded_def

end
