(* ===== verification/Commands.thy ===== *)
theory Commands
  imports Snapshot Runtime "HOL-Library.Char_ord" "HOL-Library.List_Lexorder"
begin

text \<open>
  The command handlers of \<open>src/commands/commands.cpp\<close> and the registry of
  \<open>src/commands/command_registry.cpp\<close>.  A handler takes the context, the clock readings of this
  call and the arguments, and returns the reply and the changed context.  The references that
  \<open>CommandContext\<close> holds are its fields; the operating system, the logger singleton and the
  steady clock are fields as well.  A mutation guard is a lock and has no effect of its own.
\<close>


section \<open>Context and results\<close>

record CommandResult =
  cr_response :: string
  cr_close_after_write :: bool

text \<open>
  \<open>cx_request_shutdown\<close>: whether the callback is set; \<open>cx_shutdown_requested\<close>: whether it has
  been called.
\<close>

record CommandContext =
  cx_storage :: StorageEngine
  cx_metrics :: Metrics
  cx_config :: Config
  cx_aof :: "Aof option"
  cx_snapshot :: "SnapshotStore option"
  cx_request_shutdown :: bool
  cx_shutdown_requested :: bool
  cx_replay :: bool
  cx_os :: os
  cx_logger :: Logger
  cx_steady :: int

type_synonym handler = "CommandContext \<Rightarrow> clock \<Rightarrow> string list \<Rightarrow> CommandResult \<times> CommandContext"

definition reply :: "string \<Rightarrow> CommandResult" where
  "reply response = \<lparr>cr_response = response, cr_close_after_write = False\<rparr>"

definition ok :: CommandResult where
  "ok = reply (simple ''OK'')"

definition err :: "string \<Rightarrow> CommandResult" where
  "err m = reply (error m)"

definition wrong_args :: "string \<Rightarrow> CommandResult" where
  "wrong_args command = err (''wrong number of arguments for '' @ [CHR 0x27] @ to_lower_ascii command @ [CHR 0x27] @ '' command'')"

definition persist :: "CommandContext \<Rightarrow> string list \<Rightarrow> status \<times> CommandContext" where
  "persist ctx as =
     (case cx_aof ctx of
        None \<Rightarrow> (status_ok, ctx)
      | Some aof \<Rightarrow>
          if cx_replay ctx \<or> \<not> enabled aof then (status_ok, ctx)
          else (case aof_append aof as (cx_os ctx) of (st, aof', s) \<Rightarrow>
              (st, ctx\<lparr>cx_aof := Some aof', cx_os := s\<rparr>)))"

definition persist_failed :: "CommandContext \<Rightarrow> status \<Rightarrow> CommandResult \<times> CommandContext" where
  "persist_failed ctx st =
     (err (''persistence append failed: '' @ message st),
      ctx\<lparr>cx_metrics := aof_write_failed (cx_metrics ctx)\<rparr>)"

definition persist_or_ok :: "CommandContext \<Rightarrow> string list \<Rightarrow> CommandResult \<Rightarrow> CommandResult \<times> CommandContext" where
  "persist_or_ok ctx as result =
     (case persist ctx as of (st, ctx1) \<Rightarrow>
        if \<not> ok_status st then persist_failed ctx1 st
        else (result, ctx1\<lparr>cx_metrics := aof_write_succeeded (cx_metrics ctx1)\<rparr>))"

text \<open>The other pattern: log only when something changed, and leave the write status alone.\<close>

definition persist_if :: "bool \<Rightarrow> CommandContext \<Rightarrow> string list \<Rightarrow> CommandResult \<Rightarrow> CommandResult \<times> CommandContext" where
  "persist_if changed ctx as result =
     (if changed then
        (case persist ctx as of (st, ctx1) \<Rightarrow>
           if \<not> ok_status st then persist_failed ctx1 st else (result, ctx1))
      else (result, ctx))"

text \<open>The product of a negative number may overflow; the value is what wraps around.\<close>

definition parse_ttl_ms :: "string \<Rightarrow> int \<Rightarrow> int option" where
  "parse_ttl_ms value multiplier =
     (case parse_i64 value of
        None \<Rightarrow> None
      | Some parsed \<Rightarrow>
          if parsed > 0 \<and> parsed > i64_max sdiv multiplier then None
          else Some (wrap64 (parsed * multiplier)))"

definition pxat_arg_from_ttl :: "time_point \<Rightarrow> int \<Rightarrow> string" where
  "pxat_arg_from_ttl now ttl = int_to_string (unix_ms (tp_add now ttl))"

fun bulk_pairs :: "(string \<times> string) list \<Rightarrow> string option list" where
  "bulk_pairs [] = []"
| "bulk_pairs ((k, v) # pairs) = Some k # Some v # bulk_pairs pairs"


section \<open>String commands\<close>

definition ping :: handler where
  "ping ctx clk as =
     (if length as = 1 then (reply (simple ''PONG''), ctx)
      else if length as = 2 then (reply (bulk (as ! 1)), ctx)
      else (wrong_args (as ! 0), ctx))"

definition echo :: handler where
  "echo ctx clk as =
     (if length as \<noteq> 2 then (wrong_args (as ! 0), ctx) else (reply (bulk (as ! 1)), ctx))"

definition get_cmd :: handler where
  "get_cmd ctx clk as =
     (if length as \<noteq> 2 then (wrong_args (as ! 0), ctx)
      else case storage_get (cx_storage ctx) (clk 0) (as ! 1) of (found, se) \<Rightarrow>
        (reply (case found of Some v \<Rightarrow> bulk v | None \<Rightarrow> null_bulk), ctx\<lparr>cx_storage := se\<rparr>))"

text \<open>
  The option loop of \<open>SET\<close>: condition, relative expiry in milliseconds, absolute expiry in
  milliseconds; \<open>Inl\<close> is the error text.
\<close>

definition invalid_set_expire :: string where
  "invalid_set_expire = ''invalid expire time in SET''"

definition set_expire_option :: "string \<Rightarrow> string \<Rightarrow> string + int option \<times> int option" where
  "set_expire_option opt v =
     (if opt = ''EX'' then Inr (parse_ttl_ms v 1000, None)
      else if opt = ''PX'' then Inr (parse_ttl_ms v 1, None)
      else case parse_i64 v of
          None \<Rightarrow> Inl invalid_set_expire
        | Some parsed \<Rightarrow> Inr (None, Some (if opt = ''EXAT'' then wrap64 (parsed * 1000) else parsed)))"

definition not_positive :: "int option \<Rightarrow> bool" where
  "not_positive x = (case x of None \<Rightarrow> False | Some n \<Rightarrow> n \<le> 0)"

fun set_options ::
  "string list \<Rightarrow> SetCondition \<Rightarrow> int option \<Rightarrow> int option \<Rightarrow> string + SetCondition \<times> int option \<times> int option" where
  "set_options [] cond ttl pxat = Inr (cond, ttl, pxat)"
| "set_options (a # as) cond ttl pxat =
     (let opt = to_upper_ascii a in
      if opt = ''NX'' then
        (if cond = XX then Inl ''syntax error'' else set_options as NX ttl pxat)
      else if opt = ''XX'' then
        (if cond = NX then Inl ''syntax error'' else set_options as XX ttl pxat)
      else if opt = ''EX'' \<or> opt = ''PX'' \<or> opt = ''EXAT'' \<or> opt = ''PXAT'' then
        (case as of
           [] \<Rightarrow> Inl ''syntax error''
         | v # as' \<Rightarrow>
             if ttl \<noteq> None \<or> pxat \<noteq> None then Inl ''syntax error''
             else (case set_expire_option opt v of
                 Inl e \<Rightarrow> Inl e
               | Inr (ttl', pxat') \<Rightarrow>
                   if not_positive ttl' \<or> not_positive pxat' then Inl invalid_set_expire
                   else set_options as' cond ttl' pxat'))
      else Inl ''syntax error'')"

text \<open>
  Clock readings of \<open>SET\<close>: the conversion of an absolute expiry (0), \<open>storage.set\<close> (1), and
  the conversion of a relative expiry for the log (2).
\<close>

definition set_cmd :: handler where
  "set_cmd ctx clk as =
     (if length as < 3 then (wrong_args (as ! 0), ctx)
      else case set_options (drop 3 as) Always None None of
          Inl e \<Rightarrow> (err e, ctx)
        | Inr (cond, ttl0, pxat) \<Rightarrow>
            (let ttl = (case pxat of
                   Some ms \<Rightarrow> Some (wrap64 (timepoint_from_unix_ms ms - clk 0) sdiv ticks_per_ms)
                 | None \<Rightarrow> ttl0)
             in case storage_set (cx_storage ctx) (clk 1) (as ! 1) (as ! 2) ttl cond of (result, se) \<Rightarrow>
               (let ctx1 = ctx\<lparr>cx_storage := se\<rparr> in
                if wr_code result = NotSet then (reply null_bulk, ctx1)
                else if wr_code result \<noteq> Ok then (err (storage_write_error (wr_code result)), ctx1)
                else persist_or_ok ctx1
                  ([''SET'', as ! 1, as ! 2] @
                   (case ttl of
                      None \<Rightarrow> []
                    | Some t \<Rightarrow>
                        [''PXAT'', case pxat of Some ms \<Rightarrow> int_to_string ms | None \<Rightarrow> pxat_arg_from_ttl (clk 2) t]))
                  ok)))"

definition del_cmd :: handler where
  "del_cmd ctx clk as =
     (if length as < 2 then (wrong_args (as ! 0), ctx)
      else case storage_del_keys (cx_storage ctx) clk (tl as) of (deleted, se) \<Rightarrow>
        persist_if (deleted \<noteq> 0) (ctx\<lparr>cx_storage := se\<rparr>) as (reply (integer (int deleted))))"

definition exists_cmd :: handler where
  "exists_cmd ctx clk as =
     (if length as < 2 then (wrong_args (as ! 0), ctx)
      else case storage_exists (cx_storage ctx) clk (tl as) of (n, se) \<Rightarrow>
        (reply (integer (int n)), ctx\<lparr>cx_storage := se\<rparr>))"

definition mget_cmd :: handler where
  "mget_cmd ctx clk as =
     (if length as < 2 then (wrong_args (as ! 0), ctx)
      else case storage_mget (cx_storage ctx) clk (tl as) of (values, se) \<Rightarrow>
        (reply (array_of_bulk values), ctx\<lparr>cx_storage := se\<rparr>))"

text \<open>The loop of \<open>MSET\<close> over the pairs: the code of the first write that fails, if any.\<close>

fun mset_pairs :: "StorageEngine \<Rightarrow> clock \<Rightarrow> string list \<Rightarrow> WriteCode option \<times> StorageEngine" where
  "mset_pairs se clk (k # v # rest) =
     (case storage_set se (clk 0) k v None Always of (result, se') \<Rightarrow>
        if wr_code result \<noteq> Ok then (Some (wr_code result), se')
        else mset_pairs se' (\<lambda>i. clk (Suc i)) rest)"
| "mset_pairs se clk _ = (None, se)"

definition mset_cmd :: handler where
  "mset_cmd ctx clk as =
     (if length as < 3 \<or> even (length as) then (wrong_args (as ! 0), ctx)
      else case mset_pairs (cx_storage ctx) clk (tl as) of
          (Some c, se) \<Rightarrow> (err (storage_write_error c), ctx\<lparr>cx_storage := se\<rparr>)
        | (None, se) \<Rightarrow> persist_or_ok (ctx\<lparr>cx_storage := se\<rparr>) as ok)"

definition incr_decr :: "int \<Rightarrow> handler" where
  "incr_decr delta ctx clk as =
     (if length as \<noteq> 2 then (wrong_args (as ! 0), ctx)
      else case storage_incr_by (cx_storage ctx) (clk 0) (as ! 1) delta of (result, se) \<Rightarrow>
        (let ctx1 = ctx\<lparr>cx_storage := se\<rparr> in
         if wr_code result \<noteq> Ok then (err (storage_write_error (wr_code result)), ctx1)
         else persist_or_ok ctx1 as (reply (integer (wr_integer result)))))"

definition append_cmd :: handler where
  "append_cmd ctx clk as =
     (if length as \<noteq> 3 then (wrong_args (as ! 0), ctx)
      else case storage_append (cx_storage ctx) (clk 0) (as ! 1) (as ! 2) of (result, se) \<Rightarrow>
        (let ctx1 = ctx\<lparr>cx_storage := se\<rparr> in
         if wr_code result \<noteq> Ok then (err (storage_write_error (wr_code result)), ctx1)
         else persist_or_ok ctx1 as (reply (integer (wr_integer result)))))"

definition strlen_cmd :: handler where
  "strlen_cmd ctx clk as =
     (if length as \<noteq> 2 then (wrong_args (as ! 0), ctx)
      else case storage_strlen (cx_storage ctx) (clk 0) (as ! 1) of (n, se) \<Rightarrow>
        (reply (integer (int n)), ctx\<lparr>cx_storage := se\<rparr>))"


section \<open>Expiry commands\<close>

definition bool_reply :: "bool \<Rightarrow> CommandResult" where
  "bool_reply changed = reply (integer (if changed then 1 else 0))"

text \<open>Clock readings: \<open>storage.expire\<close> takes two (0, 1), the conversion for the log one (2).\<close>

definition expire_impl :: "int \<Rightarrow> string \<Rightarrow> handler" where
  "expire_impl multiplier command_name ctx clk as =
     (if length as \<noteq> 3 then (wrong_args (as ! 0), ctx)
      else case parse_ttl_ms (as ! 2) multiplier of
          None \<Rightarrow> (err (''invalid expire time in '' @ command_name), ctx)
        | Some ttl \<Rightarrow>
            (case storage_expire (cx_storage ctx) clk (as ! 1) ttl of (changed, se) \<Rightarrow>
               persist_if changed (ctx\<lparr>cx_storage := se\<rparr>)
                 [''PEXPIREAT'', as ! 1, pxat_arg_from_ttl (clk 2) ttl] (bool_reply changed)))"

definition pexpireat_cmd :: handler where
  "pexpireat_cmd ctx clk as =
     (if length as \<noteq> 3 then (wrong_args (as ! 0), ctx)
      else case parse_i64 (as ! 2) of
          None \<Rightarrow> (err ''invalid expire time in PEXPIREAT'', ctx)
        | Some w \<Rightarrow>
            (case storage_expire_at (cx_storage ctx) (clk 0) (as ! 1) (timepoint_from_unix_ms w) of
               (changed, se) \<Rightarrow> persist_if changed (ctx\<lparr>cx_storage := se\<rparr>) as (bool_reply changed)))"

definition ttl_impl :: "bool \<Rightarrow> handler" where
  "ttl_impl millis ctx clk as =
     (if length as \<noteq> 2 then (wrong_args (as ! 0), ctx)
      else case storage_ttl (cx_storage ctx) (clk 0) (as ! 1) of (ttl, se) \<Rightarrow>
        (let ctx1 = ctx\<lparr>cx_storage := se\<rparr> in
         if tr_state ttl = Missing then (reply (integer (- 2)), ctx1)
         else if tr_state ttl = NoExpiry then (reply (integer (- 1)), ctx1)
         else if millis then (reply (integer (tr_milliseconds ttl)), ctx1)
         else (reply (integer (wrap64 (tr_milliseconds ttl + 999) sdiv 1000)), ctx1)))"

definition persist_cmd :: handler where
  "persist_cmd ctx clk as =
     (if length as \<noteq> 2 then (wrong_args (as ! 0), ctx)
      else case storage_persist (cx_storage ctx) (clk 0) (as ! 1) of (changed, se) \<Rightarrow>
        persist_if changed (ctx\<lparr>cx_storage := se\<rparr>) as (bool_reply changed))"


section \<open>Server commands\<close>

definition dbsize_cmd :: handler where
  "dbsize_cmd ctx clk as =
     (if length as \<noteq> 1 then (wrong_args (as ! 0), ctx)
      else case storage_dbsize (cx_storage ctx) (clk 0) of (n, se) \<Rightarrow>
        (reply (integer (int n)), ctx\<lparr>cx_storage := se\<rparr>))"

definition flushdb_cmd :: handler where
  "flushdb_cmd ctx clk as =
     (if length as \<noteq> 1 then (wrong_args (as ! 0), ctx)
      else persist_or_ok (ctx\<lparr>cx_storage := storage_flushdb (cx_storage ctx)\<rparr>) [''FLUSHDB''] ok)"

definition info_text :: "CommandContext \<Rightarrow> nat \<Rightarrow> nat \<Rightarrow> string" where
  "info_text ctx keys expires = concat (map (\<lambda>l. l @ crlf)
     [''# Server'',
      ''veloxdb_version:0.1.0'',
      ''uptime_seconds:'' @ nat_to_string (uptime_seconds (cx_metrics ctx) (cx_steady ctx)),
      ''tcp_port:'' @ nat_to_string (port (server (cx_config ctx))),
      ''connected_clients:'' @ nat_to_string (m_connected_clients (cx_metrics ctx)),
      [],
      ''# Memory'',
      ''used_memory_estimate:'' @ nat_to_string (used_memory_estimate (cx_storage ctx)),
      [],
      ''# Stats'',
      ''total_commands_processed:'' @ nat_to_string (m_total_commands (cx_metrics ctx)),
      ''total_connections_received:'' @ nat_to_string (m_total_connections (cx_metrics ctx)),
      ''expired_keys:'' @ nat_to_string (expired_keys (cx_storage ctx)),
      ''evicted_keys:'' @ nat_to_string (m_evicted_keys (cx_metrics ctx)),
      [],
      ''# Keyspace'',
      ''db0:keys='' @ nat_to_string keys @ '',expires='' @ nat_to_string expires,
      [],
      ''# Persistence'',
      ''aof_enabled:'' @ (case cx_aof ctx of Some aof \<Rightarrow> if enabled aof then ''1'' else ''0'' | None \<Rightarrow> ''0''),
      ''aof_current_size:'' @ (case cx_aof ctx of Some aof \<Rightarrow> nat_to_string (ao_current_size aof) | None \<Rightarrow> ''0''),
      ''aof_last_write_status:'' @ (case cx_aof ctx of
         Some aof \<Rightarrow> if ao_last_write_ok aof then ''ok'' else ''err'' | None \<Rightarrow> ''ok'')])"

text \<open>The sections before the key counts are written before the counts are taken.\<close>

definition info_cmd :: handler where
  "info_cmd ctx clk as =
     (if length as > 2 then (wrong_args (as ! 0), ctx)
      else case storage_dbsize (cx_storage ctx) (clk 0) of (keys, se1) \<Rightarrow>
        case storage_expires_count se1 (clk 1) of (expires, se2) \<Rightarrow>
          (reply (bulk (info_text ctx keys expires)), ctx\<lparr>cx_storage := se2\<rparr>))"

definition yes_no :: "bool \<Rightarrow> string" where
  "yes_no b = (if b then ''yes'' else ''no'')"

definition config_values :: "CommandContext \<Rightarrow> (string \<times> string) list" where
  "config_values ctx =
     (let c = cx_config ctx in
      [(''server.host'', host (server c)),
       (''server.port'', nat_to_string (port (server c))),
       (''server.workers'', nat_to_string (workers (server c))),
       (''server.max_clients'', nat_to_string (max_clients (server c))),
       (''storage.shards'', nat_to_string (shards (storage_cfg c))),
       (''storage.max_memory'', nat_to_string (max_memory_bytes (storage_cfg c))),
       (''persistence.aof_enabled'', yes_no (aof_enabled (persistence c))),
       (''persistence.aof_path'', aof_path (persistence c)),
       (''persistence.fsync_policy'', fsync_policy (persistence c)),
       (''persistence.snapshot_path'', snapshot_path (persistence c)),
       (''persistence.manifest_path'', manifest_path (persistence c)),
       (''expiration.active_enabled'', yes_no (active_enabled (expiration c))),
       (''expiration.interval_ms'', nat_to_string (interval_ms (expiration c))),
       (''logging.level'', log_level_name (lg_level (cx_logger ctx))),
       (''metrics.enabled'', yes_no (m_enabled (cx_metrics ctx))),
       (''admin.shutdown_enabled'', yes_no (shutdown_enabled c)),
       (''protocol.max_request_bytes'', nat_to_string (max_request_bytes (protocol c))),
       (''protocol.max_key_size'', nat_to_string (max_key_size (protocol c))),
       (''protocol.max_value_size'', nat_to_string (max_value_size (protocol c)))])"

definition config_cmd :: handler where
  "config_cmd ctx clk as =
     (if length as < 2 then (wrong_args (as ! 0), ctx)
      else if to_upper_ascii (as ! 1) = ''GET'' then
        (if length as \<noteq> 3 then (wrong_args (as ! 0), ctx)
         else (let pattern = to_lower_ascii (as ! 2) in
               (reply (array_of_bulk (bulk_pairs
                  (filter (\<lambda>p. pattern = ''*'' \<or> pattern = to_lower_ascii (fst p)) (config_values ctx)))), ctx)))
      else if to_upper_ascii (as ! 1) = ''SET'' then
        (if length as \<noteq> 4 then (wrong_args (as ! 0), ctx)
         else if to_lower_ascii (as ! 2) = ''logging.level'' then
           (ok, ctx\<lparr>cx_logger := set_level (cx_logger ctx) (parse_log_level (as ! 3))\<rparr>)
         else if to_lower_ascii (as ! 2) = ''metrics.enabled'' then
           (case parse_bool (as ! 3) of
              None \<Rightarrow> (err ''invalid bool value'', ctx)
            | Some b \<Rightarrow> (ok, ctx\<lparr>cx_metrics := set_enabled (cx_metrics ctx) b\<rparr>))
         else (err ''CONFIG SET only supports safe runtime values: logging.level, metrics.enabled'', ctx))
      else (err ''unsupported CONFIG subcommand'', ctx))"

definition save_cmd :: handler where
  "save_cmd ctx clk as =
     (if length as \<noteq> 1 then (wrong_args (as ! 0), ctx)
      else case cx_snapshot ctx of
          None \<Rightarrow> (err ''snapshot store is not configured'', ctx)
        | Some store \<Rightarrow>
            (case snapshot_save store (cx_storage ctx) (cx_aof ctx) clk (cx_os ctx) of (st, se, s) \<Rightarrow>
               (let ctx1 = ctx\<lparr>cx_storage := se, cx_os := s\<rparr> in
                if \<not> ok_status st then (err (message st), ctx1) else (ok, ctx1))))"

definition bgsave_cmd :: handler where
  "bgsave_cmd ctx clk as =
     (if length as \<noteq> 1 then (wrong_args (as ! 0), ctx)
      else (err ''BGSAVE is planned; use SAVE for the MVP snapshot path'', ctx))"

definition bgrewriteaof_cmd :: handler where
  "bgrewriteaof_cmd ctx clk as =
     (if length as \<noteq> 1 then (wrong_args (as ! 0), ctx)
      else case cx_aof ctx of
          None \<Rightarrow> (err ''AOF is disabled'', ctx)
        | Some aof \<Rightarrow>
            if \<not> enabled aof then (err ''AOF is disabled'', ctx)
            else (case aof_rewrite aof (cx_storage ctx) (clk 0) (cx_os ctx) of (st, aof', se, s) \<Rightarrow>
              (let ctx1 = ctx\<lparr>cx_aof := Some aof', cx_storage := se, cx_os := s\<rparr> in
               if \<not> ok_status st then
                 (err (''AOF rewrite failed: '' @ message st),
                  ctx1\<lparr>cx_metrics := aof_write_failed (cx_metrics ctx1)\<rparr>)
               else (ok, ctx1\<lparr>cx_metrics := aof_write_succeeded (cx_metrics ctx1)\<rparr>))))"

definition shutdown_cmd :: handler where
  "shutdown_cmd ctx clk as =
     (if length as > 2 then (wrong_args (as ! 0), ctx)
      else if \<not> shutdown_enabled (cx_config ctx) then (err ''SHUTDOWN is disabled by configuration'', ctx)
      else
        (let s = (case cx_aof ctx of Some aof \<Rightarrow> snd (aof_sync aof (cx_os ctx)) | None \<Rightarrow> cx_os ctx);
             ctx1 = ctx\<lparr>cx_os := s,
               cx_shutdown_requested := cx_shutdown_requested ctx \<or> cx_request_shutdown ctx\<rparr>
         in (\<lparr>cr_response = simple ''OK'', cr_close_after_write = True\<rparr>, ctx1)))"


section \<open>Registry\<close>

text \<open>\<open>COMMAND\<close> captures the registry it is registered in.\<close>

datatype Command = Functional handler | CommandCmd

type_synonym CommandRegistry = "(string \<times> Command) list"

definition register_command :: "CommandRegistry \<Rightarrow> string \<Rightarrow> Command \<Rightarrow> CommandRegistry" where
  "register_command reg name c = AList.update (to_upper_ascii name) c reg"

definition command_names :: "CommandRegistry \<Rightarrow> string list" where
  "command_names reg = sort (map fst reg)"

definition command_cmd :: "CommandRegistry \<Rightarrow> handler" where
  "command_cmd reg ctx clk as =
     (if length as \<noteq> 1 then (wrong_args (as ! 0), ctx)
      else (reply (array_of_bulk (map Some (command_names reg))), ctx))"

definition execute :: "CommandRegistry \<Rightarrow> handler" where
  "execute reg ctx clk as =
     (if as = [] then (reply (error ''empty command''), ctx)
      else case map_of reg (to_upper_ascii (as ! 0)) of
          None \<Rightarrow> (reply (error (''unknown command '' @ [CHR 0x27] @ as ! 0 @ [CHR 0x27])), ctx)
        | Some (Functional fn) \<Rightarrow> fn ctx clk as
        | Some CommandCmd \<Rightarrow> command_cmd reg ctx clk as)"

definition default_commands :: "(string \<times> Command) list" where
  "default_commands =
     [(''PING'', Functional ping),
      (''ECHO'', Functional echo),
      (''GET'', Functional get_cmd),
      (''SET'', Functional set_cmd),
      (''DEL'', Functional del_cmd),
      (''EXISTS'', Functional exists_cmd),
      (''MGET'', Functional mget_cmd),
      (''MSET'', Functional mset_cmd),
      (''INCR'', Functional (incr_decr 1)),
      (''DECR'', Functional (incr_decr (- 1))),
      (''APPEND'', Functional append_cmd),
      (''STRLEN'', Functional strlen_cmd),
      (''EXPIRE'', Functional (expire_impl 1000 ''EXPIRE'')),
      (''PEXPIRE'', Functional (expire_impl 1 ''PEXPIRE'')),
      (''PEXPIREAT'', Functional pexpireat_cmd),
      (''TTL'', Functional (ttl_impl False)),
      (''PTTL'', Functional (ttl_impl True)),
      (''PERSIST'', Functional persist_cmd),
      (''DBSIZE'', Functional dbsize_cmd),
      (''FLUSHDB'', Functional flushdb_cmd),
      (''INFO'', Functional info_cmd),
      (''CONFIG'', Functional config_cmd),
      (''SAVE'', Functional save_cmd),
      (''BGSAVE'', Functional bgsave_cmd),
      (''BGREWRITEAOF'', Functional bgrewriteaof_cmd),
      (''SHUTDOWN'', Functional shutdown_cmd),
      (''COMMAND'', CommandCmd)]"

definition register_default_commands :: "CommandRegistry \<Rightarrow> CommandRegistry" where
  "register_default_commands reg = fold (\<lambda>(name, c) r. register_command r name c) default_commands reg"

definition registry :: CommandRegistry where
  "registry = register_default_commands []"

lemmas handler_defs = ping_def echo_def get_cmd_def set_cmd_def del_cmd_def exists_cmd_def mget_cmd_def
  mset_cmd_def incr_decr_def append_cmd_def strlen_cmd_def expire_impl_def pexpireat_cmd_def ttl_impl_def
  persist_cmd_def dbsize_cmd_def flushdb_cmd_def info_cmd_def config_cmd_def save_cmd_def bgsave_cmd_def
  bgrewriteaof_cmd_def shutdown_cmd_def command_cmd_def

lemmas [evals] = reply_def ok_def err_def wrong_args_def persist_def persist_failed_def persist_or_ok_def
  persist_if_def parse_ttl_ms_def pxat_arg_from_ttl_def invalid_set_expire_def set_expire_option_def
  not_positive_def bool_reply_def handler_defs

text \<open>The names are upper case and distinct: the registry is the table in order.\<close>

lemma registry_eq: "registry = default_commands"
  by (simp add: registry_def register_default_commands_def register_command_def default_commands_def evals)

lemmas [evals] = execute_def registry_eq default_commands_def

end
