(* ===== verification/Recovery.thy ===== *)
theory Recovery
  imports Commands Config_Loader
begin

text \<open>
  The start of the server in \<open>src/main.cpp\<close>: configuration, construction of the components,
  loading the snapshot, replaying the append-only file and opening it.  The result is the exit
  code or the context the server runs with.
\<close>

text \<open>The replayed commands read the clock each in its own call.\<close>

definition replay_callback ::
  "CommandRegistry \<Rightarrow> (nat \<Rightarrow> clock) \<Rightarrow> CommandContext \<times> nat \<Rightarrow> string list \<Rightarrow> status \<times> CommandContext \<times> nat" where
  "replay_callback reg clocks x as =
     (case x of (ctx, i) \<Rightarrow>
        case execute reg ctx (clocks i) as of (result, ctx') \<Rightarrow>
          (if take 4 (cr_response result) = ''-ERR'' then protocol_error ''AOF command failed during replay''
           else status_ok, ctx', i + 1))"

text \<open>The size that is passed to the snapshot check; 0 when the file is missing or cannot be examined.\<close>

definition probe_aof_size :: "string \<Rightarrow> os \<Rightarrow> nat \<times> os" where
  "probe_aof_size path s =
     (case sys_call s of
        (Some e, s1) \<Rightarrow> (0, s1)
      | (None, s1) \<Rightarrow>
          if sys_exists path s1 then
            (case sys_file_size path s1 of (Inl e, s2) \<Rightarrow> (0, s2) | (Inr n, s2) \<Rightarrow> (n, s2))
          else (0, s1))"

definition replay_context :: "Config \<Rightarrow> StorageEngine \<Rightarrow> Metrics \<Rightarrow> SnapshotStore \<Rightarrow> Logger \<Rightarrow> int \<Rightarrow> os \<Rightarrow> CommandContext" where
  "replay_context config se metrics store logger steady s =
     \<lparr>cx_storage = se, cx_metrics = metrics, cx_config = config, cx_aof = None, cx_snapshot = Some store,
      cx_request_shutdown = False, cx_shutdown_requested = False, cx_replay = True, cx_os = s,
      cx_logger = logger, cx_steady = steady\<rparr>"

text \<open>
  Recovery with the append-only file: \<open>Inl\<close> is the exit code.  \<open>clk\<close> gives the readings of
  the snapshot load, \<open>clocks\<close> those of the replayed commands.
\<close>

definition recover_aof ::
  "Config \<Rightarrow> CommandRegistry \<Rightarrow> SnapshotStore \<Rightarrow> clock \<Rightarrow> (nat \<Rightarrow> clock) \<Rightarrow> Metrics \<Rightarrow> Logger \<Rightarrow> int
     \<Rightarrow> StorageEngine \<Rightarrow> os \<Rightarrow> (nat + StorageEngine \<times> Metrics) \<times> os" where
  "recover_aof config reg store clk clocks metrics logger steady se s =
     (let path = aof_path (persistence config) in
      case probe_aof_size path s of (aof_size, s1) \<Rightarrow>
        case load_for_recovery store se path aof_size clk s1 of (loaded, se1, s2) \<Rightarrow>
          if \<not> ok_status (rl_status loaded) then (Inl 3, s2)
          else
            (let offset = (if rl_loaded_snapshot loaded then rl_aof_replay_offset loaded else 0);
                 ctx = replay_context config se1 metrics store logger steady s2
             in case replay_file path (protocol config) (replay_callback reg clocks) offset (ctx, 0) s2 of
                  (stats, (ctx', n), s3) \<Rightarrow>
                    if \<not> ok_status (rs_status stats) then (Inl 3, s3)
                    else (Inr (cx_storage ctx', cx_metrics ctx'), s3)))"

text \<open>
  \<open>main\<close> up to the call of \<open>Server::run\<close>.  The arguments are the environment, the file contents
  the configuration loader may read, the command line, the hash function and allocation outcome of
  the storage engine, the steady clock, and the system clock readings.
\<close>

definition main_start ::
  "(string \<Rightarrow> string option) \<Rightarrow> (string \<Rightarrow> string option) \<Rightarrow> string list \<Rightarrow> (string \<Rightarrow> nat) \<Rightarrow> bool \<Rightarrow> int
     \<Rightarrow> clock \<Rightarrow> (nat \<Rightarrow> clock) \<Rightarrow> os \<Rightarrow> nat + CommandContext" where
  "main_start getenv read_text argv hash_fn alloc steady clk clocks s =
     (let loaded = load_config getenv read_text argv in
      if cl_show_help loaded then Inl 0
      else if \<not> ok_status (cl_status loaded) then Inl 2
      else
        (let config = cl_config loaded;
             logger = set_level logger_instance (parse_log_level (logging_level config));
             se = mk_storage hash_fn alloc (storage_cfg config) (protocol config);
             metrics = set_enabled (mk_metrics steady) (metrics_enabled config);
             store = mk_snapshot_store (snapshot_path (persistence config)) (protocol config)
                       (manifest_path (persistence config))
         in case (if \<not> aof_enabled (persistence config) then
                    (case snapshot_load store se clk s of (st, se', s') \<Rightarrow> (Inr (se', metrics), s'))
                  else recover_aof config registry store clk clocks metrics logger steady se s) of
              (Inl exit_code, s1) \<Rightarrow> Inl exit_code
            | (Inr (se1, metrics1), s1) \<Rightarrow>
                (case aof_open (mk_aof (persistence config) (protocol config)) s1 of (st, aof, s2) \<Rightarrow>
                   if \<not> ok_status st then Inl 4
                   else Inr \<lparr>cx_storage = se1, cx_metrics = metrics1, cx_config = config, cx_aof = Some aof,
                             cx_snapshot = Some store, cx_request_shutdown = True,
                             cx_shutdown_requested = False, cx_replay = False, cx_os = s2,
                             cx_logger = logger, cx_steady = steady\<rparr>)))"

text \<open>After \<open>Server::run\<close>: close the log; the exit code depends on the status of the server.\<close>

definition main_finish :: "status \<Rightarrow> CommandContext \<Rightarrow> nat \<times> CommandContext" where
  "main_finish st ctx =
     (let ctx' = (case cx_aof ctx of
          None \<Rightarrow> ctx
        | Some aof \<Rightarrow> (case aof_close aof (cx_os ctx) of (aof', s) \<Rightarrow> ctx\<lparr>cx_aof := Some aof', cx_os := s\<rparr>))
      in (if \<not> ok_status st then 1 else 0, ctx'))"

lemmas [evals] = replay_callback_def probe_aof_size_def replay_context_def recover_aof_def main_start_def
  main_finish_def

end
