(* ===== verification/Aof_Props.thy ===== *)
theory Aof_Props
  imports Aof
begin

text \<open>
  What the append-only file guarantees: the effect of every write on the files, durability under
  the policy \<open>always\<close>, the atomic replacement of the log by a rewrite, and replay as decoding
  followed by execution.
\<close>


section \<open>Writing\<close>

lemma write_all_no_fault: "os_script s = [] \<Longrightarrow> write_all fd bs s = (status_ok, append_data fd bs s)"
  by (subst write_all.simps, subst write_all.simps) simp

lemma write_all_spec:
  assumes "write_all fd bs s = (st, s')"
  shows "\<exists>n \<le> length bs. same_files (append_data fd (take n bs) s) s' \<and> (ok_status st \<longleftrightarrow> n = length bs)"
  using assms
proof (induction fd bs s arbitrary: st s' rule: write_all.induct)
  case (1 fd bs s)
  show ?case
  proof (cases "bs = []")
    case True
    with 1(3) show ?thesis by (simp add: write_all.simps)
  next
    case False
    obtain r s1 where w: "sys_write fd bs s = (r, s1)" by (cases "sys_write fd bs s")
    note step = write_all.simps [of fd bs s, unfolded w]
    show ?thesis
    proof (cases r)
      case Write_Interrupted
      with 1(3) step False have "write_all fd bs s1 = (st, s')" by simp
      from 1(2) [OF False w [symmetric] Write_Interrupted this] sys_write_files(2) [of fd bs s s1] w Write_Interrupted
      show ?thesis using same_files_trans same_files_append by blast
    next
      case (Write_Error e)
      with 1(3) step False sys_write_files(3) [of fd bs s e s1] w show ?thesis
        by (intro exI [of _ 0]) auto
    next
      case (Wrote n)
      note files = sys_write_files(1) [OF w [unfolded Wrote]]
      show ?thesis
      proof (cases "n = 0")
        case True
        with 1(3) step False Wrote files show ?thesis by (intro exI [of _ 0]) auto
      next
        case n: False
        with 1(3) step False Wrote have rest: "write_all fd (drop n bs) s1 = (st, s')" by simp
        from 1(1) [OF False w [symmetric] Wrote n rest] obtain m where m: "m \<le> length bs - n"
          and f: "same_files (append_data fd (take m (drop n bs)) s1) s'"
          and okm: "ok_status st \<longleftrightarrow> m = length bs - n" by auto
        have "same_files (append_data fd (take (n + m) bs) s) s'"
          using same_files_trans [OF same_files_append f] files by (metis append_data_append take_add)
        then show ?thesis using m okm files by (intro exI [of _ "n + m"]) auto
      qed
    qed
  qed
qed

text \<open>The log file of an open log: its name and its descriptor refer to the same file.\<close>

definition aof_wf :: "Aof \<Rightarrow> os \<Rightarrow> bool" where
  "aof_wf aof s \<longleftrightarrow> fs_ok s \<and>
     (\<forall>fd. ao_fd aof = Some fd \<longrightarrow> os_names s (aof_path (ao_config aof)) = Some fd)"

lemma aof_append_cases:
  assumes "enabled aof" and "aof_append aof as s = (st, aof', s')"
  obtains fd n where "ao_fd aof = Some fd" and "n \<le> length (encode_command as)"
    and "os_names s' = os_names s" and "os_next s' = os_next s"
    and "os_data s' = (os_data s)(fd := os_data s fd @ take n (encode_command as))"
    and "ok_status st \<Longrightarrow> n = length (encode_command as)
      \<and> aof' = aof\<lparr>ao_current_size := ao_current_size aof + n, ao_last_write_ok := True\<rparr>
      \<and> os_synced s' = (os_synced s)(fd := if ao_policy aof = Policy_Always then length (os_data s' fd) else os_synced s fd)"
    and "\<not> ok_status st \<Longrightarrow> \<not> ao_last_write_ok aof' \<and> ao_last_error aof' = message st
      \<and> ao_fd aof' = ao_fd aof \<and> ao_config aof' = ao_config aof"
proof -
  obtain fd where fd: "ao_fd aof = Some fd" using assms(1) by (auto simp: enabled_def)
  obtain st1 s1 where w: "write_all fd (encode_command as) s = (st1, s1)"
    by (cases "write_all fd (encode_command as) s")
  from write_all_spec [OF w] obtain n where n: "n \<le> length (encode_command as)"
    and files: "same_files (append_data fd (take n (encode_command as)) s) s1"
    and okn: "ok_status st1 \<longleftrightarrow> n = length (encode_command as)" by blast
  obtain r s2 where sy: "sys_fsync fd s1 = (r, s2)" by (cases "sys_fsync fd s1")
  obtain c s3 where ca: "sys_call s1 = (c, s3)" by (cases "sys_call s1")
  have s3: "same_files s1 s3" by (rule sys_call_files [OF ca])
  have op: "aof_append aof as s =
      (if \<not> ok_status st1 then (st1, note_failure st1 aof, s1)
       else let aof1 = aof\<lparr>ao_current_size := ao_current_size aof + length (encode_command as)\<rparr> in
         if ao_policy aof = Policy_Always then
           (case r of
              Some e \<Rightarrow> (io_error (''fsync failed: '' @ e), note_failure (io_error (''fsync failed: '' @ e)) aof1, s2)
            | None \<Rightarrow> (status_ok, aof1\<lparr>ao_last_write_ok := True\<rparr>, s2))
         else (status_ok, aof1\<lparr>ao_last_write_ok := True\<rparr>, s1))"
    using assms(1) fd w sy by (simp add: aof_append_def write_bytes_locked_def Let_def split: option.split)
  show thesis
    using that [OF fd n] assms(2) op files s3 sy ca okn
    by (auto simp: same_files_def Let_def note_failure_def sys_fsync_def split: if_splits option.splits)
qed


section \<open>Rewriting\<close>

text \<open>\<open>only_tmp fd tmp s s'\<close>: of the files only \<open>fd\<close>, and of the names only \<open>tmp\<close> has changed.\<close>

definition only_tmp :: "nat \<Rightarrow> string \<Rightarrow> os \<Rightarrow> os \<Rightarrow> bool" where
  "only_tmp fd tmp s s' \<longleftrightarrow> (\<forall>p. p \<noteq> tmp \<longrightarrow> os_names s' p = os_names s p) \<and>
     (\<forall>i. i \<noteq> fd \<longrightarrow> os_data s' i = os_data s i) \<and> os_next s' = os_next s \<and>
     (os_names s' tmp = os_names s tmp \<or> os_names s' tmp = None)"

lemma only_tmp_refl [simp]: "only_tmp fd tmp s s"
  by (simp add: only_tmp_def)

lemma only_tmp_trans: "only_tmp fd tmp a b \<Longrightarrow> only_tmp fd tmp b c \<Longrightarrow> only_tmp fd tmp a c"
  unfolding only_tmp_def by metis

lemma only_tmp_same: "same_files s s' \<Longrightarrow> only_tmp fd tmp s s'"
  by (simp add: only_tmp_def same_files_def)

lemma only_tmp_append: "only_tmp fd tmp s (append_data fd bs s)"
  by (simp add: only_tmp_def)

lemma only_tmp_remove: "only_tmp fd tmp s (snd (sys_remove tmp s))"
proof (cases "sys_call s")
  case (Pair r s1)
  with sys_call_files [OF Pair] show ?thesis
    by (auto simp: sys_remove_def only_tmp_def same_files_def split: option.split)
qed

lemma only_tmp_close: "only_tmp fd tmp s (snd (sys_close s))"
  using sys_call_files [of s "fst (sys_call s)" "snd (sys_call s)"]
  by (auto simp: sys_close_def intro: only_tmp_same)

lemma write_all_tmp:
  assumes "write_all fd bs s = (st, s')"
  shows "only_tmp fd tmp s s'" and "os_names s' = os_names s"
    and "ok_status st \<Longrightarrow> os_data s' fd = os_data s fd @ bs"
  using write_all_spec [OF assms] by (auto simp: only_tmp_def same_files_def)

lemma write_commands_tmp:
  assumes "write_commands fd cs s = (st, s')"
  shows "only_tmp fd tmp s s' \<and> os_names s' = os_names s \<and>
    (ok_status st \<longrightarrow> os_data s' fd = os_data s fd @ concat (map encode_command cs))"
  using assms
proof (induction fd cs s arbitrary: st s' rule: write_commands.induct)
  case (2 fd c cs s)
  obtain st1 s1 where w: "write_all fd (encode_command c) s = (st1, s1)"
    by (cases "write_all fd (encode_command c) s")
  note first = write_all_tmp [OF w]
  show ?case
  proof (cases "ok_status st1")
    case True
    with 2(2) w have rest: "write_commands fd cs s1 = (st, s')" by simp
    from 2(1) [OF w [symmetric] _ rest] True have
      "only_tmp fd tmp s1 s' \<and> os_names s' = os_names s1 \<and>
       (ok_status st \<longrightarrow> os_data s' fd = os_data s1 fd @ concat (map encode_command cs))" by simp
    with first True only_tmp_trans [OF first(1)] show ?thesis by auto
  next
    case False
    with 2(2) w first show ?thesis by auto
  qed
qed simp

lemma sync_close_tmp:
  "sync_fd fd target s = (st, s') \<Longrightarrow> only_tmp fd' tmp s s' \<and> os_names s' = os_names s \<and> os_data s' = os_data s
     \<and> (ok_status st \<longrightarrow> os_synced s' fd = length (os_data s fd))"
  "close_fd target s = (st, s') \<Longrightarrow> only_tmp fd' tmp s s' \<and> os_names s' = os_names s \<and> os_data s' = os_data s
     \<and> os_synced s' = os_synced s"
  using sys_call_files [of s "fst (sys_call s)" "snd (sys_call s)"]
  by (auto simp: sync_fd_def close_fd_def sys_fsync_def sys_close_def only_tmp_def same_files_def
      split: prod.splits option.splits)

definition restored_log :: "SnapshotEntry list \<Rightarrow> string" where
  "restored_log entries = concat (map encode_command (concat (map restore_commands entries)))"

lemma write_rewrite_tmp_spec:
  assumes "write_rewrite_tmp tmp entries fd s = (st, s')"
  shows "only_tmp fd tmp s s'"
    and "ok_status st \<Longrightarrow> os_names s' = os_names s \<and> os_data s' fd = os_data s fd @ restored_log entries
      \<and> os_synced s' fd = length (os_data s' fd)"
proof -
  obtain st1 s1 where a: "rewrite_entries fd entries s = (st1, s1)" by (cases "rewrite_entries fd entries s")
  obtain st2 s2 where b: "sync_fd fd tmp s1 = (st2, s2)" by (cases "sync_fd fd tmp s1")
  obtain st3 s3 where c: "close_fd tmp s2 = (st3, s3)" by (cases "close_fd tmp s2")
  note spec = write_commands_tmp [OF a [unfolded rewrite_entries_def], of tmp]
    sync_close_tmp(1) [OF b, of fd tmp] sync_close_tmp(2) [OF c, of fd tmp]
  have to1: "only_tmp fd tmp s s1" and to2: "only_tmp fd tmp s1 s2" and to3': "only_tmp fd tmp s2 s3"
    using spec by simp_all
  note to3 = only_tmp_trans [OF only_tmp_trans [OF to1 to2] to3']
  have op: "write_rewrite_tmp tmp entries fd s =
      (if \<not> ok_status st1 then (st1, snd (sys_remove tmp (snd (sys_close s1))))
       else let st = (if ok_status st2 \<and> \<not> ok_status st3 then st3 else st2) in
         if \<not> ok_status st then (st, snd (sys_remove tmp s3)) else (status_ok, s3))"
    using a b c by (simp add: write_rewrite_tmp_def)
  have "only_tmp fd tmp s (snd (sys_remove tmp s3))" and "only_tmp fd tmp s (snd (sys_remove tmp (snd (sys_close s1))))"
    by (rule only_tmp_trans [OF to3 only_tmp_remove],
        rule only_tmp_trans [OF only_tmp_trans [OF to1 only_tmp_close] only_tmp_remove])
  with to3 op assms show "only_tmp fd tmp s s'" by (auto simp: Let_def split: if_splits)
  assume "ok_status st"
  with op assms have "s' = s3" "ok_status st1" "ok_status st2" by (auto simp: Let_def split: if_splits)
  with spec show "os_names s' = os_names s \<and> os_data s' fd = os_data s fd @ restored_log entries
      \<and> os_synced s' fd = length (os_data s' fd)" by (auto simp: restored_log_def)
qed

lemma open_tmp_spec:
  assumes "fs_ok s" and "sys_open True tmp s = (Inr fd, s')"
  shows "fs_ok s'" and "os_names s' tmp = Some fd" and "os_data s' fd = []"
    and "p \<noteq> tmp \<Longrightarrow> os_names s' p = os_names s p" and "p \<noteq> tmp \<Longrightarrow> os_names s p \<noteq> Some fd"
    and "i \<noteq> fd \<Longrightarrow> os_data s' i = os_data s i"
proof -
  obtain r s1 where c: "sys_call s = (r, s1)" by (cases "sys_call s")
  note files = sys_call_files [OF c]
  have r: "r = None" using assms(2) c by (auto simp: sys_open_def split: option.splits)
  have "fs_ok s1" using same_files_ok [OF files] assms(1) by simp
  then have next1: "os_names s1 q = Some ino \<Longrightarrow> ino < os_next s1"
    and inj: "os_names s1 q = Some ino \<Longrightarrow> os_names s1 q' = Some ino \<Longrightarrow> q = q'" for q q' ino
    by (auto simp: fs_ok_def)
  have op: "(case os_names s1 tmp of Some ino \<Rightarrow> (Inr ino, open_existing True ino s1)
      | None \<Rightarrow> (Inr (os_next s1), create_file tmp s1)) = (Inr fd :: string + nat, s')"
    using assms(2) c r by (simp add: sys_open_def)
  show "fs_ok s'" using op \<open>fs_ok s1\<close> create_file_ok by (auto split: option.splits)
  show "os_names s' tmp = Some fd" "os_data s' fd = []"
    using op by (auto simp: open_existing_def create_file_def split: option.splits)
  show "p \<noteq> tmp \<Longrightarrow> os_names s' p = os_names s p" "i \<noteq> fd \<Longrightarrow> os_data s' i = os_data s i"
    using op files by (auto simp: open_existing_def create_file_def same_files_def split: option.splits)
  show "p \<noteq> tmp \<Longrightarrow> os_names s p \<noteq> Some fd"
    using op files next1 [of p fd] inj [of p fd tmp] by (auto simp: same_files_def split: option.splits)
qed

lemma open_existing_spec:
  assumes "os_names s path = Some ino" and "sys_open False path s = (r, s')"
  shows "same_files s s'" and "r = Inr fd \<Longrightarrow> fd = ino"
proof -
  obtain c s1 where c: "sys_call s = (c, s1)" by (cases "sys_call s")
  note files = sys_call_files [OF c]
  then have name: "os_names s1 path = Some ino" using assms(1) by (simp add: same_files_def)
  from assms(2) c name files show "same_files s s'" "r = Inr fd \<Longrightarrow> fd = ino"
    by (auto simp: sys_open_def open_existing_def split: option.splits)
qed

lemma close_files: "same_files s (snd (sys_close s))"
  using sys_call_files [of s "fst (sys_call s)" "snd (sys_call s)"] by (simp add: sys_close_def)

lemma file_size_files: "sys_file_size path s = (r, s') \<Longrightarrow> same_files s s'"
  by (auto simp: sys_file_size_def dest: sys_call_files split: prod.splits option.splits)

lemma reopen_spec:
  assumes "os_names s (aof_path (ao_config aof)) = Some ino" and "reopen_locked aof s = (st, aof', s')"
  shows "same_files s s'" and "ok_status st \<Longrightarrow> ao_fd aof' = Some ino"
    and "ao_config aof' = ao_config aof" and "\<not> ok_status st \<Longrightarrow> aof' = aof"
proof -
  let ?path = "aof_path (ao_config aof)"
  obtain r s1 where o: "sys_open False ?path s = (r, s1)" by (cases "sys_open False ?path s")
  note opened = open_existing_spec [OF assms(1) o]
  define s2 where "s2 = (if ao_fd aof \<noteq> None then snd (sys_close s1) else s1)"
  have f2: "same_files s s2" using same_files_trans [OF opened(1) close_files] opened(1) by (simp add: s2_def)
  obtain z s3 where z: "sys_file_size ?path s2 = (z, s3)" by (cases "sys_file_size ?path s2")
  note f3 = same_files_trans [OF f2 file_size_files [OF z]]
  show "same_files s s'" "ok_status st \<Longrightarrow> ao_fd aof' = Some ino" "ao_config aof' = ao_config aof"
    "\<not> ok_status st \<Longrightarrow> aof' = aof"
    using assms(2) o z opened f3 by (cases r; cases z; auto simp: reopen_locked_def Let_def s2_def)+
qed

lemma parent_dir_files:
  "ensure_parent_dir path s = (st, s') \<Longrightarrow> same_files s s'"
  by (auto simp: ensure_parent_dir_def Let_def dest: sys_call_files split: if_splits prod.splits option.splits)

lemma sync_parent_files: "same_files s (sync_parent_dir_best_effort path s)"
proof -
  obtain r s1 where a: "sys_call s = (r, s1)" by (cases "sys_call s")
  obtain r2 s2 where b: "sys_call s1 = (r2, s2)" by (cases "sys_call s1")
  show ?thesis
    using same_files_trans [OF sys_call_files [OF a] same_files_trans [OF sys_call_files [OF b] close_files]]
      sys_call_files [OF a] a b
    by (auto simp: sync_parent_dir_best_effort_def split: option.split)
qed

lemma install_rewrite_spec:
  assumes tmp: "os_names s tmp = Some fd" and ne: "tmp \<noteq> aof_path (ao_config aof)"
    and manifest: "manifest_path (ao_config aof) \<noteq> aof_path (ao_config aof)"
    and op: "install_rewrite aof tmp s = (st, aof', s')"
  shows "os_data s' = os_data s"
    and "os_names s' (aof_path (ao_config aof)) \<in> {os_names s (aof_path (ao_config aof)), Some fd}"
    and "ok_status st \<Longrightarrow> os_names s' (aof_path (ao_config aof)) = Some fd \<and> ao_fd aof' = Some fd
      \<and> os_synced s' = os_synced s"
proof -
  let ?path = "aof_path (ao_config aof)" and ?man = "manifest_path (ao_config aof)"
  obtain c s0 where c: "sys_call s = (c, s0)" by (cases "sys_call s")
  note f0 = sys_call_files [OF c]
  have rename: "sys_rename tmp ?path s = (case c of Some e \<Rightarrow> (Some e, s0)
      | None \<Rightarrow> (None, s0\<lparr>os_names := (os_names s0)(tmp := None, ?path := Some fd)\<rparr>))"
    using c tmp f0 by (auto simp: sys_rename_def same_files_def split: option.split)
  have removed: "os_data (snd (sys_remove q x)) = os_data x \<and> os_synced (snd (sys_remove q x)) = os_synced x
      \<and> (\<forall>p. p \<noteq> q \<longrightarrow> os_names (snd (sys_remove q x)) p = os_names x p)" for q x
    using sys_call_files [of x "fst (sys_call x)" "snd (sys_call x)"]
    by (auto simp: sys_remove_def same_files_def split: prod.splits option.splits)
  have goal: "os_data s' = os_data s \<and> os_names s' ?path \<in> {os_names s ?path, Some fd} \<and>
      (ok_status st \<longrightarrow> os_names s' ?path = Some fd \<and> ao_fd aof' = Some fd \<and> os_synced s' = os_synced s)"
  proof (cases c)
    case (Some e)
    obtain ec s2 where rm: "sys_remove tmp s0 = (ec, s2)" by (cases "sys_remove tmp s0")
    have st: "st = io_error (''failed to install rewritten AOF: '' @ ec_message ec)" "s' = s2"
      using op rename Some rm by (auto simp: install_rewrite_def Let_def)
    then show ?thesis
      using removed [of tmp s0] rm f0 ne by (auto simp: same_files_def)
  next
    case None
    define s1 where "s1 = s0\<lparr>os_names := (os_names s0)(tmp := None, ?path := Some fd)\<rparr>"
    define s2 where "s2 = sync_parent_dir_best_effort ?path s1"
    define s3 where "s3 = (if path_is_safe ?man then snd (sys_remove ?man s2) else s2)"
    obtain st4 aof4 s4 where re: "reopen_locked aof s3 = (st4, aof4, s4)" by (cases "reopen_locked aof s3")
    have 2: "os_names s2 ?path = Some fd" "os_data s2 = os_data s" "os_synced s2 = os_synced s"
      using sync_parent_files [of s1 ?path] f0 by (simp_all add: s2_def s1_def same_files_def)
    have 3: "os_names s3 ?path = Some fd" "os_data s3 = os_data s" "os_synced s3 = os_synced s"
      using 2 removed [of ?man s2] manifest by (auto simp: s3_def)
    note 4 = reopen_spec [OF 3(1) re]
    have eq: "install_rewrite aof tmp s = (case reopen_locked aof s3 of (st, aof', s4) \<Rightarrow>
        if \<not> ok_status st then (st, note_failure st aof', s4)
        else (status_ok, aof'\<lparr>ao_last_error := [], ao_last_write_ok := True\<rparr>, s4))"
      by (simp add: install_rewrite_def rename None s1_def s2_def s3_def Let_def)
    have "(st, s') = (if ok_status st4 then status_ok else st4, s4) \<and> ao_fd aof' = ao_fd aof4"
      using op re unfolding eq by (auto simp: note_failure_def split: if_splits)
    then show ?thesis
      using 3 4(1,2) by (auto simp: same_files_def split: if_splits)
  qed
  then show "os_data s' = os_data s" "os_names s' ?path \<in> {os_names s ?path, Some fd}"
    "ok_status st \<Longrightarrow> os_names s' ?path = Some fd \<and> ao_fd aof' = Some fd \<and> os_synced s' = os_synced s"
    by simp_all
qed

lemma rewrite_tmp_differs: "rewrite_tmp_path pid path \<noteq> path"
  by (simp add: rewrite_tmp_path_def)

lemma aof_rewrite_files:
  assumes ok: "fs_ok s" and manifest: "manifest_path (ao_config aof) \<noteq> aof_path (ao_config aof)"
    and op: "aof_rewrite aof se now s = (st, aof', se', s')"
  defines "path \<equiv> aof_path (ao_config aof)"
  shows "file_at s' path = file_at s path \<or> file_at s' path = Some (restored_log (fst (storage_snapshot se now)))"
    and "ok_status st \<Longrightarrow> file_at s' path = Some (restored_log (fst (storage_snapshot se now)))
      \<and> ao_fd aof' = os_names s' path
      \<and> os_synced s' (the (os_names s' path)) = length (restored_log (fst (storage_snapshot se now)))"
proof -
  obtain st1 s1 where p: "ensure_parent_dir path s = (st1, s1)" by (cases "ensure_parent_dir path s")
  note f1 = parent_dir_files [OF p]
  define tmp where "tmp = rewrite_tmp_path (os_pid s1) path"
  have tmp: "tmp \<noteq> path" by (simp add: tmp_def rewrite_tmp_differs)
  obtain r s2 where o: "sys_open True tmp s1 = (r, s2)" by (cases "sys_open True tmp s1")
  obtain entries se2 where sn: "storage_snapshot se now = (entries, se2)" by (cases "storage_snapshot se now")
  let ?new = "restored_log entries"
  have goal: "(file_at s' path = file_at s path \<or> file_at s' path = Some ?new) \<and>
    (ok_status st \<longrightarrow> file_at s' path = Some ?new \<and> ao_fd aof' = os_names s' path
      \<and> os_synced s' (the (os_names s' path)) = length ?new)"
  proof (cases "aof_enabled (ao_config aof) \<and> path_is_safe path \<and> ok_status st1")
    case False
    with op p have "\<not> ok_status st \<and> (s' = s \<or> s' = s1)"
      by (auto simp: aof_rewrite_def path_def [symmetric] split: if_splits)
    with same_files_file [OF f1] show ?thesis by auto
  next
    case start: True
    show ?thesis
    proof (cases r)
      case (Inl e)
      have "same_files s1 s2"
        using o Inl by (auto simp: sys_open_def dest: sys_call_files split: prod.splits option.splits)
      then have "file_at s2 path = file_at s path"
        using same_files_file f1 by metis
      moreover have "\<not> ok_status st" "s' = s2"
        using op p start o Inl by (auto simp: aof_rewrite_def path_def [symmetric] tmp_def [symmetric] Let_def)
      ultimately show ?thesis by simp
    next
      case (Inr fd)
      have "fs_ok s1" using same_files_ok [OF f1] ok by simp
      note opened = open_tmp_spec [OF this o [unfolded Inr]]
      obtain st3 s3 where w: "write_rewrite_tmp tmp entries fd s2 = (st3, s3)"
        by (cases "write_rewrite_tmp tmp entries fd s2")
      note written = write_rewrite_tmp_spec [OF w]
      have name3: "os_names s3 path = os_names s path"
        using written(1) opened(4) [of path] tmp f1 by (auto simp: only_tmp_def same_files_def)
      have data3: "os_names s path = Some i \<Longrightarrow> os_data s3 i = os_data s i" for i
        using written(1) opened(5) [of path] opened(6) [of i] tmp f1 by (auto simp: only_tmp_def same_files_def)
      have file3: "file_at s3 path = file_at s path"
        using name3 data3 by (cases "os_names s path") (auto simp: file_at_def)
      show ?thesis
      proof (cases "ok_status st3")
        case False
        with op p start o Inr sn w have "\<not> ok_status st" "s' = s3"
          by (auto simp: aof_rewrite_def path_def [symmetric] tmp_def [symmetric] Let_def)
        with file3 show ?thesis by simp
      next
        case True
        note w3 = written(2) [OF True]
        obtain st4 aof4 s4 where i: "install_rewrite aof tmp s3 = (st4, aof4, s4)"
          by (cases "install_rewrite aof tmp s3")
        have name_tmp: "os_names s3 tmp = Some fd" using w3 opened(2) by simp
        note inst = install_rewrite_spec [OF name_tmp tmp [unfolded path_def] manifest i]
        have res: "st = st4" "aof' = aof4" "s' = s4"
          using op p start o Inr sn w True i
          by (auto simp: aof_rewrite_def path_def [symmetric] tmp_def [symmetric] Let_def)
        have new: "os_data s4 fd = ?new" using inst(1) w3 opened(3) by simp
        show ?thesis
          using inst new file3 w3 res unfolding path_def [symmetric]
          by (auto simp: file_at_def)
      qed
    qed
  qed
  then show "file_at s' path = file_at s path \<or> file_at s' path = Some (restored_log (fst (storage_snapshot se now)))"
    and "ok_status st \<Longrightarrow> file_at s' path = Some (restored_log (fst (storage_snapshot se now)))
      \<and> ao_fd aof' = os_names s' path
      \<and> os_synced s' (the (os_names s' path)) = length (restored_log (fst (storage_snapshot se now)))"
    by (simp_all add: sn)
qed


section \<open>Replaying\<close>

text \<open>
  The reference: run the callback over a list of commands, counting, until it fails.
\<close>

fun apply_all :: "('s \<Rightarrow> string list \<Rightarrow> status \<times> 's) \<Rightarrow> string list list \<Rightarrow> nat \<Rightarrow> 's \<Rightarrow> status option \<times> nat \<times> 's" where
  "apply_all callback [] n x = (None, n, x)"
| "apply_all callback (c # cs) n x =
     (case callback x c of (st, x') \<Rightarrow>
        if \<not> ok_status st then (Some st, n, x') else apply_all callback cs (n + 1) x')"

definition replay_result :: "string option \<Rightarrow> string \<Rightarrow> ReplayStats \<Rightarrow> status option \<times> nat \<times> 's \<Rightarrow> ReplayStats \<times> 's" where
  "replay_result e rest stats res =
     (case res of
        (Some st, n, x) \<Rightarrow> (stats\<lparr>rs_commands := n, rs_status := st\<rparr>, x)
      | (None, n, x) \<Rightarrow>
          (case e of
             None \<Rightarrow> (stats\<lparr>rs_commands := n, rs_ignored_partial_tail := (rest \<noteq> [])\<rparr>, x)
           | Some m \<Rightarrow> (stats\<lparr>rs_commands := n, rs_status := protocol_error (''AOF replay failed: '' @ m)\<rparr>, x)))"

lemma replay_loop_decode:
  assumes "decode_all (command_step (options p)) (buffer p) = (cs, e, rest)"
  shows "replay_loop callback p stats x = replay_result e rest stats (apply_all callback cs (rs_commands stats) x)"
  using assms
proof (induction "length (buffer p)" arbitrary: p stats x cs rule: less_induct)
  case less
  obtain res p' where nx: "next_command p = (res, p')" by (cases "next_command p")
  note unfold = cmds.decode_all_unfold [of "options p" "buffer p", unfolded command_step_parser nx]
  show ?case
  proof (cases "cp_status res")
    case NeedMore
    with next_command_need_more [OF nx] less.prems unfold nx show ?thesis
      by (simp add: replay_loop.simps [of callback p] replay_result_def buffered_bytes_def)
  next
    case Parse_Error
    with less.prems unfold nx show ?thesis
      by (auto simp: replay_loop.simps [of callback p] replay_result_def)
  next
    case Parse_Ok
    obtain cs' e' rest' where d: "decode_all (command_step (options p)) (buffer p') = (cs', e', rest')"
      by (cases "decode_all (command_step (options p)) (buffer p')")
    have eqs: "cs = args (cp_command res) # cs'" "e' = e" "rest' = rest"
      using less.prems unfold Parse_Ok d by auto
    obtain st x' where cb: "callback x (args (cp_command res)) = (st, x')"
      by (cases "callback x (args (cp_command res))")
    have small: "length (buffer p') < length (buffer p)"
      by (rule next_command_less [OF nx [symmetric] Parse_Ok])
    have "decode_all (command_step (options p')) (buffer p') = (cs', e, rest)"
      using d eqs next_command_options [OF nx] by simp
    note IH = less.hyps [OF small this, of "stats\<lparr>rs_commands := rs_commands stats + 1\<rparr>" x']
    show ?thesis
      using nx Parse_Ok cb IH eqs
      by (auto simp: replay_loop.simps [of callback p] replay_result_def split: option.split prod.split)
  qed
qed

text \<open>Replaying a prefix of a log from an offset: the complete commands are run, the rest is noted.\<close>

definition log_fits :: "ProtocolConfig \<Rightarrow> string list list \<Rightarrow> bool" where
  "log_fits limits cs \<longleftrightarrow>
     (\<forall>c \<in> set cs. command_fits (parser_options_from_config limits) c) \<and>
     length (concat (map encode_command cs)) \<le> max_request_bytes limits"

lemma replay_file_prefix:
  assumes "path_is_safe path" and "file_at s path = Some (done @ b)" and "os_script s = []"
    and "log_fits limits cs" and "concat (map encode_command cs) = b @ lost"
  shows "\<exists>k tail. k \<le> length cs \<and> b = concat (map encode_command (take k cs)) @ tail \<and> (lost = [] \<longrightarrow> k = length cs \<and> tail = [])
    \<and> (\<forall>callback (x :: 's). replay_file path limits callback (length done) x s =
       (case replay_result None tail no_stats (apply_all callback (take k cs) 0 x) of (stats, x') \<Rightarrow> (stats, x', s)))"
proof -
  let ?opts = "parser_options_from_config limits"
  have fits: "\<forall>c \<in> set cs. command_fits ?opts c" using assms(4) by (simp add: log_fits_def)
  obtain k0 tail where d: "decode_all (command_step ?opts) b = (take k0 cs, None, tail)"
    and b: "b = concat (map encode_command (take k0 cs)) @ tail"
    and rest: "k0 < length cs \<longrightarrow> length tail < length (encode_command (cs ! k0))"
    using cmds.decode_truncated [OF fits assms(5)] by auto
  define k where "k = min k0 (length cs)"
  have k: "take k0 cs = take k cs" "k \<le> length cs" by (simp_all add: k_def min_def)
  have whole: "k = length cs \<and> tail = []" if "lost = []"
  proof -
    have all: "concat (map encode_command cs) = b" using that assms(5) by simp
    have "decode_all (command_step ?opts) b = (cs, None, [])"
      using cmds.decode_encoded [OF fits, of "[]"] all cmds.decode_all_unfold [of ?opts "[]"] by simp
    with d show ?thesis using k by (metis length_take min.absorb2 prod.inject k_def nat_le_linear take_all_iff)
  qed
  have names: "os_names s path \<noteq> None" using assms(2) by (auto simp: file_at_def)
  have content: "sys_read_file path s = (Some (done @ b), s)"
    using assms(2,3) by (simp add: sys_read_file_def file_at_def)
  have len: "length b \<le> max_request_bytes limits"
    using assms(4,5) by (simp add: log_fits_def)
  have run: "replay_loop callback \<lparr>options = ?opts, buffer = b\<rparr> no_stats x =
      replay_result None tail no_stats (apply_all callback (take k cs) 0 x)" for callback and x :: 's
    using replay_loop_decode [of "\<lparr>options = ?opts, buffer = b\<rparr>" "take k cs" None tail callback no_stats x] d k
    by (simp add: no_stats_def)
  have "replay_file path limits callback (length done) x s =
      (case replay_result None tail no_stats (apply_all callback (take k cs) 0 x) of (stats, x') \<Rightarrow> (stats, x', s))"
    for callback and x :: 's
  proof (cases "b = []")
    case True
    have nil: "take k cs = []" and "tail = []"
      using d k True cmds.decode_all_unfold [of ?opts "[]"] by simp_all
    then show ?thesis using assms(1) names content True
      unfolding nil by (simp add: replay_file_def sys_exists_def read_file_def replay_result_def no_stats_def)
  next
    case False
    then show ?thesis
      using assms(1) names content len run
      by (simp add: replay_file_def sys_exists_def read_file_def parser_append_def mk_parser_def
          parser_options_from_config_def)
  qed
  with b k whole show ?thesis by auto
qed

end
