(* ===== verification/Storage_Sim.thy ===== *)
theory Storage_Sim
  imports Storage_Trace
begin

text \<open>
  Two engines with the same parameters and the same contents behave alike: the memory in use is a
  function of the contents, so a write that one engine accepts the other accepts too.  This is
  what makes a log that was recorded on one engine replayable on another.  The comparison is up to a
  horizon that no expiry falls before: the deadlines of the two engines may differ, but until then
  the clock plays no role.
\<close>


section \<open>Memory as a function of the contents\<close>

definition all_entries :: "StorageEngine \<Rightarrow> (string \<times> Entry) list" where
  "all_entries se = concat (map s_map (se_shards se))"

lemma all_entries_member:
  assumes inv: "storage_inv se"
  shows "(k, e) \<in> set (all_entries se) \<longleftrightarrow> lookup se k = Some e"
proof -
  have "(k, e) \<in> set (all_entries se) \<longleftrightarrow>
      (\<exists>i < length (se_shards se). (k, e) \<in> set (s_map (se_shards se ! i)))"
    by (fastforce simp: all_entries_def in_set_conv_nth)
  also have "\<dots> \<longleftrightarrow> lookup se k = Some e"
    using shard_member [OF inv] storage_inv_shard_for_key [OF inv] by blast
  finally show ?thesis .
qed

lemma all_entries_distinct:
  assumes inv: "storage_inv se"
  shows "distinct (map fst (all_entries se))"
proof -
  define ks where "ks i = map fst (s_map (se_shards se ! i))" for i
  have dist: "distinct (ks i)" if "i < length (se_shards se)" for i
    unfolding ks_def by (rule shard_distinct [OF inv that])
  have home: "shard_for_key se k = i" if "k \<in> set (ks i)" "i < length (se_shards se)" for k i
    using that shard_member [OF inv that(2)] by (auto simp: ks_def)
  have "distinct (concat (map ks is))"
    if "distinct is" "set is \<subseteq> {..<length (se_shards se)}" for "is"
    using that
  proof (induction "is")
    case (Cons i "is")
    then have "set (ks i) \<inter> set (ks j) = {}" if "j \<in> set is" for j
      using that home [of _ i] home [of _ j] by (auto simp: disjoint_iff)
    then have "set (ks i) \<inter> set (concat (map ks is)) = {}" by auto
    with Cons dist [of i] show ?case by simp
  qed simp
  from this [of "[0..<length (se_shards se)]"] show ?thesis
    using map_se_shards [of "\<lambda>s. map fst (s_map s)" se]
    by (simp add: all_entries_def map_concat comp_def lessThan_atLeast0 ks_def [abs_def])
qed

lemma sum_list_map_concat: "sum_list (map f (concat xss)) = sum_list (map (\<lambda>xs. sum_list (map f xs)) xss)"
  by (induction xss) simp_all

lemma total_memory_entries:
  assumes inv: "storage_inv se"
  shows "total_memory se = sum_list (map (\<lambda>(k, e). entry_memory k (e_value e)) (all_entries se))"
proof -
  have "map s_memory_bytes (se_shards se) = map (\<lambda>s. map_memory (s_map s)) (se_shards se)"
  proof (rule nth_equalityI)
    fix i assume i: "i < length (map s_memory_bytes (se_shards se))"
    with storage_inv_shard [OF inv, of i] show "map s_memory_bytes (se_shards se) ! i = map (\<lambda>s. map_memory (s_map s)) (se_shards se) ! i"
      by (simp add: shard_wf_def)
  qed simp
  then have "total_memory se = sum_list (map (\<lambda>s. map_memory (s_map s)) (se_shards se))"
    by (simp only: total_memory_def)
  also have "\<dots> = sum_list (map (\<lambda>(k, e). entry_memory k (e_value e)) (all_entries se))"
    by (simp add: all_entries_def map_memory_def sum_list_map_concat comp_def)
  finally show ?thesis .
qed

text \<open>The bytes of a map of keys to values.\<close>

definition contents_memory :: "kv \<Rightarrow> nat" where
  "contents_memory m = (\<Sum>k\<in>dom m. entry_memory k (fst (the (m k))))"

lemma contents_dom: "storage_inv se \<Longrightarrow> dom (contents (lookup se)) = fst ` set (all_entries se)"
  using all_entries_member [of se] by (force simp: contents_def dom_def image_iff)

lemma finite_contents: "storage_inv se \<Longrightarrow> finite (dom (contents (lookup se)))"
  by (simp add: contents_dom)

lemma total_memory_contents:
  assumes inv: "storage_inv se"
  shows "total_memory se = contents_memory (contents (lookup se))"
proof -
  have "total_memory se = (\<Sum>p\<in>set (all_entries se). entry_memory (fst p) (e_value (snd p)))"
    using all_entries_distinct [OF inv]
    by (simp add: total_memory_entries [OF inv] split_def sum_list_distinct_conv_sum_set distinct_map)
  also have "\<dots> = (\<Sum>k\<in>fst ` set (all_entries se). entry_memory k (fst (the (contents (lookup se) k))))"
  proof (subst sum.reindex)
    show "inj_on fst (set (all_entries se))"
      using all_entries_distinct [OF inv] by (simp add: distinct_map)
    show "(\<Sum>p\<in>set (all_entries se). entry_memory (fst p) (e_value (snd p))) =
      sum ((\<lambda>k. entry_memory k (fst (the (contents (lookup se) k)))) \<circ> fst) (set (all_entries se))"
      using all_entries_member [OF inv] by (intro sum.cong) (auto simp: contents_def)
  qed
  finally show ?thesis by (simp add: contents_memory_def contents_dom [OF inv])
qed

lemma used_memory_contents:
  "storage_inv se \<Longrightarrow> se_used_memory se =
     (if max_memory_bytes (se_config se) = 0 then 0 else contents_memory (contents (lookup se)))"
proof -
  assume inv: "storage_inv se"
  then have "memory_ok (se_config se) (se_used_memory se) (total_memory se)" by (simp add: storage_inv_def)
  with total_memory_contents [OF inv] show ?thesis by (simp add: memory_ok_def split: if_splits)
qed


section \<open>Engines within a horizon\<close>

text \<open>
  A horizon is a time; \<open>None\<close> is the end of time, which only entries without an expiry reach.
\<close>

definition in_time :: "time_point option \<Rightarrow> time_point \<Rightarrow> bool" where
  "in_time h t = (case h of None \<Rightarrow> True | Some latest \<Rightarrow> t \<le> latest)"

definition lasts :: "time_point option \<Rightarrow> time_point option \<Rightarrow> bool" where
  "lasts h x = (case x of None \<Rightarrow> True | Some d \<Rightarrow> (case h of None \<Rightarrow> False | Some latest \<Rightarrow> latest < d))"

lemma horizon_simps [simp]:
  "in_time None t" "in_time (Some latest) t \<longleftrightarrow> t \<le> latest" "lasts h None" "lasts (Some latest) (Some d) \<longleftrightarrow> latest < d"
  "lasts None x \<longleftrightarrow> x = None"
  by (simp_all add: in_time_def lasts_def split: option.split)

definition plain :: "time_point option \<Rightarrow> StorageEngine \<Rightarrow> bool" where
  "plain h se \<longleftrightarrow> (\<forall>k e. lookup se k = Some e \<longrightarrow> lasts h (e_expiry e))"

lemma plain_contents: "plain h se \<longleftrightarrow> (\<forall>k v x. contents (lookup se) k = Some (v, x) \<longrightarrow> lasts h x)"
  by (auto simp: plain_def contents_def)

lemma plain_not_expired: "plain h se \<Longrightarrow> in_time h now \<Longrightarrow> lookup se k = Some e \<Longrightarrow> \<not> expired e now"
  by (fastforce simp: plain_def expired_def in_time_def lasts_def split: option.splits)

lemma plain_view: "plain h se \<Longrightarrow> in_time h now \<Longrightarrow> view se now = contents (lookup se)"
  using plain_not_expired by (fastforce simp: view_def contents_def fun_eq_iff visible_def split: option.split)

lemma plain_evict: "plain h se \<Longrightarrow> in_time h now \<Longrightarrow> evict now k (lookup se) = lookup se"
  using plain_not_expired by (cases "lookup se k") (auto simp: evict_lookup)

lemma plain_evict_all: "plain h se \<Longrightarrow> in_time h now \<Longrightarrow> evict_all now (lookup se) = lookup se"
  using plain_not_expired by (fastforce simp: evict_all_def visible_def fun_eq_iff split: option.split)

text \<open>The values of a map and which of them have a deadline.\<close>

definition shape :: "kv \<Rightarrow> string \<rightharpoonup> string \<times> bool" where
  "shape m = (\<lambda>k. map_option (\<lambda>(v, x). (v, x \<noteq> None)) (m k))"

lemma shape_update [simp]: "shape (m(k \<mapsto> (v, x))) = (shape m)(k \<mapsto> (v, x \<noteq> None))" "shape (m(k := None)) = (shape m)(k := None)"
  by (auto simp: shape_def)

lemma shape_none: "shape m = shape m' \<Longrightarrow> m k = None \<longleftrightarrow> m' k = None"
  by (drule fun_cong [of _ _ k]) (auto simp: shape_def)

lemma shape_values:
  assumes "shape m = shape m'"
  shows "seen_value (m k) = seen_value (m' k)" and "counter_value (m k) = counter_value (m' k)"
    and "map_option fst (m k) = map_option fst (m' k)"
  using fun_cong [OF assms, of k]
  by (cases "m k"; cases "m' k"; auto simp: shape_def seen_value_def counter_value_def)+

lemma contents_memory_shape:
  assumes "shape m = shape m'"
  shows "contents_memory m = contents_memory m'"
proof -
  have "dom m = dom m'" using shape_none [OF assms] unfolding dom_def by simp
  moreover have "fst (the (m k)) = fst (the (m' k))" if "k \<in> dom m" for k
    using shape_values(3) [OF assms, of k] that by (cases "m k"; cases "m' k") auto
  ultimately show ?thesis unfolding contents_memory_def by (intro sum.cong) auto
qed

text \<open>The simulation relation.\<close>

definition alike :: "time_point option \<Rightarrow> StorageEngine \<Rightarrow> StorageEngine \<Rightarrow> bool" where
  "alike h a b \<longleftrightarrow> storage_inv a \<and> storage_inv b \<and> same_params a b \<and> plain h a \<and> plain h b
     \<and> shape (contents (lookup a)) = shape (contents (lookup b))"

lemma alikeD:
  assumes "alike h a b"
  shows "storage_inv a" and "storage_inv b" and "same_params a b" and "plain h a" and "plain h b"
    and "shape (contents (lookup b)) = shape (contents (lookup a))"
    and "in_time h t \<Longrightarrow> shape (view b t) = shape (view a t)"
proof -
  show rel: "storage_inv a" "storage_inv b" "same_params a b" "plain h a" "plain h b"
    "shape (contents (lookup b)) = shape (contents (lookup a))"
    using assms by (simp_all add: alike_def)
  then show "shape (view b t) = shape (view a t)" if "in_time h t" using that by (simp add: plain_view)
qed

lemma alike_view:
  assumes "alike None a b"
  shows "view b t = view a t"
proof
  fix k
  note rel = alikeD [OF assms]
  have "view a t = contents (lookup a)" "view b t = contents (lookup b)"
    using plain_view [OF rel(4)] plain_view [OF rel(5)] by simp_all
  with fun_cong [OF rel(6), of k] rel(4,5) show "view b t k = view a t k"
    by (cases "contents (lookup a) k"; cases "contents (lookup b) k") (auto simp: plain_contents shape_def)
qed

lemma alikeI:
  assumes "alike h a b" and "keeps a a'" and "keeps b b'" and "plain h a'" and "plain h b'"
    and "shape (contents (lookup a')) = shape (contents (lookup b'))"
  shows "alike h a' b'"
  using assms(1,4-6) keepsD [OF assms(2)] keepsD [OF assms(3)] by (simp add: alike_def same_params_def)

lemma alike_same:
  assumes "alike h a b" and "keeps a a'" and "keeps b b'" and "lookup a' = lookup a" and "lookup b' = lookup b"
  shows "alike h a' b'"
proof (rule alikeI [OF assms(1-3)])
  show "plain h a'" "plain h b'" using alikeD(4,5) [OF assms(1)] assms(4,5) unfolding plain_def by simp_all
  show "shape (contents (lookup a')) = shape (contents (lookup b'))" using alikeD(6) [OF assms(1)] assms(4,5) by simp
qed

lemma alike_refl: "storage_inv se \<Longrightarrow> plain h se \<Longrightarrow> alike h se se"
  by (simp add: alike_def)

lemma alike_granted:
  assumes "alike h a b"
  shows "write_granted a k (lookup a k) v = write_granted b k (lookup b k) v"
proof -
  note ab = alikeD [OF assms]
  have "se_used_memory a = se_used_memory b"
    using used_memory_contents [OF ab(1)] used_memory_contents [OF ab(2)] ab(3) contents_memory_shape [OF ab(6)]
    by (simp add: same_params_def)
  moreover have "map_option e_value (lookup a k) = map_option e_value (lookup b k)"
    using shape_values(3) [OF ab(6), of k] by (cases "lookup a k"; cases "lookup b k") (auto simp: contents_def)
  then have "memory_of k (lookup a k) = memory_of k (lookup b k)" "lookup a k = None \<longleftrightarrow> lookup b k = None"
    by (cases "lookup a k"; cases "lookup b k"; simp add: memory_of_def)+
  ultimately show ?thesis using ab(3) by (simp add: write_granted_def same_params_def)
qed

lemma contents_write: "contents ((lookup se)(k \<mapsto> written_entry it v x now)) = (contents (lookup se))(k \<mapsto> (v, x))"
  by (simp add: contents_simps written_entry_def)

lemma plain_write:
  assumes "plain h se" and "lookup se' = (lookup se)(k \<mapsto> written_entry it v x now)" and "lasts h x"
  shows "plain h se'"
  using assms by (auto simp: plain_def written_entry_def)

text \<open>Writing the same value to both.\<close>

lemma alike_write:
  assumes "alike h a b" and "keeps a a'" and "keeps b b'"
    and "lookup a' = (lookup a)(k \<mapsto> written_entry ea v xa n1)" and "lookup b' = (lookup b)(k \<mapsto> written_entry eb v xb n2)"
    and "lasts h xa" and "lasts h xb" and "xa = None \<longleftrightarrow> xb = None"
  shows "alike h a' b'"
proof (rule alikeI [OF assms(1-3)])
  note rel = alikeD [OF assms(1)]
  show "plain h a'" "plain h b'"
    by (rule plain_write [OF rel(4) assms(4,6)], rule plain_write [OF rel(5) assms(5,7)])
  show "shape (contents (lookup a')) = shape (contents (lookup b'))"
    using rel(6) assms(8) unfolding assms(4,5) contents_write by simp
qed

lemma plain_find_live:
  assumes "storage_inv se" and "plain h se" and "in_time h now"
  shows "find_live se (shard_for_key se k) k now = (lookup se k, se)"
  using plain_not_expired [OF assms(2,3)] by (auto simp: find_live_def lookup_def split: option.split)


section \<open>Operations on alike engines\<close>

text \<open>The outcome of \<open>set\<close> on an engine where nothing has expired.\<close>

lemma plain_set_code:
  assumes inv: "storage_inv se" and pl: "plain h se" and now: "in_time h now" and op: "storage_set se now k v ttl cond = (res, se')"
  shows "wr_code res =
    (if \<not> key_valid se k then KeyTooLarge else if \<not> value_valid se v then ValueTooLarge
     else if \<not> condition_met cond (contents (lookup se) k) then NotSet
     else if write_granted se k (lookup se k) v then Ok else NoMemory)"
proof -
  have none: "contents (lookup se) k = None \<longleftrightarrow> lookup se k = None" by (simp add: contents_def)
  have fl: "find_live se (shard_for_key se k) k now = (lookup se k, se)" by (rule plain_find_live [OF inv pl now])
  have e1: "snd (erase_if_expired_locked se (shard_for_key se k) k now) = se"
    using fl by (simp add: erase_if_expired_find_live)
  have cond: "(cond = NX \<and> lookup se k \<noteq> None \<or> cond = XX \<and> \<not> lookup se k \<noteq> None)
      \<longleftrightarrow> \<not> condition_met cond (contents (lookup se) k)"
    using none by (cases cond) (simp_all add: condition_met_def)
  have w: "write_entry se (shard_for_key se k) k (lookup se k) v (map_option (tp_add now) ttl) now =
      (if write_granted se k (lookup se k) v then
         (Ok, stored se (shard_for_key se k) k (written_entry (lookup se k) v (map_option (tp_add now) ttl) now)
               (memory_of k (lookup se k)) (entry_memory k v))
       else (NoMemory, se))"
    by (rule write_entry_cases [OF inv]) (simp add: inv)
  show ?thesis
    using op unfolding storage_set_def Let_def e1 find_shard cond w option.map by (auto split: if_splits)
qed

lemma alike_set:
  assumes ab: "alike h a b" and a: "storage_set a n1 k v ta cond = (ra, a')" and okay: "wr_code ra = Ok"
    and b: "storage_set b n2 k v tb Always = (rb, b')"
    and now: "in_time h n1" "in_time h n2"
    and deadlines: "lasts h (map_option (tp_add n1) ta)" "lasts h (map_option (tp_add n2) tb)" "ta = None \<longleftrightarrow> tb = None"
  shows "wr_code rb = Ok \<and> alike h a' b'"
proof -
  note rel = alikeD [OF ab]
  note sa = storage_set_spec [OF rel(1) a] and sb = storage_set_spec [OF rel(2) b]
  have "write_granted a k (lookup a k) v" "key_valid a k" "value_valid a v"
    using plain_set_code [OF rel(1,4) now(1) a] okay by (auto split: if_splits)
  then have codeb: "wr_code rb = Ok"
    using plain_set_code [OF rel(2,5) now(2) b] alike_granted [OF ab, of k v] same_params_valid [OF rel(3)]
    by (simp add: condition_met_def)
  obtain ea eb where "lookup a' = (lookup a)(k \<mapsto> written_entry ea v (map_option (tp_add n1) ta) n1)"
      "lookup b' = (lookup b)(k \<mapsto> written_entry eb v (map_option (tp_add n2) tb) n2)"
    using sa(6) [OF okay] sb(6) [OF codeb] by auto
  from alike_write [OF ab sa(1) sb(1) this deadlines(1,2)] deadlines(3) codeb show ?thesis by simp
qed

text \<open>A write that is refused changes nothing here.\<close>

lemma unchanged_alike:
  assumes "alike h a b" and "keeps a a'" and "in_time h now" and "lookup a' = lookup a \<or> lookup a' = evict now k (lookup a)
    \<or> lookup a' = evict_all now (lookup a)"
  shows "alike h a' b"
proof -
  note rel = alikeD [OF assms(1)]
  have same: "lookup a' = lookup a" using assms(4) plain_evict [OF rel(4) assms(3)] plain_evict_all [OF rel(4) assms(3)] by auto
  show ?thesis by (rule alike_same [OF assms(1,2) keeps_refl [OF rel(2)] same refl])
qed

lemma write_code:
  assumes "storage_inv se" and "write_entry se (shard_for_key se k) k (lookup se k) v x now = (c, se2)"
  shows "c = Ok \<longleftrightarrow> write_granted se k (lookup se k) v"
  using write_entry_cases [OF assms(1), of "shard_for_key se k" k "lookup se k" v x now] assms by (auto split: if_splits)

lemma alike_incr:
  assumes ab: "alike h a b" and d: "in_i64 delta" and a: "storage_incr_by a n1 k delta = (ra, a')"
    and b: "storage_incr_by b n2 k delta = (rb, b')" and now: "in_time h n1" "in_time h n2"
  shows "if wr_code ra = Ok then rb = ra \<and> alike h a' b' else alike h a' b"
proof (cases "wr_code ra = Ok")
  case False
  note sa = storage_incr_by_spec [OF alikeD(1) [OF ab] d a]
  show ?thesis using unchanged_alike [OF ab sa(1) now(1)] sa(5) [OF False] False by auto
next
  case True
  note rel = alikeD [OF ab]
  note sa = storage_incr_by_spec [OF rel(1) d a] and sb = storage_incr_by_spec [OF rel(2) d b]
  have views: "counter_value (view a n1 k) = counter_value (contents (lookup a) k)"
      "counter_value (view b n2 k) = counter_value (contents (lookup a) k)"
    using plain_view [OF rel(4) now(1)] plain_view [OF rel(5) now(2)] shape_values(2) [OF rel(6)] by simp_all
  note stepa = storage_incr_by_step [OF rel(1) d plain_find_live [OF rel(1,4) now(1), of k], unfolded views a]
    and stepb = storage_incr_by_step [OF rel(2) d plain_find_live [OF rel(2,5) now(2), of k], unfolded views b]
  obtain c where c: "key_valid a k" "counter_value (contents (lookup a) k) = Some c" "in_i64 (c + delta)"
      "value_valid a (int_to_string (c + delta))"
    using True stepa by (auto split: if_splits option.splits)
  let ?v = "int_to_string (c + delta)"
  obtain ca xa where wa: "write_entry a (shard_for_key a k) k (lookup a k) ?v None n1 = (ca, xa)" by fastforce
  obtain cb xb where wb: "write_entry b (shard_for_key b k) k (lookup b k) ?v None n2 = (cb, xb)" by fastforce
  have "ca = Ok" "ra = \<lparr>wr_code = Ok, wr_integer = c + delta\<rparr>"
    using True stepa c wa by auto
  moreover from this have "cb = Ok"
    using write_code [OF rel(1) wa] write_code [OF rel(2) wb] alike_granted [OF ab, of k ?v] by simp
  ultimately have codeb: "rb = ra" using stepb c wb same_params_valid [OF rel(3)] by simp
  then have okb: "wr_code rb = Ok" using True by simp
  obtain ea eb where "lookup a' = (lookup a)(k \<mapsto> written_entry ea (int_to_string (wr_integer ra)) None n1)"
      "lookup b' = (lookup b)(k \<mapsto> written_entry eb (int_to_string (wr_integer ra)) None n2)"
    using sa(6) [OF True] sb(6) [OF okb] codeb by auto
  from alike_write [OF ab sa(1) sb(1) this] codeb True show ?thesis by simp
qed

lemma alike_append:
  assumes ab: "alike h a b" and a: "storage_append a n1 k x = (ra, a')" and b: "storage_append b n2 k x = (rb, b')"
    and now: "in_time h n1" "in_time h n2"
  shows "if wr_code ra = Ok then rb = ra \<and> alike h a' b' else alike h a' b"
proof (cases "wr_code ra = Ok")
  case False
  note sa = storage_append_spec [OF alikeD(1) [OF ab] a]
  show ?thesis using unchanged_alike [OF ab sa(1) now(1)] sa(4) [OF False] False by auto
next
  case True
  note rel = alikeD [OF ab]
  note sa = storage_append_spec [OF rel(1) a] and sb = storage_append_spec [OF rel(2) b]
  let ?v = "seen_value (contents (lookup a) k) @ x"
  have views: "seen_value (view a n1 k) = seen_value (contents (lookup a) k)" "seen_value (view b n2 k) = seen_value (contents (lookup a) k)"
    using plain_view [OF rel(4) now(1)] plain_view [OF rel(5) now(2)] shape_values(1) [OF rel(6)] by simp_all
  have same: "(case lookup y k of None \<Rightarrow> [] | Some e \<Rightarrow> e_value e) = seen_value (contents (lookup y) k)" for y
    by (simp add: seen_value_def contents_def split: option.split)
  have stepa: "storage_append a n1 k x = (if \<not> key_valid a k then (\<lparr>wr_code = KeyTooLarge, wr_integer = 0\<rparr>, a)
      else if \<not> value_valid a ?v then (\<lparr>wr_code = ValueTooLarge, wr_integer = 0\<rparr>, a)
      else (case write_entry a (shard_for_key a k) k (lookup a k) ?v None n1 of (c, se2) \<Rightarrow>
        (\<lparr>wr_code = c, wr_integer = (if c = Ok then int (length ?v) else 0)\<rparr>, se2)))"
    unfolding storage_append_def plain_find_live [OF rel(1,4) now(1)] Let_def prod.case same by (rule refl)
  have stepb: "storage_append b n2 k x = (if \<not> key_valid b k then (\<lparr>wr_code = KeyTooLarge, wr_integer = 0\<rparr>, b)
      else if \<not> value_valid b ?v then (\<lparr>wr_code = ValueTooLarge, wr_integer = 0\<rparr>, b)
      else (case write_entry b (shard_for_key b k) k (lookup b k) ?v None n2 of (c, se2) \<Rightarrow>
        (\<lparr>wr_code = c, wr_integer = (if c = Ok then int (length ?v) else 0)\<rparr>, se2)))"
    unfolding storage_append_def plain_find_live [OF rel(2,5) now(2)] Let_def prod.case same shape_values(1) [OF rel(6)] by (rule refl)
  obtain ca xa where wa: "write_entry a (shard_for_key a k) k (lookup a k) ?v None n1 = (ca, xa)" by fastforce
  obtain cb xb where wb: "write_entry b (shard_for_key b k) k (lookup b k) ?v None n2 = (cb, xb)" by fastforce
  have "key_valid a k" "value_valid a ?v" "ca = Ok" "ra = \<lparr>wr_code = Ok, wr_integer = int (length ?v)\<rparr>"
    using True stepa [unfolded a wa] by (auto split: if_splits)
  moreover from this have "cb = Ok"
    using write_code [OF rel(1) wa] write_code [OF rel(2) wb] alike_granted [OF ab, of k ?v] by simp
  ultimately have codeb: "rb = ra" using stepb [unfolded b wb] same_params_valid [OF rel(3)] by simp
  then have okb: "wr_code rb = Ok" using True by simp
  obtain ea eb where "lookup a' = (lookup a)(k \<mapsto> written_entry ea ?v None n1)"
      "lookup b' = (lookup b)(k \<mapsto> written_entry eb ?v None n2)"
    using sa(5) [OF True] sb(5) [OF okb] by (auto simp: views)
  from alike_write [OF ab sa(1) sb(1) this] codeb True show ?thesis by simp
qed

lemma alike_del:
  assumes ab: "alike h a b" and a: "storage_del a n1 k = (na, a')" and b: "storage_del b n2 k = (nb, b')"
    and now: "in_time h n1" "in_time h n2"
  shows "nb = na" and "alike h a' b'" and "na = 0 \<Longrightarrow> alike h a' b"
proof -
  note rel = alikeD [OF ab]
  note sa = storage_del_spec [OF rel(1) a] and sb = storage_del_spec [OF rel(2) b]
  have views: "view a n1 k = contents (lookup a) k" "view b n2 k = contents (lookup b) k"
    using plain_view [OF rel(4) now(1)] plain_view [OF rel(5) now(2)] by simp_all
  show "nb = na" using sa(2) sb(2) views shape_none [OF rel(6), of k] by simp
  have "plain h a'" "plain h b'" using rel(4,5) sa(3) sb(3) by (auto simp: plain_def)
  then show "alike h a' b'"
    using alikeI [OF ab sa(1) sb(1)] sa(3) sb(3) rel(6) by (simp add: contents_simps)
  show "alike h a' b" if "na = 0"
  proof -
    have "lookup a k = None" using that sa(2) views by (auto simp: contents_def split: if_splits)
    then have "lookup a' = lookup a" using sa(3) by auto
    then show ?thesis using unchanged_alike [OF ab sa(1) now(1)] by blast
  qed
qed

text \<open>All readings of a clock are within the horizon.\<close>

definition clock_in_time :: "time_point option \<Rightarrow> clock \<Rightarrow> bool" where
  "clock_in_time h clk \<longleftrightarrow> (\<forall>i. in_time h (clk i))"

lemma clock_in_time_simps [simp]: "clock_in_time None clk" "clock_in_time h clk \<Longrightarrow> in_time h (clk i)"
  "clock_in_time h clk \<Longrightarrow> clock_in_time h (\<lambda>i. clk (Suc i))"
  by (simp_all add: clock_in_time_def)

lemma alike_del_keys:
  assumes "alike h a b" and "storage_del_keys a c1 ks = (na, a')" and "storage_del_keys b c2 ks = (nb, b')"
    and "clock_in_time h c1" and "clock_in_time h c2"
  shows "nb = na \<and> alike h a' b' \<and> (na = 0 \<longrightarrow> alike h a' b)"
  using assms
proof (induction ks arbitrary: a b c1 c2 na nb a' b')
  case (Cons k ks)
  obtain n1 a1 where a1: "storage_del a (c1 0) k = (n1, a1)" by fastforce
  obtain m1 b1 where b1: "storage_del b (c2 0) k = (m1, b1)" by fastforce
  obtain n2 a2 where a2: "storage_del_keys a1 (\<lambda>i. c1 (Suc i)) ks = (n2, a2)" by fastforce
  obtain m2 b2 where b2: "storage_del_keys b1 (\<lambda>i. c2 (Suc i)) ks = (m2, b2)" by fastforce
  obtain m3 b3 where b3: "storage_del_keys b (\<lambda>i. c2 (Suc i)) ks = (m3, b3)" by fastforce
  have now: "in_time h (c1 0)" "in_time h (c2 0)" "clock_in_time h (\<lambda>i. c1 (Suc i))" "clock_in_time h (\<lambda>i. c2 (Suc i))"
    using Cons.prems(4,5) by simp_all
  note one = alike_del [OF Cons.prems(1) a1 b1 now(1,2)]
  have two: "m2 = n2 \<and> alike h a2 b2 \<and> (n2 = 0 \<longrightarrow> alike h a2 b1)" by (rule Cons.IH [OF one(2) a2 b2 now(3,4)])
  have three: "alike h a2 b" if "n1 = 0" "n2 = 0" using Cons.IH [OF one(3) [OF that(1)] a2 b3 now(3,4)] that(2) by simp
  show ?case using Cons.prems(2,3) one(1) two three by (auto simp: a1 b1 a2 b2)
qed simp

lemma alike_flushdb:
  assumes "alike h a b"
  shows "alike h (storage_flushdb a) (storage_flushdb b)"
proof -
  note rel = alikeD [OF assms]
  note fa = storage_flushdb_spec [OF rel(1)] and fb = storage_flushdb_spec [OF rel(2)]
  show ?thesis using alikeI [OF assms fa(1) fb(1)] fa(2) fb(2) by (simp add: plain_def)
qed

text \<open>Reads leave an engine alike.\<close>

lemma alike_get:
  assumes ab: "alike h a b" and now: "in_time h now" and op: "storage_get a now k = (r, a')"
  shows "alike h a' b"
proof -
  note rel = alikeD [OF ab]
  note sa = storage_get_spec [OF rel(1) op]
  have "contents (lookup a') = contents (lookup a)"
  proof (cases "lookup a k")
    case None
    with sa(3) show ?thesis by simp
  next
    case (Some e)
    with sa(3) plain_not_expired [OF rel(4) now Some] have "lookup a' = (lookup a)(k \<mapsto> e\<lparr>e_last_access := now\<rparr>)" by simp
    with Some show ?thesis by (auto simp: contents_def fun_eq_iff)
  qed
  then show ?thesis
    using alikeI [OF ab sa(1) keeps_refl [OF rel(2)]] rel(4,5,6) by (simp add: plain_contents)
qed

lemma alike_reads:
  assumes ab: "alike h a b" and now: "in_time h now"
  shows "storage_strlen a now k = (n, a') \<Longrightarrow> alike h a' b"
    and "storage_ttl a now k = (t, a') \<Longrightarrow> alike h a' b"
    and "storage_dbsize a now = (n, a') \<Longrightarrow> alike h a' b"
    and "storage_expires_count a now = (n, a') \<Longrightarrow> alike h a' b"
proof -
  note rel = alikeD [OF ab]
  show "storage_strlen a now k = (n, a') \<Longrightarrow> alike h a' b"
    using alike_get [OF ab now] by (auto simp: storage_strlen_def split: prod.splits option.splits)
  show "storage_ttl a now k = (t, a') \<Longrightarrow> alike h a' b"
    using storage_ttl_spec [OF rel(1)] unchanged_alike [OF ab _ now] by metis
  show "storage_dbsize a now = (n, a') \<Longrightarrow> alike h a' b"
    using storage_dbsize_spec [OF rel(1)] unchanged_alike [OF ab _ now] by metis
  show "storage_expires_count a now = (n, a') \<Longrightarrow> alike h a' b"
    using storage_expires_count_spec [OF rel(1)] unchanged_alike [OF ab _ now] by metis
qed

lemma alike_key_lists:
  "alike h a b \<Longrightarrow> clock_in_time h clk \<Longrightarrow> storage_exists a clk ks = (n, a') \<Longrightarrow> alike h a' b"
  "alike h a b \<Longrightarrow> clock_in_time h clk \<Longrightarrow> storage_mget a clk ks = (vs, a') \<Longrightarrow> alike h a' b"
proof -
  have step: "alike h se b" if "storage_get a (clk 0) k = (r, se)" "alike h a b" "clock_in_time h clk" for a clk k r se
    using alike_get [OF that(2) _ that(1)] that(3) by simp
  show "alike h a b \<Longrightarrow> clock_in_time h clk \<Longrightarrow> storage_exists a clk ks = (n, a') \<Longrightarrow> alike h a' b"
  proof (induction ks arbitrary: a clk n)
    case (Cons k ks)
    obtain r se where g: "storage_get a (clk 0) k = (r, se)" by fastforce
    have "clock_in_time h (\<lambda>i. clk (Suc i))" using Cons.prems(2) by simp
    from Cons.IH [OF step [OF g Cons.prems(1,2)] this] Cons.prems(3) g show ?case by (auto split: prod.splits)
  qed simp
  show "alike h a b \<Longrightarrow> clock_in_time h clk \<Longrightarrow> storage_mget a clk ks = (vs, a') \<Longrightarrow> alike h a' b"
  proof (induction ks arbitrary: a clk vs)
    case (Cons k ks)
    obtain r se where g: "storage_get a (clk 0) k = (r, se)" by fastforce
    have "clock_in_time h (\<lambda>i. clk (Suc i))" using Cons.prems(2) by simp
    from Cons.IH [OF step [OF g Cons.prems(1,2)] this] Cons.prems(3) g show ?case by (auto split: prod.splits)
  qed simp
qed

text \<open>The operations on deadlines.\<close>

lemma alike_lookup:
  assumes "alike h a b"
  shows "(\<exists>ea. lookup a k = Some ea) \<longleftrightarrow> (\<exists>eb. lookup b k = Some eb)"
    and "lookup a k = Some ea \<Longrightarrow> lookup b k = Some eb \<Longrightarrow> e_value ea = e_value eb \<and> (e_expiry ea = None \<longleftrightarrow> e_expiry eb = None)"
  using fun_cong [OF alikeD(6) [OF assms], of k]
  by (cases "lookup a k"; cases "lookup b k"; auto simp: shape_def contents_def)+

lemma alike_entry:
  assumes ab: "alike h a b" and "keeps a a'" and "keeps b b'"
    and "lookup a' = (lookup a)(k \<mapsto> ea)" and "lookup b' = (lookup b)(k \<mapsto> eb)"
    and "lasts h (e_expiry ea)" and "lasts h (e_expiry eb)" and "e_value ea = e_value eb" and "e_expiry ea = None \<longleftrightarrow> e_expiry eb = None"
  shows "alike h a' b'"
proof (rule alikeI [OF assms(1-3)])
  note rel = alikeD [OF ab]
  show "plain h a'" "plain h b'" using rel(4,5) assms(4-7) by (auto simp: plain_def)
  show "shape (contents (lookup a')) = shape (contents (lookup b'))"
    using rel(6) assms(8,9) unfolding assms(4,5) by (simp add: contents_simps)
qed

lemma alike_expire_at:
  assumes ab: "alike h a b" and a: "storage_expire_at a n1 k ta = (ra, a')" and b: "storage_expire_at b n2 k tb = (rb, b')"
    and now: "in_time h n1" "in_time h n2" and deadlines: "lasts h (Some ta)" "lasts h (Some tb)"
  shows "rb = ra \<and> alike h a' b' \<and> (\<not> ra \<longrightarrow> alike h a' b)"
proof -
  note rel = alikeD [OF ab]
  note sa = storage_expire_at_spec [OF rel(1) a] and sb = storage_expire_at_spec [OF rel(2) b]
  have views: "view a n1 = contents (lookup a)" "view b n2 = contents (lookup b)"
    using plain_view [OF rel(4) now(1)] plain_view [OF rel(5) now(2)] by simp_all
  have after: "\<not> ta \<le> n1" "\<not> tb \<le> n2" using now deadlines by (cases h; auto)+
  show ?thesis
  proof (cases "lookup a k")
    case None
    then have "lookup b k = None" using alike_lookup(1) [OF ab, of k] by (cases "lookup b k") auto
    with None sa(2,3) sb(2,3) views have same: "lookup a' = lookup a" "lookup b' = lookup b" "\<not> ra" "\<not> rb"
      by (simp_all add: contents_def)
    moreover have "alike h a' b'" by (rule alike_same [OF ab sa(1) sb(1) same(1,2)])
    ultimately show ?thesis using unchanged_alike [OF ab sa(1) now(1)] by simp
  next
    case (Some ea)
    then obtain eb where eb: "lookup b k = Some eb" using alike_lookup(1) [OF ab, of k] by auto
    have "ra" "rb" using sa(2) sb(2) views Some eb by (simp_all add: contents_def)
    moreover have "alike h a' b'"
    proof (rule alike_entry [OF ab sa(1) sb(1)])
      show "lookup a' = (lookup a)(k \<mapsto> ea\<lparr>e_expiry := Some ta, e_version := e_version ea + 1\<rparr>)"
        using sa(3) Some plain_not_expired [OF rel(4) now(1) Some] after by simp
      show "lookup b' = (lookup b)(k \<mapsto> eb\<lparr>e_expiry := Some tb, e_version := e_version eb + 1\<rparr>)"
        using sb(3) eb plain_not_expired [OF rel(5) now(2) eb] after by simp
    qed (use deadlines alike_lookup(2) [OF ab Some eb] in simp_all)
    ultimately show ?thesis by simp
  qed
qed

lemma alike_persist:
  assumes ab: "alike h a b" and a: "storage_persist a n1 k = (ra, a')" and b: "storage_persist b n2 k = (rb, b')"
    and now: "in_time h n1" "in_time h n2"
  shows "rb = ra \<and> alike h a' b' \<and> (\<not> ra \<longrightarrow> alike h a' b)"
proof -
  note rel = alikeD [OF ab]
  note sa = storage_persist_spec [OF rel(1) a] and sb = storage_persist_spec [OF rel(2) b]
  have views: "view a n1 = contents (lookup a)" "view b n2 = contents (lookup b)"
    using plain_view [OF rel(4) now(1)] plain_view [OF rel(5) now(2)] by simp_all
  show ?thesis
  proof (cases "\<exists>ea. lookup a k = Some ea \<and> e_expiry ea \<noteq> None")
    case True
    then obtain ea xa where ea: "lookup a k = Some ea" "e_expiry ea = Some xa" by auto
    then obtain eb where eb: "lookup b k = Some eb" using alike_lookup(1) [OF ab, of k] by auto
    note both = alike_lookup(2) [OF ab ea(1) eb]
    then obtain xb where xb: "e_expiry eb = Some xb" using ea(2) by (cases "e_expiry eb") auto
    have "ra" "rb" using sa(2) sb(2) views ea eb xb by (simp_all add: contents_def)
    moreover have "alike h a' b'"
    proof (rule alike_entry [OF ab sa(1) sb(1)])
      show "lookup a' = (lookup a)(k \<mapsto> ea\<lparr>e_expiry := None, e_version := e_version ea + 1\<rparr>)"
        using sa(3) ea plain_not_expired [OF rel(4) now(1) ea(1)] by simp
      show "lookup b' = (lookup b)(k \<mapsto> eb\<lparr>e_expiry := None, e_version := e_version eb + 1\<rparr>)"
        using sb(3) eb xb plain_not_expired [OF rel(5) now(2) eb] by simp
    qed (use both in simp_all)
    ultimately show ?thesis by simp
  next
    case False
    have off: "\<not> r \<and> lookup se' = lookup se"
      if "storage_persist se n k = (r, se')" "storage_inv se" "plain h se" "in_time h n" "\<forall>e. lookup se k = Some e \<longrightarrow> e_expiry e = None" for se se' n r
    proof (cases "lookup se k")
      case None
      with storage_persist_spec [OF that(2,1)] show ?thesis by (simp add: view_def)
    next
      case (Some e)
      with that(5) have x: "e_expiry e = None" by blast
      with Some storage_persist_spec [OF that(2,1)] plain_view [OF that(3,4)] plain_not_expired [OF that(3,4) Some]
      show ?thesis by (simp add: contents_def fun_upd_idem)
    qed
    have na: "\<forall>e. lookup a k = Some e \<longrightarrow> e_expiry e = None" using False by blast
    have nb: "\<forall>e. lookup b k = Some e \<longrightarrow> e_expiry e = None"
    proof (intro allI impI)
      fix eb assume eb: "lookup b k = Some eb"
      then obtain ea where ea: "lookup a k = Some ea" using alike_lookup(1) [OF ab, of k] by auto
      from alike_lookup(2) [OF ab ea eb] na ea show "e_expiry eb = None" by simp
    qed
    have same: "\<not> ra" "lookup a' = lookup a" "\<not> rb" "lookup b' = lookup b"
      using off [OF a rel(1,4) now(1) na] off [OF b rel(2,5) now(2) nb] by simp_all
    moreover have "alike h a' b'" by (rule alike_same [OF ab sa(1) sb(1) same(2,4)])
    ultimately show ?thesis using unchanged_alike [OF ab sa(1) now(1)] by simp
  qed
qed

end
