(* ===== verification/Command_Inv.thy ===== *)
theory Command_Inv
  imports Commands
begin

text \<open>
  What every command keeps: the invariant of the storage engine and the parameters of the server.
  The registry promises it of each handler, dispatch and sequences of commands inherit it.
\<close>

definition same_server :: "CommandContext \<Rightarrow> CommandContext \<Rightarrow> bool" where
  "same_server ctx ctx' \<longleftrightarrow> cx_config ctx' = cx_config ctx \<and> cx_snapshot ctx' = cx_snapshot ctx \<and>
     cx_replay ctx' = cx_replay ctx \<and> cx_request_shutdown ctx' = cx_request_shutdown ctx \<and> cx_steady ctx' = cx_steady ctx \<and>
     (cx_aof ctx = None \<longleftrightarrow> cx_aof ctx' = None) \<and>
     m_connected_clients (cx_metrics ctx') = m_connected_clients (cx_metrics ctx)"

lemma connected_clients_kept [simp]:
  "m_connected_clients (set_enabled m b) = m_connected_clients m"
  "m_connected_clients (command_processed m) = m_connected_clients m"
  "m_connected_clients (aof_write_failed m) = m_connected_clients m"
  "m_connected_clients (aof_write_succeeded m) = m_connected_clients m"
  by (simp_all add: set_enabled_def command_processed_def aof_write_failed_def aof_write_succeeded_def)

definition handled :: "CommandContext \<Rightarrow> CommandContext \<Rightarrow> bool" where
  "handled ctx ctx' \<longleftrightarrow> keeps (cx_storage ctx) (cx_storage ctx') \<and> same_server ctx ctx'"

lemma handled_refl: "storage_inv (cx_storage ctx) \<Longrightarrow> handled ctx ctx"
  by (simp add: handled_def same_server_def)

lemma handled_trans: "handled a b \<Longrightarrow> handled b c \<Longrightarrow> handled a c"
  using keeps_trans [of "cx_storage a" "cx_storage b" "cx_storage c"] by (auto simp: handled_def same_server_def)

lemma handled_storage: "keeps (cx_storage ctx) se \<Longrightarrow> handled ctx (ctx\<lparr>cx_storage := se\<rparr>)"
  by (simp add: handled_def same_server_def)


section \<open>Storage calls\<close>

lemma keeps_get: "storage_inv se \<Longrightarrow> storage_get se now k = (v, se') \<Longrightarrow> keeps se se'"
  by (rule storage_get_spec(1))

lemma keeps_strlen: "storage_inv se \<Longrightarrow> storage_strlen se now k = (n, se') \<Longrightarrow> keeps se se'"
  using keeps_get [of se now k] by (auto simp: storage_strlen_def split: prod.splits option.splits)

lemma keeps_expire: "storage_inv se \<Longrightarrow> storage_expire se clk k ttl = (b, se') \<Longrightarrow> keeps se se'"
  using storage_del_spec(1) [of se "clk 1" k] storage_expire_at_spec(1) [of se "clk 1" k]
  by (auto simp: storage_expire_def split: if_splits prod.splits)

lemma keeps_del_keys: "storage_inv se \<Longrightarrow> storage_del_keys se clk ks = (n, se') \<Longrightarrow> keeps se se'"
proof (induction ks arbitrary: se clk n)
  case (Cons k ks)
  obtain m se1 where d: "storage_del se (clk 0) k = (m, se1)" by (cases "storage_del se (clk 0) k")
  note one = storage_del_spec(1) [OF Cons.prems(1) d]
  with Cons d keepsD(1) [OF one] show ?case by (auto intro: keeps_trans [OF one] split: prod.splits)
qed simp

lemma keeps_exists: "storage_inv se \<Longrightarrow> storage_exists se clk ks = (n, se') \<Longrightarrow> keeps se se'"
proof (induction ks arbitrary: se clk n)
  case (Cons k ks)
  obtain v se1 where d: "storage_get se (clk 0) k = (v, se1)" by (cases "storage_get se (clk 0) k")
  note one = keeps_get [OF Cons.prems(1) d]
  with Cons d keepsD(1) [OF one] show ?case by (auto intro: keeps_trans [OF one] split: prod.splits)
qed simp

lemma keeps_mget: "storage_inv se \<Longrightarrow> storage_mget se clk ks = (vs, se') \<Longrightarrow> keeps se se'"
proof (induction ks arbitrary: se clk vs)
  case (Cons k ks)
  obtain v se1 where d: "storage_get se (clk 0) k = (v, se1)" by (cases "storage_get se (clk 0) k")
  note one = keeps_get [OF Cons.prems(1) d]
  with Cons d keepsD(1) [OF one] show ?case by (auto intro: keeps_trans [OF one] split: prod.splits)
qed simp

lemma keeps_mset: "storage_inv se \<Longrightarrow> mset_pairs se clk kvs = (c, se') \<Longrightarrow> keeps se se'"
proof (induction se clk kvs rule: mset_pairs.induct)
  case (1 se clk k v rest)
  obtain r se1 where d: "storage_set se (clk 0) k v None Always = (r, se1)"
    by (cases "storage_set se (clk 0) k v None Always")
  note one = storage_set_spec(1) [OF 1(2) d]
  with 1 d keepsD(1) [OF one] show ?case by (auto intro: keeps_trans [OF one] split: if_splits)
qed simp_all

lemmas keeps_calls = keeps_get keeps_strlen keeps_expire keeps_del_keys keeps_exists keeps_mget keeps_mset
  storage_set_spec(1) storage_append_spec(1) storage_expire_at_spec(1) storage_ttl_spec(1)
  storage_persist_spec(1) storage_dbsize_spec(1) storage_expires_count_spec(1) storage_snapshot_spec(1)

lemma keeps_save_file:
  assumes "storage_inv se" and "save_snapshot_file store se now s = (st, se', s')"
  shows "keeps se se'"
proof -
  obtain es se1 where sn: "storage_snapshot se now = (es, se1)" by (cases "storage_snapshot se now")
  have "se' = se \<or> se' = se1"
    using assms(2) sn by (auto simp: save_snapshot_file_def Let_def split: if_splits prod.splits sum.splits)
  with storage_snapshot_spec(1) [OF assms(1) sn] assms(1) show ?thesis by auto
qed

lemma keeps_save:
  assumes "storage_inv se" and "snapshot_save store se aof clk s = (st, se', s')"
  shows "keeps se se'"
  using assms keeps_save_file [OF assms(1)]
  by (auto simp: snapshot_save_def Let_def split: if_splits prod.splits option.splits)

lemma keeps_rewrite:
  assumes "storage_inv se" and "aof_rewrite aof se now s = (st, aof', se', s')"
  shows "keeps se se'"
proof -
  obtain es se1 where sn: "storage_snapshot se now = (es, se1)" by (cases "storage_snapshot se now")
  have "se' = se \<or> se' = se1"
    using assms(2) sn by (auto simp: aof_rewrite_def Let_def split: if_splits prod.splits sum.splits)
  with storage_snapshot_spec(1) [OF assms(1) sn] assms(1) show ?thesis by auto
qed


section \<open>Handlers\<close>

lemma handled_persist:
  assumes "storage_inv (cx_storage ctx)"
  shows "persist ctx as = (st, ctx') \<Longrightarrow> handled ctx ctx'"
    and "persist_or_ok ctx as r = (r', ctx') \<Longrightarrow> handled ctx ctx'"
    and "persist_if b ctx as r = (r', ctx') \<Longrightarrow> handled ctx ctx'"
  using assms
  by (auto simp: persist_def persist_or_ok_def persist_if_def persist_failed_def handled_def same_server_def
      split: if_splits option.splits prod.splits)

lemma handled_after:
  assumes "keeps (cx_storage ctx) se" and "handled (ctx\<lparr>cx_storage := se\<rparr>) ctx'"
  shows "handled ctx ctx'"
  by (rule handled_trans [OF handled_storage [OF assms(1)] assms(2)])

lemma handled_persist_after:
  assumes "keeps (cx_storage ctx) se"
  shows "persist_or_ok (ctx\<lparr>cx_storage := se\<rparr>) as r = (r', ctx') \<Longrightarrow> handled ctx ctx'"
    and "persist_if b (ctx\<lparr>cx_storage := se\<rparr>) as r = (r', ctx') \<Longrightarrow> handled ctx ctx'"
  using handled_after [OF assms] handled_persist(2,3) [of "ctx\<lparr>cx_storage := se\<rparr>"] keepsD(1) [OF assms] by simp_all

text \<open>The contract of a handler.\<close>

definition keeps_server :: "handler \<Rightarrow> bool" where
  "keeps_server fn \<longleftrightarrow> (\<forall>ctx clk as r ctx'. storage_inv (cx_storage ctx) \<longrightarrow> fn ctx clk as = (r, ctx') \<longrightarrow> handled ctx ctx')"

lemma keeps_serverI:
  "(\<And>ctx clk as r ctx'. storage_inv (cx_storage ctx) \<Longrightarrow> fn ctx clk as = (r, ctx') \<Longrightarrow> handled ctx ctx') \<Longrightarrow> keeps_server fn"
  by (simp add: keeps_server_def)

lemma readers_keep:
  "keeps_server ping" "keeps_server echo" "keeps_server get_cmd" "keeps_server exists_cmd" "keeps_server mget_cmd"
  "keeps_server strlen_cmd" "keeps_server (ttl_impl millis)" "keeps_server dbsize_cmd" "keeps_server bgsave_cmd"
proof -
  show "keeps_server ping" "keeps_server echo" "keeps_server bgsave_cmd"
    by (auto simp: keeps_server_def ping_def echo_def bgsave_cmd_def handled_refl split: if_splits)
  show "keeps_server get_cmd" "keeps_server exists_cmd" "keeps_server mget_cmd" "keeps_server strlen_cmd"
    "keeps_server (ttl_impl millis)" "keeps_server dbsize_cmd"
    by (rule keeps_serverI;
        auto simp: handler_defs Let_def handled_refl intro!: handled_storage dest: keeps_calls
          split: if_splits prod.splits option.splits)+
qed

lemma config_keeps: "keeps_server config_cmd"
  by (rule keeps_serverI)
     (auto simp: config_cmd_def Let_def handled_def same_server_def split: if_splits option.splits)

lemma info_keeps: "keeps_server info_cmd"
proof (rule keeps_serverI)
  fix ctx clk as r ctx' assume inv: "storage_inv (cx_storage ctx)" and op: "info_cmd ctx clk as = (r, ctx')"
  obtain n se1 where a: "storage_dbsize (cx_storage ctx) (clk 0) = (n, se1)" by (cases "storage_dbsize (cx_storage ctx) (clk 0)")
  obtain m se2 where b: "storage_expires_count se1 (clk 1) = (m, se2)" by (cases "storage_expires_count se1 (clk 1)")
  note ka = storage_dbsize_spec(1) [OF inv a]
  note k = keeps_trans [OF ka storage_expires_count_spec(1) [OF keepsD(1) [OF ka] b]]
  from op a b handled_storage [OF k] handled_refl [OF inv] show "handled ctx ctx'"
    by (auto simp: info_cmd_def split: if_splits)
qed

lemma set_keeps: "keeps_server set_cmd"
proof (rule keeps_serverI)
  fix ctx clk as r ctx' assume inv: "storage_inv (cx_storage ctx)" and op: "set_cmd ctx clk as = (r, ctx')"
  show "handled ctx ctx'"
  proof (cases "length as < 3 \<or> (\<exists>e. set_options (drop 3 as) Always None None = Inl e)")
    case True
    with op inv show ?thesis by (auto simp: set_cmd_def handled_refl split: if_splits)
  next
    case False
    then obtain cond ttl0 pxat where opts: "set_options (drop 3 as) Always None None = Inr (cond, ttl0, pxat)"
      by (cases "set_options (drop 3 as) Always None None") auto
    define ttl where "ttl = (case pxat of
        Some ms \<Rightarrow> Some (wrap64 (timepoint_from_unix_ms ms - clk 0) sdiv ticks_per_ms) | None \<Rightarrow> ttl0)"
    obtain res se where s: "storage_set (cx_storage ctx) (clk 1) (as ! 1) (as ! 2) ttl cond = (res, se)"
      by (cases "storage_set (cx_storage ctx) (clk 1) (as ! 1) (as ! 2) ttl cond")
    note k = storage_set_spec(1) [OF inv s]
    show ?thesis
      using op False opts s handled_storage [OF k] handled_persist_after(1) [OF k]
      by (auto simp: set_cmd_def ttl_def [symmetric] Let_def split: if_splits)
  qed
qed

lemma writers_keep:
  "keeps_server del_cmd" "keeps_server mset_cmd" "keeps_server append_cmd"
  "keeps_server (expire_impl mult name)" "keeps_server pexpireat_cmd" "keeps_server persist_cmd"
  by (rule keeps_serverI;
      auto simp: handler_defs Let_def handled_refl
        intro: handled_storage handled_persist_after dest: keeps_calls
        split: if_splits prod.splits option.splits)+

lemma incr_keeps:
  assumes "in_i64 delta"
  shows "keeps_server (incr_decr delta)"
  by (rule keeps_serverI)
     (auto simp: incr_decr_def Let_def handled_refl intro: handled_storage handled_persist_after
       dest: storage_incr_by_spec(1) [OF _ assms] split: if_splits prod.splits)

lemma flushdb_keeps: "keeps_server flushdb_cmd"
  by (rule keeps_serverI)
     (auto simp: flushdb_cmd_def handled_refl intro: handled_persist_after [OF storage_flushdb_spec(1)] split: if_splits)

lemma save_keeps: "keeps_server save_cmd"
proof (rule keeps_serverI)
  fix ctx clk as r ctx' assume inv: "storage_inv (cx_storage ctx)" and op: "save_cmd ctx clk as = (r, ctx')"
  show "handled ctx ctx'"
    using op inv keeps_save [OF inv]
    by (auto simp: save_cmd_def Let_def handled_def same_server_def split: if_splits option.splits prod.splits)
qed

lemma rewrite_keeps: "keeps_server bgrewriteaof_cmd"
proof (rule keeps_serverI)
  fix ctx clk as r ctx' assume inv: "storage_inv (cx_storage ctx)" and op: "bgrewriteaof_cmd ctx clk as = (r, ctx')"
  show "handled ctx ctx'"
    using op inv keeps_rewrite [OF inv]
    by (auto simp: bgrewriteaof_cmd_def Let_def handled_def same_server_def split: if_splits option.splits prod.splits)
qed

lemma shutdown_keeps: "keeps_server shutdown_cmd"
  by (rule keeps_serverI) (auto simp: shutdown_cmd_def Let_def handled_def same_server_def split: if_splits option.splits)


section \<open>Dispatch\<close>

text \<open>
  A table of commands whose handlers meet the contract.  What a client of the registry relies on,
  for one command and for any sequence of them, follows from that alone.
\<close>

locale command_table =
  fixes reg :: CommandRegistry
  assumes table_keeps: "(name, Functional fn) \<in> set reg \<Longrightarrow> keeps_server fn"
begin

lemma dispatch_handled:
  assumes "storage_inv (cx_storage ctx)" and "execute reg ctx clk as = (r, ctx')"
  shows "handled ctx ctx'"
proof (cases "as = []")
  case True
  with assms show ?thesis by (auto simp: execute_def handled_refl)
next
  case False
  show ?thesis
  proof (cases "map_of reg (to_upper_ascii (as ! 0))")
    case None
    with False assms show ?thesis by (auto simp: execute_def handled_refl)
  next
    case (Some c)
    show ?thesis
    proof (cases c)
      case (Functional fn)
      from table_keeps [of _ fn] map_of_SomeD [OF Some] Functional have "keeps_server fn" by blast
      with False Some Functional assms show ?thesis by (auto simp: execute_def keeps_server_def)
    next
      case CommandCmd
      with False Some assms show ?thesis
        by (auto simp: execute_def command_cmd_def handled_refl split: if_splits)
    qed
  qed
qed

end

interpretation commands_table: command_table registry
proof
  fix name fn assume "(name, Functional fn) \<in> set registry"
  then show "keeps_server fn"
    by (auto simp: registry_eq default_commands_def readers_keep config_keeps info_keeps set_keeps writers_keep
        incr_keeps in_i64_def i64_min_def i64_max_def flushdb_keeps save_keeps rewrite_keeps shutdown_keeps)
qed

section \<open>Runs of commands\<close>

text \<open>The commands of a connection, one after the other, each with its own readings of the clock.\<close>

fun run_commands :: "CommandContext \<Rightarrow> (nat \<Rightarrow> clock) \<Rightarrow> string list list \<Rightarrow> CommandResult list \<times> CommandContext" where
  "run_commands ctx clocks [] = ([], ctx)"
| "run_commands ctx clocks (c # cs) =
     (case execute registry ctx (clocks 0) c of (r, ctx1) \<Rightarrow>
        case run_commands ctx1 (\<lambda>i. clocks (Suc i)) cs of (rs, ctx2) \<Rightarrow> (r # rs, ctx2))"

lemma run_commands_handled:
  assumes "storage_inv (cx_storage ctx)" and "run_commands ctx clocks cs = (rs, ctx')"
  shows "handled ctx ctx'"
  using assms
proof (induction cs arbitrary: ctx clocks rs)
  case Nil
  then show ?case by (simp add: handled_refl)
next
  case (Cons c cs)
  obtain r ctx1 where ex: "execute registry ctx (clocks 0) c = (r, ctx1)"
    by (cases "execute registry ctx (clocks 0) c")
  note one = commands_table.dispatch_handled [OF Cons.prems(1) ex]
  obtain rs' where "run_commands ctx1 (\<lambda>i. clocks (Suc i)) cs = (rs', ctx')"
    using Cons.prems(2) ex by (auto split: prod.splits)
  moreover have "storage_inv (cx_storage ctx1)" using one by (simp add: handled_def keeps_def)
  ultimately show ?case using handled_trans [OF one] Cons.IH by blast
qed

text \<open>A server without persistence, with default settings.\<close>

definition example_context :: CommandContext where
  "example_context =
     \<lparr>cx_storage = mk_storage length True default_storage default_protocol, cx_metrics = mk_metrics 0,
      cx_config = default_config, cx_aof = None, cx_snapshot = None, cx_request_shutdown = False,
      cx_shutdown_requested = False, cx_replay = False, cx_os = empty_os 1 [], cx_logger = logger_instance,
      cx_steady = 0\<rparr>"

lemmas [evals] = example_context_def

lemma example_context_inv: "storage_inv (cx_storage example_context)"
  by (simp add: example_context_def)

text \<open>
  C9. Whatever the commands and their arguments, and whatever calls of the operating system fail, a
  run of commands keeps the storage engine well formed (each key once in the shard of its hash,
  exact byte counts, memory within the limit) and leaves the configuration, the limits and the
  number of shards as they are.\<close>

theorem execute_keeps_invariant:
  assumes "storage_inv (cx_storage ctx)" and "run_commands ctx clocks cs = (rs, ctx')"
  shows "storage_inv (cx_storage ctx') \<and> same_params (cx_storage ctx) (cx_storage ctx') \<and>
    cx_config ctx' = cx_config ctx \<and> cx_replay ctx' = cx_replay ctx \<and> cx_snapshot ctx' = cx_snapshot ctx"
  using run_commands_handled [OF assms] by (simp add: handled_def same_server_def keeps_def)

theorem execute_keeps_invariant_witness:
  "storage_inv (cx_storage (snd (run_commands example_context (\<lambda>_ _. 0) [[''SET'', ''k'', ''v''], [''FLUSHDB'']])))"
  using execute_keeps_invariant [OF example_context_inv prod.collapse [symmetric]] by blast

end
