(* ===== verification/Log_Replay.thy ===== *)
theory Log_Replay
  imports Recovery Aof_Props Storage_Sim Command_Inv
begin

text \<open>
  The log replays to the state that produced it, up to a horizon that lies before all deadlines:
  whatever a command does to the storage is either nothing, or it is logged as one command that does
  the same on an engine with the same contents.  Hence replaying the log, or any prefix of it that a
  crash left behind, restores the state after a prefix of the executed commands.
\<close>


section \<open>Commands\<close>

text \<open>
  The readings of a clock: within the horizon, and not running backwards where deadlines are computed
  from them.
\<close>

definition timely :: "time_point option \<Rightarrow> clock \<Rightarrow> bool" where
  "timely h clk = (case h of None \<Rightarrow> True | Some latest \<Rightarrow> 0 \<le> clk 0 \<and> mono clk \<and> (\<forall>i. clk i \<le> latest))"

lemma timely_clock [simp]: "timely None clk" "timely h clk \<Longrightarrow> clock_in_time h clk" "timely h clk \<Longrightarrow> in_time h (clk i)"
  by (cases h; simp add: timely_def clock_in_time_def)+

text \<open>
  Deadlines that stay behind the horizon also when they are computed again from the log, which has
  them in milliseconds: an absolute one, and one relative to a time.
\<close>

definition far :: "time_point option \<Rightarrow> int \<Rightarrow> bool" where
  "far h ms = (case h of None \<Rightarrow> False
     | Some latest \<Rightarrow> latest + ticks_per_ms < ms * ticks_per_ms \<and> ms * ticks_per_ms \<le> i64_max - latest)"

definition far_from :: "time_point option \<Rightarrow> time_point \<Rightarrow> int \<Rightarrow> bool" where
  "far_from h now ttl = (case h of None \<Rightarrow> False
     | Some latest \<Rightarrow> latest + 2 * ticks_per_ms < now + ttl * ticks_per_ms \<and> ttl * ticks_per_ms \<le> i64_max - 2 * latest)"

lemma far_not [simp]: "\<not> far None ms" "\<not> far_from None now ttl"
  by (simp_all add: far_def far_from_def)

lemma wrap_small: "0 \<le> x \<Longrightarrow> x \<le> i64_max \<Longrightarrow> wrap64 x = x"
  by (rule wrap64_id) (simp add: in_i64_def i64_min_def)

lemma div_ms:
  assumes "0 \<le> x"
  shows "x sdiv ticks_per_ms = x div ticks_per_ms" and "x - ticks_per_ms < x div ticks_per_ms * ticks_per_ms"
    and "x div ticks_per_ms * ticks_per_ms \<le> x"
  using assms pos_mod_bound [of ticks_per_ms x] pos_mod_sign [of ticks_per_ms x] minus_mod_eq_div_mult [of x ticks_per_ms, symmetric]
  by (auto simp: signed_divide_int_def ticks_per_ms_def sgn_if)

lemma timelyD:
  assumes "timely (Some latest) clk"
  shows "0 \<le> clk i" and "clk i \<le> latest" and "i \<le> j \<Longrightarrow> clk i \<le> clk j" and "0 \<le> latest"
proof -
  have a: "0 \<le> clk 0" "mono clk" "\<forall>i. clk i \<le> latest" using assms by (simp_all add: timely_def)
  then show "0 \<le> clk i" "clk i \<le> latest" using monoD [of clk 0 i] by (auto intro: order_trans)
  show "i \<le> j \<Longrightarrow> clk i \<le> clk j" using a(2) by (rule monoD)
  from a show "0 \<le> latest" by (metis order_trans)
qed

lemma far_time:
  assumes "far (Some latest) ms" and "0 \<le> latest"
  shows "timepoint_from_unix_ms ms = ms * ticks_per_ms" and "0 < ms" and "in_i64 ms"
proof -
  have b: "latest + 1000000 < ms * 1000000" "ms * 1000000 \<le> i64_max - latest"
    using assms(1) by (simp_all add: far_def ticks_per_ms_def)
  then show "0 < ms" using assms(2) by auto
  with b assms(2) show "in_i64 ms" by (simp add: in_i64_def i64_min_def)
  show "timepoint_from_unix_ms ms = ms * ticks_per_ms"
    using b assms(2) by (simp add: timepoint_from_unix_ms_def ticks_per_ms_def wrap_small)
qed

lemma far_lasts:
  assumes "far h ms" and "timely h clk"
  shows "lasts h (Some (timepoint_from_unix_ms ms))" and "0 < ms" and "in_i64 ms"
proof -
  obtain latest where h: "h = Some latest" using assms(1) by (cases h) auto
  note t = far_time [OF assms(1) [unfolded h] timelyD(4) [OF assms(2) [unfolded h]]]
  show "lasts h (Some (timepoint_from_unix_ms ms))" "0 < ms" "in_i64 ms"
    using t assms(1) h by (simp_all add: far_def ticks_per_ms_def)
qed

text \<open>A deadline from a logged time, as \<open>SET\<close> computes it.\<close>

lemma far_replayed:
  assumes "far h ms" and "timely h clk"
  shows "lasts h (Some (tp_add (clk 1) (wrap64 (timepoint_from_unix_ms ms - clk 0) sdiv ticks_per_ms)))"
proof -
  obtain latest where h: "h = Some latest" using assms(1) by (cases h) auto
  note c = timelyD [OF assms(2) [unfolded h]]
  let ?m = "ms * ticks_per_ms"
  have b: "latest + ticks_per_ms < ?m" "?m \<le> i64_max - latest" using assms(1) h by (simp_all add: far_def)
  have c01: "0 \<le> clk 0" "clk 0 \<le> clk 1" "clk 1 \<le> latest" using c(1) [of 0] c(3) [of 0 1] c(2) [of 1] by simp_all
  have p: "0 < ticks_per_ms" by (simp add: ticks_per_ms_def)
  have "wrap64 (?m - clk 0) = ?m - clk 0" by (rule wrap_small) (use b c01 p in linarith)+
  moreover have t: "0 \<le> ?m - clk 0" using b c01 p by linarith
  note d = div_ms [OF t]
  let ?q = "(?m - clk 0) div ticks_per_ms * ticks_per_ms"
  have "wrap64 ?q = ?q" by (rule wrap_small) (use d b c01 p pos_imp_zdiv_nonneg_iff [OF p, of "?m - clk 0"] t in \<open>auto intro!: mult_nonneg_nonneg\<close>)
  moreover have "wrap64 (clk 1 + ?q) = clk 1 + ?q" by (rule wrap_small) (use d b c01 p in linarith)+
  moreover have "latest < clk 1 + ?q" using d b c01 by linarith
  ultimately show ?thesis using far_time(1) [OF assms(1) [unfolded h] c(4)] h d(1) by (simp add: tp_add_def)
qed

lemma far_from_time:
  assumes "far_from (Some latest) (clk 0) ttl" and "timely (Some latest) clk"
  shows "tp_add (clk i) ttl = clk i + ttl * ticks_per_ms" and "latest + 2 * ticks_per_ms < clk i + ttl * ticks_per_ms"
    and "clk i + ttl * ticks_per_ms \<le> i64_max - latest" and "0 < ttl"
proof -
  note c = timelyD [OF assms(2)]
  have b: "latest + 2 * ticks_per_ms < clk 0 + ttl * ticks_per_ms" "ttl * ticks_per_ms \<le> i64_max - 2 * latest"
    using assms(1) by (simp_all add: far_from_def)
  have p: "0 < ticks_per_ms" by (simp add: ticks_per_ms_def)
  have ci: "0 \<le> clk i" "clk i \<le> latest" "clk 0 \<le> clk i" "clk 0 \<le> latest" using c(1,2,3) by simp_all
  have pos: "0 < ttl * ticks_per_ms" using b ci p by linarith
  then show "0 < ttl" using p by (simp add: zero_less_mult_iff)
  show "latest + 2 * ticks_per_ms < clk i + ttl * ticks_per_ms" "clk i + ttl * ticks_per_ms \<le> i64_max - latest"
    using b ci by linarith+
  have "wrap64 (ttl * ticks_per_ms) = ttl * ticks_per_ms" by (rule wrap_small) (use pos b c(4) in linarith)+
  moreover have "wrap64 (clk i + ttl * ticks_per_ms) = clk i + ttl * ticks_per_ms"
    by (rule wrap_small) (use pos b ci in linarith)+
  ultimately show "tp_add (clk i) ttl = clk i + ttl * ticks_per_ms" by (simp add: tp_add_def)
qed

lemma far_from_lasts:
  assumes "far_from h (clk 0) ttl" and "timely h clk"
  shows "lasts h (Some (tp_add (clk i) ttl))" and "0 < ttl" and "far h (unix_ms (tp_add (clk i) ttl))"
proof -
  obtain latest where h: "h = Some latest" using assms(1) by (cases h) auto
  note t = far_from_time [OF assms [unfolded h]]
  have p: "0 < ticks_per_ms" by (simp add: ticks_per_ms_def)
  show "lasts h (Some (tp_add (clk i) ttl))" "0 < ttl" using t(1,2) [of i] t(4) h p by simp_all
  have "0 \<le> clk i + ttl * ticks_per_ms" using t(2) [of i] timelyD(4) [OF assms(2) [unfolded h]] p by linarith
  note d = div_ms [OF this]
  show "far h (unix_ms (tp_add (clk i) ttl))"
    unfolding h far_def unix_ms_def option.case t(1) d(1) using t(2,3) [of i] d(2,3) by (intro conjI; linarith)
qed

text \<open>
  The commands considered: none that works on the files itself, and the deadlines they set are far.
  With the horizon \<open>None\<close> they set no deadline.
\<close>

definition lasting :: "time_point option \<Rightarrow> clock \<Rightarrow> string list \<Rightarrow> bool" where
  "lasting h clk as \<longleftrightarrow> as = [] \<or>
     (let name = to_upper_ascii (as ! 0) in
      name \<notin> {''SAVE'', ''BGREWRITEAOF'', ''SHUTDOWN''} \<and>
      (name = ''SET'' \<longrightarrow> (case set_options (drop 3 as) Always None None of
          Inl _ \<Rightarrow> True
        | Inr (cond, ttl, pxat) \<Rightarrow> (\<forall>n. ttl = Some n \<longrightarrow> far_from h (clk 0) n) \<and> (\<forall>ms. pxat = Some ms \<longrightarrow> far h ms))) \<and>
      (name = ''EXPIRE'' \<longrightarrow> (\<forall>n. parse_ttl_ms (as ! 2) 1000 = Some n \<longrightarrow> far_from h (clk 0) n)) \<and>
      (name = ''PEXPIRE'' \<longrightarrow> (\<forall>n. parse_ttl_ms (as ! 2) 1 = Some n \<longrightarrow> far_from h (clk 0) n)) \<and>
      (name = ''PEXPIREAT'' \<longrightarrow> (\<forall>ms. parse_i64 (as ! 2) = Some ms \<longrightarrow> far h ms)))"

definition is_error :: "CommandResult \<Rightarrow> bool" where
  "is_error r \<longleftrightarrow> take 4 (cr_response r) = ''-ERR''"

definition mset_refused :: "string list \<Rightarrow> CommandResult \<Rightarrow> bool" where
  "mset_refused as r \<longleftrightarrow> as \<noteq> [] \<and> to_upper_ascii (as ! 0) = ''MSET'' \<and> is_error r"

text \<open>A context whose commands are logged, with nothing failing; and the log written so far.\<close>

definition logging :: "CommandContext \<Rightarrow> bool" where
  "logging ctx \<longleftrightarrow> \<not> cx_replay ctx \<and> os_script (cx_os ctx) = [] \<and>
     (\<exists>aof. cx_aof ctx = Some aof \<and> enabled aof \<and> aof_wf aof (cx_os ctx) \<and>
        ao_current_size aof = length (the (file_at (cx_os ctx) (aof_path (ao_config aof)))))"

definition log_path :: "CommandContext \<Rightarrow> string" where
  "log_path ctx = aof_path (ao_config (the (cx_aof ctx)))"

definition log_of :: "CommandContext \<Rightarrow> string" where
  "log_of ctx = the (file_at (cx_os ctx) (log_path ctx))"

lemma logging_file: "logging ctx \<Longrightarrow> file_at (cx_os ctx) (log_path ctx) = Some (log_of ctx)"
  by (auto simp: logging_def log_of_def log_path_def aof_wf_def enabled_def file_at_def)

text \<open>\<open>wrote_log ctx ctx' log\<close>: of the log and the files only this has changed, that \<open>log\<close> was appended.\<close>

definition wrote_log :: "CommandContext \<Rightarrow> CommandContext \<Rightarrow> string list list \<Rightarrow> bool" where
  "wrote_log ctx ctx' log \<longleftrightarrow> logging ctx' \<and> log_path ctx' = log_path ctx \<and>
     log_of ctx' = log_of ctx @ concat (map encode_command log) \<and>
     (\<forall>p. p \<noteq> log_path ctx \<longrightarrow> file_at (cx_os ctx') p = file_at (cx_os ctx) p)"

lemma log_frame [simp]:
  "logging (ctx\<lparr>cx_metrics := m\<rparr>) = logging ctx" "logging (ctx\<lparr>cx_storage := se\<rparr>) = logging ctx"
  "log_path (ctx\<lparr>cx_metrics := m\<rparr>) = log_path ctx" "log_path (ctx\<lparr>cx_storage := se\<rparr>) = log_path ctx"
  "log_of (ctx\<lparr>cx_metrics := m\<rparr>) = log_of ctx" "log_of (ctx\<lparr>cx_storage := se\<rparr>) = log_of ctx"
  by (simp_all add: logging_def log_path_def log_of_def)

lemma wrote_log_frame [simp]:
  "wrote_log ctx (ctx'\<lparr>cx_metrics := m\<rparr>) log = wrote_log ctx ctx' log"
  "wrote_log (ctx\<lparr>cx_storage := se\<rparr>) ctx' log = wrote_log ctx ctx' log"
  by (simp_all add: wrote_log_def)

lemma wrote_nothing:
  assumes "logging ctx" and "cx_aof ctx' = cx_aof ctx" and "cx_os ctx' = cx_os ctx" and "cx_replay ctx' = cx_replay ctx"
  shows "wrote_log ctx ctx' []"
  using assms by (simp add: wrote_log_def logging_def log_path_def log_of_def)

lemma persist_logging:
  assumes "logging ctx" and "persist ctx as = (st, ctx')"
  shows "ok_status st" and "wrote_log ctx ctx' [as]" and "cx_storage ctx' = cx_storage ctx"
proof -
  obtain aof where aof: "cx_aof ctx = Some aof" "enabled aof" "aof_wf aof (cx_os ctx)"
    and script: "os_script (cx_os ctx) = []" and rep: "\<not> cx_replay ctx"
    and current: "ao_current_size aof = length (the (file_at (cx_os ctx) (aof_path (ao_config aof))))"
    using assms(1) by (auto simp: logging_def)
  obtain fd where fd: "ao_fd aof = Some fd" using aof(2) by (auto simp: enabled_def)
  let ?s1 = "append_data fd (encode_command as) (cx_os ctx)"
  obtain aof' s' where app: "aof_append aof as (cx_os ctx) = (status_ok, aof', s')"
      and files: "os_names s' = os_names (cx_os ctx)" "os_data s' = os_data ?s1" "os_script s' = []" "os_next s' = os_next (cx_os ctx)"
      and aof': "ao_fd aof' = ao_fd aof" "ao_config aof' = ao_config aof"
        "ao_current_size aof' = ao_current_size aof + length (encode_command as)"
    using aof(2) fd script write_all_no_fault [OF script, of fd "encode_command as"]
    by (cases "ao_policy aof = Policy_Always")
       (auto simp: aof_append_def write_bytes_locked_def sys_fsync_def)
  have p: "st = status_ok" "ctx' = ctx\<lparr>cx_aof := Some aof', cx_os := s'\<rparr>"
    using assms(2) aof rep app by (auto simp: persist_def)
  have wf: "aof_wf aof' s'" using aof(3) files aof' by (simp add: aof_wf_def fs_ok_def)
  have name: "os_names (cx_os ctx) (aof_path (ao_config aof)) = Some fd" using aof(3) fd by (simp add: aof_wf_def)
  have other: "os_names (cx_os ctx) q \<noteq> Some fd" if "q \<noteq> aof_path (ao_config aof)" for q
    using aof(3) name that by (auto simp: aof_wf_def fs_ok_def)
  show "ok_status st" "cx_storage ctx' = cx_storage ctx" using p by simp_all
  show "wrote_log ctx ctx' [as]"
    using p wf name files aof aof' script rep other current
    by (auto simp: wrote_log_def logging_def log_path_def log_of_def file_at_def enabled_def map_option_case
        split: option.split)
qed

lemma persist_or_ok_logging:
  assumes "logging ctx" and "persist_or_ok ctx as r = (r', ctx')"
  shows "r' = r" and "wrote_log ctx ctx' [as]" and "cx_storage ctx' = cx_storage ctx"
proof -
  obtain st ctx1 where p: "persist ctx as = (st, ctx1)" by fastforce
  note spec = persist_logging [OF assms(1) p]
  have "r' = r" "ctx' = ctx1\<lparr>cx_metrics := aof_write_succeeded (cx_metrics ctx1)\<rparr>"
    using assms(2) p spec(1) by (auto simp: persist_or_ok_def)
  with spec(2,3) show "r' = r" "wrote_log ctx ctx' [as]" "cx_storage ctx' = cx_storage ctx"
    by simp_all
qed

lemma persist_if_logging:
  assumes "logging ctx" and "persist_if changed ctx as r = (r', ctx')"
  shows "r' = r" and "wrote_log ctx ctx' (if changed then [as] else [])" and "cx_storage ctx' = cx_storage ctx"
proof -
  obtain st ctx1 where p: "persist ctx as = (st, ctx1)" by fastforce
  note spec = persist_logging [OF assms(1) p]
  show "r' = r" "wrote_log ctx ctx' (if changed then [as] else [])" "cx_storage ctx' = cx_storage ctx"
    using assms(2) p spec wrote_nothing [OF assms(1), of ctx] by (auto simp: persist_if_def split: if_splits)
qed

text \<open>In a replay nothing is logged.\<close>

lemma persist_replay [simp]:
  "cx_replay ctx \<Longrightarrow> persist ctx as = (status_ok, ctx)"
  "cx_replay ctx \<Longrightarrow> persist_or_ok ctx as r = (r, ctx\<lparr>cx_metrics := aof_write_succeeded (cx_metrics ctx)\<rparr>)"
  "cx_replay ctx \<Longrightarrow> persist_if changed ctx as r = (r, ctx)"
  by (simp_all add: persist_def persist_or_ok_def persist_if_def split: option.split)

lemma replies_not_error [simp]:
  "\<not> is_error ok" "\<not> is_error (reply (integer n))" "\<not> is_error (reply null_bulk)"
  by (simp_all add: is_error_def ok_def reply_def simple_def integer_def null_bulk_def)

lemma err_is_error [simp]: "is_error (err m)" "is_error (wrong_args c)" "is_error (reply (error m))"
  by (simp_all add: is_error_def err_def wrong_args_def reply_def error_def)


section \<open>What a command logs\<close>

text \<open>
  \<open>replayable h c a a'\<close>: on every engine that is like \<open>a\<close>, replaying \<open>c\<close> succeeds and gives an
  engine like \<open>a'\<close>.
\<close>

definition replayable :: "time_point option \<Rightarrow> string list \<Rightarrow> StorageEngine \<Rightarrow> StorageEngine \<Rightarrow> bool" where
  "replayable h c a a' \<longleftrightarrow> (\<forall>rctx clk r rctx'. timely h clk \<longrightarrow> cx_replay rctx \<longrightarrow> alike h a (cx_storage rctx) \<longrightarrow>
     execute registry rctx clk c = (r, rctx') \<longrightarrow>
     \<not> is_error r \<and> cx_replay rctx' \<and> alike h a' (cx_storage rctx'))"

definition keeps_alike :: "time_point option \<Rightarrow> StorageEngine \<Rightarrow> StorageEngine \<Rightarrow> bool" where
  "keeps_alike h a a' \<longleftrightarrow> (\<forall>b. alike h a b \<longrightarrow> alike h a' b)"

text \<open>The logged form of a command has no more and no longer arguments than the command, deadlines apart.\<close>

definition logged_from :: "time_point option \<Rightarrow> string list \<Rightarrow> string list \<Rightarrow> bool" where
  "logged_from h as c \<longleftrightarrow> length c \<le> length as \<and> (\<forall>x\<in>set c. h \<noteq> None \<and> length x \<le> 20 \<or> (\<exists>y\<in>set as. length x \<le> length y))"

lemma logged_from_refl [simp]: "logged_from h as as"
  by (auto simp: logged_from_def)

definition faithful :: "time_point option \<Rightarrow> string list \<Rightarrow> CommandContext \<Rightarrow> CommandContext \<Rightarrow> bool" where
  "faithful h as ctx ctx' \<longleftrightarrow>
     wrote_log ctx ctx' [] \<and> keeps_alike h (cx_storage ctx) (cx_storage ctx') \<or>
     (\<exists>c. wrote_log ctx ctx' [c] \<and> logged_from h as c \<and> replayable h c (cx_storage ctx) (cx_storage ctx'))"

lemma registry_lookup:
  "map_of registry ''SET'' = Some (Functional set_cmd)"
  "map_of registry ''DEL'' = Some (Functional del_cmd)"
  "map_of registry ''MSET'' = Some (Functional mset_cmd)"
  "map_of registry ''INCR'' = Some (Functional (incr_decr 1))"
  "map_of registry ''DECR'' = Some (Functional (incr_decr (- 1)))"
  "map_of registry ''APPEND'' = Some (Functional append_cmd)"
  "map_of registry ''PERSIST'' = Some (Functional persist_cmd)"
  "map_of registry ''FLUSHDB'' = Some (Functional flushdb_cmd)"
  "map_of registry ''PEXPIREAT'' = Some (Functional pexpireat_cmd)"
  by (simp_all add: registry_eq default_commands_def)


lemma upper_names: "to_upper_ascii ''SET'' = ''SET''" "to_upper_ascii ''FLUSHDB'' = ''FLUSHDB''"
  "to_upper_ascii ''PEXPIREAT'' = ''PEXPIREAT''"
  by (simp_all add: evals)

lemma replayable_handler:
  assumes "c \<noteq> []" and "map_of registry (to_upper_ascii (c ! 0)) = Some (Functional fn)"
    and "\<And>rctx clk r rctx'. timely h clk \<Longrightarrow> cx_replay rctx \<Longrightarrow> alike h a (cx_storage rctx) \<Longrightarrow> fn rctx clk c = (r, rctx') \<Longrightarrow>
      \<not> is_error r \<and> cx_replay rctx' \<and> alike h a' (cx_storage rctx')"
  shows "replayable h c a a'"
  unfolding replayable_def
proof (intro allI impI)
  fix rctx clk r rctx' assume "timely h clk" "cx_replay rctx" "alike h a (cx_storage rctx)" "execute registry rctx clk c = (r, rctx')"
  with assms(1,2) show "\<not> is_error r \<and> cx_replay rctx' \<and> alike h a' (cx_storage rctx')"
    by (intro assms(3)) (simp_all add: execute_def)
qed

lemma faithful_unchanged:
  assumes "logging ctx" and "keeps_alike h (cx_storage ctx) se"
  shows "faithful h as ctx (ctx\<lparr>cx_storage := se\<rparr>)"
  using wrote_nothing [OF assms(1), of "ctx\<lparr>cx_storage := se\<rparr>"] assms(2) by (simp add: faithful_def)

lemma faithful_same: "logging ctx \<Longrightarrow> faithful h as ctx ctx"
  using wrote_nothing [of ctx ctx] by (simp add: faithful_def keeps_alike_def)

lemma faithful_logged:
  assumes "logging ctx" and "persist_or_ok (ctx\<lparr>cx_storage := se\<rparr>) c r = (r', ctx')"
    and "replayable h c (cx_storage ctx) se" and "logged_from h as c"
  shows "faithful h as ctx ctx'"
  using persist_or_ok_logging [OF _ assms(2)] assms(1,3,4) by (auto simp: faithful_def)

lemma faithful_logged_if:
  assumes "logging ctx" and "persist_if changed (ctx\<lparr>cx_storage := se\<rparr>) c r = (r', ctx')"
    and "changed \<Longrightarrow> replayable h c (cx_storage ctx) se"
    and "\<not> changed \<Longrightarrow> keeps_alike h (cx_storage ctx) se" and "logged_from h as c"
  shows "faithful h as ctx ctx'"
  using persist_if_logging [OF _ assms(2)] assms(1,3,4,5) by (cases changed) (auto simp: faithful_def)

lemma refused_keeps_alike:
  assumes "storage_set a now k v ttl cond = (res, a')" and "wr_code res \<noteq> Ok" and "in_time h now"
  shows "keeps_alike h a a'"
  unfolding keeps_alike_def
proof (intro allI impI)
  fix b assume ab: "alike h a b"
  note spec = storage_set_spec [OF alikeD(1) [OF ab] assms(1)]
  show "alike h a' b" using unchanged_alike [OF ab spec(1) assms(3)] spec(5) [OF assms(2)] by blast
qed

lemma nat_to_string_length: "n < 10 ^ d \<Longrightarrow> 0 < d \<Longrightarrow> length (nat_to_string n) \<le> d"
proof (induction d arbitrary: n)
  case (Suc d)
  show ?case
  proof (cases "n < 10")
    case True
    then show ?thesis by (subst nat_to_string.simps) simp
  next
    case False
    then have "0 < d" using Suc.prems(1) by (cases d) auto
    moreover have "n div 10 < 10 ^ d" using Suc.prems(1) by (simp add: less_mult_imp_div_less mult.commute)
    ultimately have "length (nat_to_string (n div 10)) \<le> d" using Suc.IH by blast
    with False show ?thesis by (subst nat_to_string.simps) simp
  qed
qed simp

lemma far_length:
  assumes "far h ms" and "timely h clk"
  shows "length (int_to_string ms) \<le> 20"
proof -
  have "nat ms < 10 ^ 20" using far_lasts(2,3) [OF assms] by (simp add: in_i64_def i64_max_def nat_less_iff)
  from nat_to_string_length [OF this] far_lasts(2) [OF assms] show ?thesis by (simp add: int_to_string_def)
qed

text \<open>What \<open>SET\<close> logs of a deadline, and how the replayed \<open>SET\<close> reads it.\<close>

definition deadline_args :: "clock \<Rightarrow> int option \<Rightarrow> int option \<Rightarrow> string list" where
  "deadline_args clk ttl pxat = (case ttl of None \<Rightarrow> []
     | Some t \<Rightarrow> [''PXAT'', case pxat of Some ms \<Rightarrow> int_to_string ms | None \<Rightarrow> pxat_arg_from_ttl (clk 2) t])"

lemma deadline_logged:
  assumes "timely h clk" and "\<forall>n. ttl0 = Some n \<longrightarrow> far_from h (clk 0) n" and "\<forall>ms. pxat = Some ms \<longrightarrow> far h ms"
    and ttl: "ttl = (case pxat of Some ms \<Rightarrow> Some (wrap64 (timepoint_from_unix_ms ms - clk 0) sdiv ticks_per_ms) | None \<Rightarrow> ttl0)"
  shows "lasts h (map_option (tp_add (clk 1)) ttl)"
    and "ttl = None \<and> deadline_args clk ttl pxat = [] \<or>
      (\<exists>ms. far h ms \<and> ttl \<noteq> None \<and> deadline_args clk ttl pxat = [''PXAT'', int_to_string ms])"
proof -
  show "lasts h (map_option (tp_add (clk 1)) ttl)"
    using assms(2,3) far_replayed [OF _ assms(1)] far_from_lasts(1) [OF _ assms(1), of _ 1] ttl
    by (cases pxat; cases ttl0) auto
  show "ttl = None \<and> deadline_args clk ttl pxat = [] \<or>
      (\<exists>ms. far h ms \<and> ttl \<noteq> None \<and> deadline_args clk ttl pxat = [''PXAT'', int_to_string ms])"
    using assms(2,3) far_from_lasts(3) [OF _ assms(1), of _ 2] ttl
    by (cases pxat; cases ttl0) (auto simp: deadline_args_def pxat_arg_from_ttl_def)
qed

lemma set_options_length:
  "set_options os c t p = Inr (c', t', p') \<Longrightarrow> t' = t \<and> p' = p \<or> 2 \<le> length os"
proof (induction os c t p rule: set_options.induct)
  case (2 a as c t p)
  show ?case
  proof (cases as)
    case Nil
    with "2.prems" show ?thesis by (auto simp: Let_def split: if_splits)
  qed simp
qed simp

lemma set_replay_options:
  assumes "far h ms" and "timely h clk"
  shows "set_options [''PXAT'', int_to_string ms] Always None None = Inr (Always, None, Some ms)"
proof -
  have "to_upper_ascii ''PXAT'' = ''PXAT''" by (simp add: evals)
  with far_lasts(2,3) [OF assms] show ?thesis by (simp add: set_expire_option_def not_positive_def)
qed

lemma set_replay:
  assumes "cx_replay rctx" and "timely h clk"
    and "extra = [] \<and> tb = None \<or>
      (\<exists>ms. far h ms \<and> extra = [''PXAT'', int_to_string ms] \<and> tb = Some (wrap64 (timepoint_from_unix_ms ms - clk 0) sdiv ticks_per_ms))"
    and "storage_set (cx_storage rctx) (clk 1) k v tb Always = (res, se)" and "wr_code res = Ok"
  shows "set_cmd rctx clk ([''SET'', k, v] @ extra) = (ok, rctx\<lparr>cx_storage := se, cx_metrics := aof_write_succeeded (cx_metrics rctx)\<rparr>)"
  using assms(3)
proof (elim disjE exE conjE)
  assume "extra = []" "tb = None"
  with assms(1,4,5) show ?thesis by (simp add: set_cmd_def)
next
  fix ms assume ms: "far h ms" "extra = [''PXAT'', int_to_string ms]" "tb = Some (wrap64 (timepoint_from_unix_ms ms - clk 0) sdiv ticks_per_ms)"
  have o: "set_options (drop 3 ([''SET'', k, v] @ extra)) Always None None = Inr (Always, None, Some ms)"
    using set_replay_options [OF ms(1) assms(2)] ms(2) by simp
  have "storage_set (cx_storage rctx) (clk 1) k v (Some (wrap64 (timepoint_from_unix_ms ms - clk 0) sdiv ticks_per_ms)) Always = (res, se)"
    using assms(4) ms(3) by simp
  then show ?thesis unfolding set_cmd_def o using assms(1,5) by (simp add: ms(2) Let_def)
qed

lemma set_faithful:
  assumes "logging ctx" and tm0: "timely h clk" and "lasting h clk as" and "as \<noteq> []" and name: "to_upper_ascii (as ! 0) = ''SET''"
    and op: "set_cmd ctx clk as = (r, ctx')"
  shows "faithful h as ctx ctx'"
proof (cases "length as < 3 \<or> (\<exists>e. set_options (drop 3 as) Always None None = Inl e)")
  case True
  with op have "ctx' = ctx" by (auto simp: set_cmd_def split: if_splits)
  with faithful_same [OF assms(1)] show ?thesis by simp
next
  case False
  then obtain cond ttl0 pxat where opts: "set_options (drop 3 as) Always None None = Inr (cond, ttl0, pxat)" and len: "\<not> length as < 3"
    by (cases "set_options (drop 3 as) Always None None") auto
  define ttl where "ttl = (case pxat of Some ms \<Rightarrow> Some (wrap64 (timepoint_from_unix_ms ms - clk 0) sdiv ticks_per_ms) | None \<Rightarrow> ttl0)"
  have deadlines: "\<forall>n. ttl0 = Some n \<longrightarrow> far_from h (clk 0) n" "\<forall>ms. pxat = Some ms \<longrightarrow> far h ms"
    using assms(3,4) name opts by (simp_all add: lasting_def)
  note dl = deadline_logged [OF tm0 deadlines ttl_def]
  obtain res se where set: "storage_set (cx_storage ctx) (clk 1) (as ! 1) (as ! 2) ttl cond = (res, se)" by fastforce
  let ?c = "[''SET'', as ! 1, as ! 2] @ deadline_args clk ttl pxat"
  have run: "set_cmd ctx clk as =
      (if wr_code res = NotSet then (reply null_bulk, ctx\<lparr>cx_storage := se\<rparr>)
       else if wr_code res \<noteq> Ok then (err (storage_write_error (wr_code res)), ctx\<lparr>cx_storage := se\<rparr>)
       else persist_or_ok (ctx\<lparr>cx_storage := se\<rparr>) ?c ok)"
    using len opts set by (simp add: set_cmd_def Let_def ttl_def [symmetric] deadline_args_def)
  show ?thesis
  proof (cases "wr_code res = Ok")
    case False
    with op run have "ctx' = ctx\<lparr>cx_storage := se\<rparr>" by (auto split: if_splits)
    with faithful_unchanged [OF assms(1) refused_keeps_alike [OF set False timely_clock(3) [OF tm0]]] show ?thesis by simp
  next
    case True
    have repl: "replayable h ?c (cx_storage ctx) se"
    proof (rule replayable_handler [where fn = set_cmd])
      fix rctx clk' r' rctx' assume tm: "timely h clk'" and rep: "cx_replay rctx" and like: "alike h (cx_storage ctx) (cx_storage rctx)"
        and again: "set_cmd rctx clk' ?c = (r', rctx')"
      obtain tb where tb: "deadline_args clk ttl pxat = [] \<and> tb = None \<or>
          (\<exists>ms. far h ms \<and> deadline_args clk ttl pxat = [''PXAT'', int_to_string ms] \<and>
             tb = Some (wrap64 (timepoint_from_unix_ms ms - clk' 0) sdiv ticks_per_ms))" and same: "ttl = None \<longleftrightarrow> tb = None"
        using dl(2) by auto
      have late: "lasts h (map_option (tp_add (clk' 1)) tb)" using tb far_replayed [OF _ tm] by auto
      obtain rb b' where b: "storage_set (cx_storage rctx) (clk' 1) (as ! 1) (as ! 2) tb Always = (rb, b')" by fastforce
      have "wr_code rb = Ok" "alike h se b'"
        using alike_set [OF like set True b timely_clock(3) [OF tm0] timely_clock(3) [OF tm] dl(1) late same] by auto
      with again set_replay [OF rep tm tb b] rep show "\<not> is_error r' \<and> cx_replay rctx' \<and> alike h se (cx_storage rctx')" by auto
    qed (simp_all add: registry_lookup upper_names)
    have per: "persist_or_ok (ctx\<lparr>cx_storage := se\<rparr>) ?c ok = (r, ctx')" using op run True by simp
    have "length (as ! 0) = 3"
      using arg_cong [OF name, of length] by (simp add: to_upper_ascii_def)
    moreover have "as ! 0 \<in> set as" "as ! 1 \<in> set as" "as ! 2 \<in> set as"
      using len by (auto intro!: nth_mem simp del: length_greater_0_conv)
    moreover have "deadline_args clk ttl pxat = [] \<or> h \<noteq> None \<and> 5 \<le> length as \<and> (\<exists>ms. deadline_args clk ttl pxat = [''PXAT'', int_to_string ms] \<and> length (int_to_string ms) \<le> 20)"
      using dl(2) far_length [OF _ tm0] set_options_length [OF opts] len by (cases h) (auto simp: ttl_def split: option.splits)
    ultimately have "logged_from h as ?c"
      using len by (auto simp: logged_from_def intro: bexI [where x = "as ! 0"])
    then show ?thesis by (rule faithful_logged [OF assms(1) per repl])
  qed
qed

lemma del_faithful:
  assumes "logging ctx" and tm0: "timely h clk" and "as \<noteq> []" and "to_upper_ascii (as ! 0) = ''DEL''" and op: "del_cmd ctx clk as = (r, ctx')"
    and inv: "alike h (cx_storage ctx) (cx_storage ctx)"
  shows "faithful h as ctx ctx'"
proof (cases "length as < 2")
  case True
  with op faithful_same [OF assms(1)] show ?thesis by (auto simp: del_cmd_def)
next
  case False
  obtain n se where del: "storage_del_keys (cx_storage ctx) clk (tl as) = (n, se)" by fastforce
  show ?thesis
  proof (rule faithful_logged_if [OF assms(1)])
    show "persist_if (n \<noteq> 0) (ctx\<lparr>cx_storage := se\<rparr>) as (reply (integer (int n))) = (r, ctx')"
      using op False del by (simp add: del_cmd_def)
    show "replayable h as (cx_storage ctx) se"
    proof (rule replayable_handler [OF assms(3)])
      show "map_of registry (to_upper_ascii (as ! 0)) = Some (Functional del_cmd)"
        by (simp add: assms(4) registry_lookup)
      fix rctx clk' r' rctx' assume tm: "timely h clk'" and rep: "cx_replay rctx" and like: "alike h (cx_storage ctx) (cx_storage rctx)"
        and run: "del_cmd rctx clk' as = (r', rctx')"
      obtain m b' where b: "storage_del_keys (cx_storage rctx) clk' (tl as) = (m, b')" by fastforce
      from alike_del_keys [OF like del b timely_clock(2) [OF tm0] timely_clock(2) [OF tm]] run rep b False
      show "\<not> is_error r' \<and> cx_replay rctx' \<and> alike h se (cx_storage rctx')" by (auto simp: del_cmd_def)
    qed
    show "logged_from h as as" by simp
    show "keeps_alike h (cx_storage ctx) se" if "\<not> n \<noteq> 0"
      unfolding keeps_alike_def
    proof (intro allI impI)
      fix b assume ab: "alike h (cx_storage ctx) b"
      obtain m b' where b: "storage_del_keys b clk (tl as) = (m, b')" by fastforce
      from alike_del_keys [OF ab del b] tm0 that show "alike h se b" by simp
    qed
  qed
qed

lemma mset_pairs_alike:
  assumes "alike h a b" and "mset_pairs a c1 ps = (None, a')" and "clock_in_time h c1" and "clock_in_time h c2"
  shows "\<exists>b'. mset_pairs b c2 ps = (None, b') \<and> alike h a' b'"
  using assms
proof (induction a c1 ps arbitrary: b c2 rule: mset_pairs.induct)
  case (1 a c1 k v rest)
  obtain ra a1 where a1: "storage_set a (c1 0) k v None Always = (ra, a1)" by fastforce
  obtain rb b1 where b1: "storage_set b (c2 0) k v None Always = (rb, b1)" by fastforce
  have okay: "wr_code ra = Ok" and rest: "mset_pairs a1 (\<lambda>i. c1 (Suc i)) rest = (None, a')"
    using 1(3) a1 by (auto split: if_splits)
  have one: "wr_code rb = Ok" "alike h a1 b1" using alike_set [OF 1(2) a1 okay b1] 1(4,5) by simp_all
  have "clock_in_time h (\<lambda>i. c1 (Suc i))" "clock_in_time h (\<lambda>i. c2 (Suc i))" using 1(4,5) by simp_all
  from 1(1) [OF a1 [symmetric] _ one(2) rest this] okay
  obtain b' where "mset_pairs b1 (\<lambda>i. c2 (Suc i)) rest = (None, b')" "alike h a' b'" by auto
  with b1 one show ?case by simp
qed auto

lemma mset_faithful:
  assumes "logging ctx" and tm0: "timely h clk" and "as \<noteq> []" and "to_upper_ascii (as ! 0) = ''MSET''" and op: "mset_cmd ctx clk as = (r, ctx')"
    and ok: "\<not> is_error r"
  shows "faithful h as ctx ctx'"
proof -
  obtain c se where pairs: "mset_pairs (cx_storage ctx) clk (tl as) = (c, se)" by fastforce
  have args: "\<not> (length as < 3 \<or> even (length as))" "c = None"
    using op ok pairs by (auto simp: mset_cmd_def split: if_splits option.splits)
  show ?thesis
  proof (rule faithful_logged [OF assms(1)])
    show "logged_from h as as" by simp
    show "persist_or_ok (ctx\<lparr>cx_storage := se\<rparr>) as ok = (r, ctx')" using op args pairs by (simp add: mset_cmd_def)
    show "replayable h as (cx_storage ctx) se"
    proof (rule replayable_handler [OF assms(3)])
      show "map_of registry (to_upper_ascii (as ! 0)) = Some (Functional mset_cmd)"
        by (simp add: assms(4) registry_lookup)
      fix rctx clk' r' rctx' assume tm: "timely h clk'" and rep: "cx_replay rctx" and like: "alike h (cx_storage ctx) (cx_storage rctx)"
        and run: "mset_cmd rctx clk' as = (r', rctx')"
      from mset_pairs_alike [OF like pairs [unfolded args(2)], of clk'] tm0 tm run rep args(1)
      show "\<not> is_error r' \<and> cx_replay rctx' \<and> alike h se (cx_storage rctx')" by (auto simp: mset_cmd_def)
    qed
  qed
qed

lemma incr_faithful:
  assumes "logging ctx" and tm0: "timely h clk" and "as \<noteq> []" and d: "in_i64 delta"
    and name: "map_of registry (to_upper_ascii (as ! 0)) = Some (Functional (incr_decr delta))"
    and op: "incr_decr delta ctx clk as = (r, ctx')"
  shows "faithful h as ctx ctx'"
proof (cases "length as = 2")
  case False
  with op faithful_same [OF assms(1)] show ?thesis by (auto simp: incr_decr_def)
next
  case True
  obtain res se where inc: "storage_incr_by (cx_storage ctx) (clk 0) (as ! 1) delta = (res, se)" by fastforce
  show ?thesis
  proof (cases "wr_code res = Ok")
    case refused: False
    have "keeps_alike h (cx_storage ctx) se"
      unfolding keeps_alike_def
    proof (intro allI impI)
      fix b assume ab: "alike h (cx_storage ctx) b"
      obtain rb b' where b: "storage_incr_by b (clk 0) (as ! 1) delta = (rb, b')" by fastforce
      from alike_incr [OF ab d inc b] tm0 refused show "alike h se b" by simp
    qed
    moreover have "ctx' = ctx\<lparr>cx_storage := se\<rparr>" using op True inc refused by (auto simp: incr_decr_def Let_def)
    ultimately show ?thesis using faithful_unchanged [OF assms(1)] by simp
  next
    case okay: True
    show ?thesis
    proof (rule faithful_logged [OF assms(1)])
      show "logged_from h as as" by simp
      show "persist_or_ok (ctx\<lparr>cx_storage := se\<rparr>) as (reply (integer (wr_integer res))) = (r, ctx')"
        using op True inc okay by (simp add: incr_decr_def)
      show "replayable h as (cx_storage ctx) se"
      proof (rule replayable_handler [OF assms(3) name])
        fix rctx clk' r' rctx' assume tm: "timely h clk'" and rep: "cx_replay rctx" and like: "alike h (cx_storage ctx) (cx_storage rctx)"
          and run: "incr_decr delta rctx clk' as = (r', rctx')"
        obtain rb b' where b: "storage_incr_by (cx_storage rctx) (clk' 0) (as ! 1) delta = (rb, b')" by fastforce
        from alike_incr [OF like d inc b] tm0 tm okay run rep b True
        show "\<not> is_error r' \<and> cx_replay rctx' \<and> alike h se (cx_storage rctx')" by (auto simp: incr_decr_def)
      qed
    qed
  qed
qed

lemma append_faithful:
  assumes "logging ctx" and tm0: "timely h clk" and "as \<noteq> []" and "to_upper_ascii (as ! 0) = ''APPEND''"
    and op: "append_cmd ctx clk as = (r, ctx')"
  shows "faithful h as ctx ctx'"
proof (cases "length as = 3")
  case False
  with op faithful_same [OF assms(1)] show ?thesis by (auto simp: append_cmd_def)
next
  case True
  obtain res se where app: "storage_append (cx_storage ctx) (clk 0) (as ! 1) (as ! 2) = (res, se)" by fastforce
  show ?thesis
  proof (cases "wr_code res = Ok")
    case refused: False
    have "keeps_alike h (cx_storage ctx) se"
      unfolding keeps_alike_def
    proof (intro allI impI)
      fix b assume ab: "alike h (cx_storage ctx) b"
      obtain rb b' where b: "storage_append b (clk 0) (as ! 1) (as ! 2) = (rb, b')" by fastforce
      from alike_append [OF ab app b] tm0 refused show "alike h se b" by simp
    qed
    moreover have "ctx' = ctx\<lparr>cx_storage := se\<rparr>" using op True app refused by (auto simp: append_cmd_def Let_def)
    ultimately show ?thesis using faithful_unchanged [OF assms(1)] by simp
  next
    case okay: True
    show ?thesis
    proof (rule faithful_logged [OF assms(1)])
      show "logged_from h as as" by simp
      show "persist_or_ok (ctx\<lparr>cx_storage := se\<rparr>) as (reply (integer (wr_integer res))) = (r, ctx')"
        using op True app okay by (simp add: append_cmd_def)
      show "replayable h as (cx_storage ctx) se"
      proof (rule replayable_handler [OF assms(3)])
        show "map_of registry (to_upper_ascii (as ! 0)) = Some (Functional append_cmd)"
          by (simp add: assms(4) registry_lookup)
        fix rctx clk' r' rctx' assume tm: "timely h clk'" and rep: "cx_replay rctx" and like: "alike h (cx_storage ctx) (cx_storage rctx)"
          and run: "append_cmd rctx clk' as = (r', rctx')"
        obtain rb b' where b: "storage_append (cx_storage rctx) (clk' 0) (as ! 1) (as ! 2) = (rb, b')" by fastforce
        from alike_append [OF like app b] tm0 tm okay run rep b True
        show "\<not> is_error r' \<and> cx_replay rctx' \<and> alike h se (cx_storage rctx')" by (auto simp: append_cmd_def)
      qed
    qed
  qed
qed

lemma flushdb_faithful:
  assumes "logging ctx" and "as \<noteq> []" and "to_upper_ascii (as ! 0) = ''FLUSHDB''" and op: "flushdb_cmd ctx clk as = (r, ctx')"
  shows "faithful h as ctx ctx'"
proof (cases "length as = 1")
  case False
  with op faithful_same [OF assms(1)] show ?thesis by (auto simp: flushdb_cmd_def)
next
  case True
  show ?thesis
  proof (rule faithful_logged [OF assms(1)])
    show "logged_from h as [''FLUSHDB'']"
      using arg_cong [OF assms(3), of length] assms(2) True
      by (auto simp: logged_from_def to_upper_ascii_def intro!: disjI2 bexI [of _ "as ! 0"])
    show "persist_or_ok (ctx\<lparr>cx_storage := storage_flushdb (cx_storage ctx)\<rparr>) [''FLUSHDB''] ok = (r, ctx')"
      using op True by (simp add: flushdb_cmd_def)
    show "replayable h [''FLUSHDB''] (cx_storage ctx) (storage_flushdb (cx_storage ctx))"
      by (rule replayable_handler [where fn = flushdb_cmd])
         (auto simp: registry_lookup flushdb_cmd_def alike_flushdb upper_names)
  qed
qed

text \<open>Commands that only read.\<close>

lemma keeps_alikeI: "(\<And>b. alike h a b \<Longrightarrow> alike h a' b) \<Longrightarrow> keeps_alike h a a'"
  by (simp add: keeps_alike_def)

lemma reads_faithful:
  assumes "logging ctx" and tm: "timely h clk"
  shows "get_cmd ctx clk as = (r, ctx') \<Longrightarrow> faithful h as ctx ctx'"
    and "exists_cmd ctx clk as = (r, ctx') \<Longrightarrow> faithful h as ctx ctx'"
    and "mget_cmd ctx clk as = (r, ctx') \<Longrightarrow> faithful h as ctx ctx'"
    and "strlen_cmd ctx clk as = (r, ctx') \<Longrightarrow> faithful h as ctx ctx'"
    and "ttl_impl b ctx clk as = (r, ctx') \<Longrightarrow> faithful h as ctx ctx'"
    and "dbsize_cmd ctx clk as = (r, ctx') \<Longrightarrow> faithful h as ctx ctx'"
    and "info_cmd ctx clk as = (r, ctx') \<Longrightarrow> faithful h as ctx ctx'"
proof -
  note same = faithful_same [OF assms(1)] and unchanged = faithful_unchanged [OF assms(1)]
  show "get_cmd ctx clk as = (r, ctx') \<Longrightarrow> faithful h as ctx ctx'"
    using same alike_get [OF _ timely_clock(3) [OF tm]]
    by (auto simp: get_cmd_def intro!: unchanged keeps_alikeI split: if_splits prod.splits)
  show "exists_cmd ctx clk as = (r, ctx') \<Longrightarrow> faithful h as ctx ctx'"
    using same alike_key_lists(1) [OF _ timely_clock(2) [OF tm]]
    by (auto simp: exists_cmd_def intro!: unchanged keeps_alikeI split: if_splits prod.splits)
  show "mget_cmd ctx clk as = (r, ctx') \<Longrightarrow> faithful h as ctx ctx'"
    using same alike_key_lists(2) [OF _ timely_clock(2) [OF tm]]
    by (auto simp: mget_cmd_def intro!: unchanged keeps_alikeI split: if_splits prod.splits)
  show "strlen_cmd ctx clk as = (r, ctx') \<Longrightarrow> faithful h as ctx ctx'"
    using same alike_reads(1) [OF _ timely_clock(3) [OF tm]]
    by (auto simp: strlen_cmd_def intro!: unchanged keeps_alikeI split: if_splits prod.splits)
  show "ttl_impl b ctx clk as = (r, ctx') \<Longrightarrow> faithful h as ctx ctx'"
    using same alike_reads(2) [OF _ timely_clock(3) [OF tm]]
    by (auto simp: ttl_impl_def Let_def intro!: unchanged keeps_alikeI split: if_splits prod.splits)
  show "dbsize_cmd ctx clk as = (r, ctx') \<Longrightarrow> faithful h as ctx ctx'"
    using same alike_reads(3) [OF _ timely_clock(3) [OF tm]]
    by (auto simp: dbsize_cmd_def intro!: unchanged keeps_alikeI split: if_splits prod.splits)
  assume op: "info_cmd ctx clk as = (r, ctx')"
  obtain n1 se1 where a: "storage_dbsize (cx_storage ctx) (clk 0) = (n1, se1)" by fastforce
  obtain n2 se2 where b: "storage_expires_count se1 (clk 1) = (n2, se2)" by fastforce
  have "keeps_alike h (cx_storage ctx) se2"
    using alike_reads(3) [OF _ timely_clock(3) [OF tm] a] alike_reads(4) [OF _ timely_clock(3) [OF tm] b] by (blast intro: keeps_alikeI)
  moreover have "ctx' = ctx \<or> ctx' = ctx\<lparr>cx_storage := se2\<rparr>"
    using op unfolding info_cmd_def a prod.case b by (cases "length as > 2") simp_all
  ultimately show "faithful h as ctx ctx'" using same unchanged by blast
qed

lemma quiet_faithful:
  assumes "logging ctx"
  shows "ping ctx clk as = (r, ctx') \<Longrightarrow> faithful h as ctx ctx'"
    and "echo ctx clk as = (r, ctx') \<Longrightarrow> faithful h as ctx ctx'"
    and "bgsave_cmd ctx clk as = (r, ctx') \<Longrightarrow> faithful h as ctx ctx'"
    and "command_cmd reg ctx clk as = (r, ctx') \<Longrightarrow> faithful h as ctx ctx'"
    and "config_cmd ctx clk as = (r, ctx') \<Longrightarrow> faithful h as ctx ctx'"
proof -
  note same = faithful_same [OF assms]
  show "ping ctx clk as = (r, ctx') \<Longrightarrow> faithful h as ctx ctx'" "echo ctx clk as = (r, ctx') \<Longrightarrow> faithful h as ctx ctx'"
    "bgsave_cmd ctx clk as = (r, ctx') \<Longrightarrow> faithful h as ctx ctx'"
    "command_cmd reg ctx clk as = (r, ctx') \<Longrightarrow> faithful h as ctx ctx'"
    using same by (auto simp: ping_def echo_def bgsave_cmd_def command_cmd_def split: if_splits)
  have frame: "faithful h as ctx (ctx\<lparr>cx_logger := l\<rparr>)" "faithful h as ctx (ctx\<lparr>cx_metrics := m\<rparr>)" for l m
    using wrote_nothing [OF assms, of "ctx\<lparr>cx_logger := l\<rparr>"] wrote_nothing [OF assms, of "ctx\<lparr>cx_metrics := m\<rparr>"]
    by (simp_all add: faithful_def keeps_alike_def)
  show "config_cmd ctx clk as = (r, ctx') \<Longrightarrow> faithful h as ctx ctx'"
    using same frame by (auto simp: config_cmd_def Let_def split: if_splits option.splits)
qed

text \<open>Commands on deadlines.\<close>

lemma persist_faithful:
  assumes "logging ctx" and tm0: "timely h clk" and "as \<noteq> []" and "to_upper_ascii (as ! 0) = ''PERSIST''"
    and op: "persist_cmd ctx clk as = (r, ctx')"
  shows "faithful h as ctx ctx'"
proof (cases "length as = 2")
  case False
  with op faithful_same [OF assms(1)] show ?thesis by (auto simp: persist_cmd_def)
next
  case True
  obtain changed se where p: "storage_persist (cx_storage ctx) (clk 0) (as ! 1) = (changed, se)" by fastforce
  show ?thesis
  proof (rule faithful_logged_if [OF assms(1)])
    show "persist_if changed (ctx\<lparr>cx_storage := se\<rparr>) as (bool_reply changed) = (r, ctx')"
      using op True p by (simp add: persist_cmd_def)
    show "logged_from h as as" by simp
    show "replayable h as (cx_storage ctx) se"
    proof (rule replayable_handler [OF assms(3)])
      show "map_of registry (to_upper_ascii (as ! 0)) = Some (Functional persist_cmd)"
        by (simp add: assms(4) registry_lookup)
      fix rctx clk' r' rctx' assume tm: "timely h clk'" and rep: "cx_replay rctx" and like: "alike h (cx_storage ctx) (cx_storage rctx)"
        and run: "persist_cmd rctx clk' as = (r', rctx')"
      obtain rb b' where b: "storage_persist (cx_storage rctx) (clk' 0) (as ! 1) = (rb, b')" by fastforce
      from alike_persist [OF like p b] tm0 tm run rep b True
      show "\<not> is_error r' \<and> cx_replay rctx' \<and> alike h se (cx_storage rctx')" by (auto simp: persist_cmd_def bool_reply_def)
    qed
    show "keeps_alike h (cx_storage ctx) se" if "\<not> changed"
    proof (rule keeps_alikeI)
      fix b assume ab: "alike h (cx_storage ctx) b"
      obtain rb b' where b: "storage_persist b (clk 0) (as ! 1) = (rb, b')" by fastforce
      from alike_persist [OF ab p b] tm0 that show "alike h se b" by simp
    qed
  qed
qed

text \<open>Setting a deadline, in the form in which it is logged.\<close>

lemma expire_at_faithful:
  assumes "logging ctx" and tm0: "timely h clk" and ex: "storage_expire_at (cx_storage ctx) (clk i) k t = (changed, se)"
    and t: "lasts h (Some t)" and c: "length c = 3" "to_upper_ascii (c ! 0) = ''PEXPIREAT''" "c ! 1 = k" "parse_i64 (c ! 2) = Some ms" "far h ms"
    and lf: "logged_from h as c" and op: "persist_if changed (ctx\<lparr>cx_storage := se\<rparr>) c rep = (r, ctx')"
  shows "faithful h as ctx ctx'"
proof (rule faithful_logged_if [OF assms(1) op _ _ lf])
  show "replayable h c (cx_storage ctx) se"
  proof (rule replayable_handler)
    show "c \<noteq> []" using c(1) by auto
    show "map_of registry (to_upper_ascii (c ! 0)) = Some (Functional pexpireat_cmd)" by (simp add: c(2) registry_lookup)
    fix rctx clk' r' rctx' assume tm: "timely h clk'" and rep: "cx_replay rctx" and like: "alike h (cx_storage ctx) (cx_storage rctx)"
      and run: "pexpireat_cmd rctx clk' c = (r', rctx')"
    obtain rb b' where b: "storage_expire_at (cx_storage rctx) (clk' 0) k (timepoint_from_unix_ms ms) = (rb, b')" by fastforce
    have "alike h se b'"
      using alike_expire_at [OF like ex b timely_clock(3) [OF tm0] timely_clock(3) [OF tm] t far_lasts(1) [OF c(5) tm]] by simp
    moreover have "pexpireat_cmd rctx clk' c = (bool_reply rb, rctx\<lparr>cx_storage := b'\<rparr>)"
      using c b rep by (simp add: pexpireat_cmd_def)
    ultimately show "\<not> is_error r' \<and> cx_replay rctx' \<and> alike h se (cx_storage rctx')"
      using run rep by (auto simp: bool_reply_def)
  qed
  show "keeps_alike h (cx_storage ctx) se" if "\<not> changed"
  proof (rule keeps_alikeI)
    fix b assume ab: "alike h (cx_storage ctx) b"
    obtain rb b' where b: "storage_expire_at b (clk 0) k t = (rb, b')" by fastforce
    from alike_expire_at [OF ab ex b timely_clock(3) [OF tm0] timely_clock(3) [OF tm0] t t] that show "alike h se b" by simp
  qed
qed

lemma pexpireat_faithful:
  assumes "logging ctx" and tm0: "timely h clk" and las: "lasting h clk as" and "as \<noteq> []" and name: "to_upper_ascii (as ! 0) = ''PEXPIREAT''"
    and op: "pexpireat_cmd ctx clk as = (r, ctx')"
  shows "faithful h as ctx ctx'"
proof (cases "length as = 3 \<and> parse_i64 (as ! 2) \<noteq> None")
  case False
  then have "ctx' = ctx" using op by (auto simp: pexpireat_cmd_def split: if_splits)
  with faithful_same [OF assms(1)] show ?thesis by simp
next
  case True
  then obtain ms where len: "length as = 3" and ms: "parse_i64 (as ! 2) = Some ms" by auto
  obtain changed se where ex: "storage_expire_at (cx_storage ctx) (clk 0) (as ! 1) (timepoint_from_unix_ms ms) = (changed, se)" by fastforce
  have far: "far h ms" using las assms(4) name ms by (simp add: lasting_def)
  have p: "persist_if changed (ctx\<lparr>cx_storage := se\<rparr>) as (bool_reply changed) = (r, ctx')"
    using op len ms ex by (simp add: pexpireat_cmd_def)
  show ?thesis
    by (rule expire_at_faithful [OF assms(1) tm0 ex far_lasts(1) [OF far tm0] len name refl ms far logged_from_refl p])
qed

lemma expire_faithful:
  assumes "logging ctx" and tm0: "timely h clk" and "as \<noteq> []"
    and far: "\<And>n. parse_ttl_ms (as ! 2) multiplier = Some n \<Longrightarrow> far_from h (clk 0) n"
    and op: "expire_impl multiplier command_name ctx clk as = (r, ctx')"
  shows "faithful h as ctx ctx'"
proof (cases "length as = 3 \<and> parse_ttl_ms (as ! 2) multiplier \<noteq> None")
  case False
  then have "ctx' = ctx" using op by (auto simp: expire_impl_def split: if_splits)
  with faithful_same [OF assms(1)] show ?thesis by simp
next
  case True
  then obtain n where len: "length as = 3" and n: "parse_ttl_ms (as ! 2) multiplier = Some n" by auto
  note d = far_from_lasts [OF far [OF n] tm0]
  let ?ms = "unix_ms (tp_add (clk 2) n)" and ?c = "[''PEXPIREAT'', as ! 1, pxat_arg_from_ttl (clk 2) n]"
  obtain changed se where ex: "storage_expire_at (cx_storage ctx) (clk 1) (as ! 1) (tp_add (clk 0) n) = (changed, se)" by fastforce
  have p: "persist_if changed (ctx\<lparr>cx_storage := se\<rparr>) ?c (bool_reply changed) = (r, ctx')"
    using op len n ex d(2) by (simp add: expire_impl_def storage_expire_def)
  have h: "h \<noteq> None" using far [OF n] by (cases h) simp_all
  have "as ! 1 \<in> set as" using len by simp
  then have "logged_from h as ?c"
    using len h far_length [OF d(3) tm0, of 2] by (auto simp: logged_from_def pxat_arg_from_ttl_def)
  moreover have "parse_i64 (?c ! 2) = Some ?ms"
    using far_lasts(3) [OF d(3) tm0, of 2] by (simp add: pxat_arg_from_ttl_def)
  ultimately show ?thesis
    using expire_at_faithful [OF assms(1) tm0 ex d(1), of ?c ?ms] d(3) [of 2] p by (simp add: upper_names)
qed

lemma execute_faithful:
  assumes "logging ctx" and "storage_inv (cx_storage ctx)" and "plain h (cx_storage ctx)" and tm: "timely h clk" and las: "lasting h clk as"
    and op: "execute registry ctx clk as = (r, ctx')" and mset: "\<not> mset_refused as r"
  shows "faithful h as ctx ctx'"
proof (cases "as = [] \<or> map_of registry (to_upper_ascii (as ! 0)) = None")
  case True
  with op faithful_same [OF assms(1)] show ?thesis by (auto simp: execute_def split: if_splits)
next
  case False
  then obtain c where ne: "as \<noteq> []" and c: "map_of registry (to_upper_ascii (as ! 0)) = Some c" by auto
  have self: "alike h (cx_storage ctx) (cx_storage ctx)" by (rule alike_refl [OF assms(2,3)])
  have one: "in_i64 1" "in_i64 (- 1)" by (simp_all add: evals)
  define name where "name = to_upper_ascii (as ! 0)"
  have skip: "name \<noteq> ''SAVE''" "name \<noteq> ''BGREWRITEAOF''" "name \<noteq> ''SHUTDOWN''"
    using las ne by (auto simp: lasting_def name_def Let_def)
  have ttl: "faithful h as ctx ctx'" if "name = ''EXPIRE''" "expire_impl 1000 ''EXPIRE'' ctx clk as = (r, ctx')"
    using expire_faithful [OF assms(1) tm ne _ that(2)] las ne that(1) by (simp add: lasting_def name_def)
  have pttl: "faithful h as ctx ctx'" if "name = ''PEXPIRE''" "expire_impl 1 ''PEXPIRE'' ctx clk as = (r, ctx')"
    using expire_faithful [OF assms(1) tm ne _ that(2)] las ne that(1) by (simp add: lasting_def name_def)
  have mset': "\<not> is_error r" if "name = ''MSET''"
    using mset ne that by (simp add: mset_refused_def name_def)
  note named = set_faithful [OF assms(1) tm las ne, folded name_def] del_faithful [OF assms(1) tm ne, folded name_def, OF _ _ self]
    mset_faithful [OF assms(1) tm ne, folded name_def, OF _ _ mset'] append_faithful [OF assms(1) tm ne, folded name_def]
    flushdb_faithful [OF assms(1) ne, folded name_def] persist_faithful [OF assms(1) tm ne, folded name_def]
    pexpireat_faithful [OF assms(1) tm las ne, folded name_def]
  have inc: "faithful h as ctx ctx'" if "name = ''INCR''" "incr_decr 1 ctx clk as = (r, ctx')"
    using incr_faithful [OF assms(1) tm ne one(1)] that by (simp add: name_def registry_lookup)
  have dec: "faithful h as ctx ctx'" if "name = ''DECR''" "incr_decr (- 1) ctx clk as = (r, ctx')"
    using incr_faithful [OF assms(1) tm ne one(2)] that by (simp add: name_def registry_lookup)
  note quiet = quiet_faithful [OF assms(1)]
  have run: "(case c of Functional fn \<Rightarrow> fn ctx clk as = (r, ctx') | CommandCmd \<Rightarrow> command_cmd registry ctx clk as = (r, ctx'))"
    using op ne c by (simp add: execute_def split: Command.splits)
  have "(name, c) \<in> set default_commands"
    using c unfolding registry_eq name_def by (rule map_of_SomeD)
  then show ?thesis
    unfolding default_commands_def list.set insert_iff empty_iff prod.inject
  proof (elim disjE conjE FalseE)
  qed (insert run skip, simp_all only: Command.case simp_thms, 
       (rule named inc dec ttl pttl reads_faithful [OF assms(1) tm] quiet; (assumption | rule refl))+)
qed


section \<open>Runs of commands\<close>

definition storage_after :: "CommandContext \<Rightarrow> (nat \<Rightarrow> clock) \<Rightarrow> string list list \<Rightarrow> StorageEngine" where
  "storage_after ctx clocks cs = cx_storage (snd (run_commands ctx clocks cs))"

lemma storage_after_simps [simp]:
  "storage_after ctx clocks [] = cx_storage ctx"
  "execute registry ctx (clocks 0) c = (r, ctx1) \<Longrightarrow>
     storage_after ctx clocks (c # cs) = storage_after ctx1 (\<lambda>i. clocks (Suc i)) cs"
  by (simp_all add: storage_after_def split: prod.split)

text \<open>\<open>replays_to h log a a'\<close>: replaying \<open>log\<close> on an engine like \<open>a\<close> gives one like \<open>a'\<close>.\<close>

definition replays_to :: "time_point option \<Rightarrow> string list list \<Rightarrow> StorageEngine \<Rightarrow> StorageEngine \<Rightarrow> bool" where
  "replays_to h log a a' \<longleftrightarrow> (\<forall>(rctx :: CommandContext) clocks n i. (\<forall>i. timely h (clocks i)) \<longrightarrow> cx_replay rctx \<longrightarrow> alike h a (cx_storage rctx) \<longrightarrow>
     (\<exists>rctx' j. apply_all (replay_callback registry clocks) log n (rctx, i) = (None, n + length log, rctx', j)
        \<and> cx_replay rctx' \<and> alike h a' (cx_storage rctx')))"

lemma replays_to_nil: "keeps_alike h a a' \<Longrightarrow> replays_to h [] a a'"
  by (auto simp: replays_to_def keeps_alike_def)

lemma replays_to_cons:
  assumes "replayable h c a a1" and "replays_to h log a1 a'"
  shows "replays_to h (c # log) a a'"
  unfolding replays_to_def
proof (intro allI impI)
  fix rctx :: CommandContext and clocks :: "nat \<Rightarrow> clock" and n i assume tm: "\<forall>i. timely h (clocks i)" and rep: "cx_replay rctx" and like: "alike h a (cx_storage rctx)"
  obtain r rctx1 where run: "execute registry rctx (clocks i) c = (r, rctx1)" by fastforce
  have one: "\<not> is_error r" "cx_replay rctx1" "alike h a1 (cx_storage rctx1)"
    using assms(1) [unfolded replayable_def, rule_format, OF tm [rule_format] rep like run] by simp_all
  obtain rctx' j where "apply_all (replay_callback registry clocks) log (n + 1) (rctx1, i + 1) = (None, n + 1 + length log, rctx', j)"
      "cx_replay rctx'" "alike h a' (cx_storage rctx')"
    using assms(2) tm one(2,3) unfolding replays_to_def by blast
  with run one(1) show "\<exists>rctx' j. apply_all (replay_callback registry clocks) (c # log) n (rctx, i) =
      (None, n + length (c # log), rctx', j) \<and> cx_replay rctx' \<and> alike h a' (cx_storage rctx')"
    by (auto simp: replay_callback_def is_error_def)
qed

lemma replays_to_keeps:
  assumes "keeps_alike h a a1" and "replays_to h log a1 a'"
  shows "replays_to h log a a'"
  using assms unfolding keeps_alike_def replays_to_def by blast

lemma wrote_log_trans:
  assumes "wrote_log a b l1" and "wrote_log b c l2"
  shows "wrote_log a c (l1 @ l2)"
  using assms by (simp add: wrote_log_def)

lemma replayable_alike:
  assumes "replayable h c a a'" and "storage_inv a" and "plain h a" and "timely h clk"
  shows "storage_inv a' \<and> plain h a'"
proof -
  define rctx :: CommandContext where "rctx = replay_context default_config a (mk_metrics 0) (mk_snapshot_store [] default_protocol [])
    logger_instance 0 (empty_os 0 [])"
  obtain r rctx' where run: "execute registry rctx clk c = (r, rctx')" by fastforce
  have "cx_replay rctx" "alike h a (cx_storage rctx)"
    using alike_refl [OF assms(2,3)] by (simp_all add: rctx_def replay_context_def)
  from assms(1) [unfolded replayable_def, rule_format, OF assms(4) this run] have "alike h a' (cx_storage rctx')" by simp
  then show ?thesis using alikeD by blast
qed

text \<open>
  The invariant of a run: the log grows by commands that replay to the state; every prefix of the
  new log replays to the state after a prefix of the commands.
\<close>

lemma run_commands_log:
  assumes "logging ctx" and "storage_inv (cx_storage ctx)" and "plain h (cx_storage ctx)"
    and "\<forall>i<length cs. timely h (clocks i) \<and> lasting h (clocks i) (cs ! i)" and "run_commands ctx clocks cs = (rs, ctx')"
    and "\<forall>(c, r)\<in>set (zip cs rs). \<not> mset_refused c r"
  shows "\<exists>log. wrote_log ctx ctx' log \<and> (\<forall>c\<in>set log. \<exists>as\<in>set cs. logged_from h as c) \<and>
    (\<forall>k \<le> length log. \<exists>n \<le> length cs. (k = length log \<longrightarrow> n = length cs) \<and>
       replays_to h (take k log) (cx_storage ctx) (storage_after ctx clocks (take n cs)))"
  using assms
proof (induction cs arbitrary: ctx clocks rs)
  case Nil
  then have "ctx' = ctx" by simp
  moreover have "replays_to h [] (cx_storage ctx) (cx_storage ctx)"
    by (rule replays_to_nil) (simp add: keeps_alike_def)
  ultimately show ?case
    using wrote_nothing [OF Nil(1), of ctx] by (intro exI [of _ "[]"]) simp
next
  case (Cons as cs)
  obtain r ctx1 where ex: "execute registry ctx (clocks 0) as = (r, ctx1)" by fastforce
  obtain rs' where run: "run_commands ctx1 (\<lambda>i. clocks (Suc i)) cs = (rs', ctx')" and rs: "rs = r # rs'"
    using Cons.prems(5) ex by (auto split: prod.splits)
  have now: "timely h (clocks 0)" "lasting h (clocks 0) as"
    and later: "\<forall>i<length cs. timely h (clocks (Suc i)) \<and> lasting h (clocks (Suc i)) (cs ! i)"
    using Cons.prems(4) by fastforce+
  have faith: "faithful h as ctx ctx1"
    using execute_faithful [OF Cons.prems(1-3) now ex] Cons.prems(6) rs by simp
  have self: "replays_to h [] (cx_storage ctx) (cx_storage ctx)"
    by (rule replays_to_nil) (simp add: keeps_alike_def)
  show ?case
  proof (cases "wrote_log ctx ctx1 [] \<and> keeps_alike h (cx_storage ctx) (cx_storage ctx1)")
    case True
    then have inv1: "storage_inv (cx_storage ctx1)" "plain h (cx_storage ctx1)"
      using alikeD alike_refl [OF Cons.prems(2,3)] by (auto simp: keeps_alike_def)
    have log1: "logging ctx1" using True by (simp add: wrote_log_def)
    from Cons.IH [OF log1 inv1 later run] Cons.prems(6) rs obtain log where
      w: "wrote_log ctx1 ctx' log" and origin: "\<forall>c\<in>set log. \<exists>as\<in>set cs. logged_from h as c" and
      k: "\<forall>k \<le> length log. \<exists>n \<le> length cs. (k = length log \<longrightarrow> n = length cs) \<and>
        replays_to h (take k log) (cx_storage ctx1) (storage_after ctx1 (\<lambda>i. clocks (Suc i)) (take n cs))" by auto
    have "\<exists>n \<le> length (as # cs). (k = length log \<longrightarrow> n = length (as # cs)) \<and>
        replays_to h (take k log) (cx_storage ctx) (storage_after ctx clocks (take n (as # cs)))" if le: "k \<le> length log" for k
    proof -
      from k le obtain n where "n \<le> length cs" "k = length log \<longrightarrow> n = length cs"
        "replays_to h (take k log) (cx_storage ctx1) (storage_after ctx1 (\<lambda>i. clocks (Suc i)) (take n cs))" by blast
      then show ?thesis using replays_to_keeps True ex by (intro exI [of _ "Suc n"]) auto
    qed
    with wrote_log_trans [OF conjunct1 [OF True] w] origin show ?thesis by (intro exI [of _ log]) auto
  next
    case False
    with faith obtain c where w1: "wrote_log ctx ctx1 [c]" and lf: "logged_from h as c"
      and rep: "replayable h c (cx_storage ctx) (cx_storage ctx1)" by (auto simp: faithful_def)
    have inv1: "storage_inv (cx_storage ctx1)" "plain h (cx_storage ctx1)"
      using replayable_alike [OF rep Cons.prems(2,3) now(1)] by simp_all
    have log1: "logging ctx1" using w1 by (simp add: wrote_log_def)
    from Cons.IH [OF log1 inv1 later run] Cons.prems(6) rs obtain log where
      w: "wrote_log ctx1 ctx' log" and origin: "\<forall>c\<in>set log. \<exists>as\<in>set cs. logged_from h as c" and
      k: "\<forall>k \<le> length log. \<exists>n \<le> length cs. (k = length log \<longrightarrow> n = length cs) \<and>
        replays_to h (take k log) (cx_storage ctx1) (storage_after ctx1 (\<lambda>i. clocks (Suc i)) (take n cs))" by auto
    have "\<exists>n \<le> length (as # cs). (k = length (c # log) \<longrightarrow> n = length (as # cs)) \<and>
        replays_to h (take k (c # log)) (cx_storage ctx) (storage_after ctx clocks (take n (as # cs)))" if le: "k \<le> length (c # log)" for k
    proof (cases k)
      case 0
      then show ?thesis using self by (intro exI [of _ 0]) auto
    next
      case (Suc k')
      with k le obtain n where "n \<le> length cs" "k' = length log \<longrightarrow> n = length cs"
        "replays_to h (take k' log) (cx_storage ctx1) (storage_after ctx1 (\<lambda>i. clocks (Suc i)) (take n cs))" by fastforce
      then show ?thesis using replays_to_cons [OF rep] ex Suc by (intro exI [of _ "Suc n"]) auto
    qed
    with wrote_log_trans [OF w1 w] origin lf show ?thesis by (intro exI [of _ "c # log"]) auto
  qed
qed

text \<open>A \<open>SET\<close> without options that the storage accepts.\<close>

lemma set_logged:
  assumes "logging ctx" and "storage_set (cx_storage ctx) (clk 1) k v None Always = (res, se)" and "wr_code res = Ok"
    and "execute registry ctx clk [''SET'', k, v] = (r, ctx')"
  shows "r = ok" and "cx_storage ctx' = se" and "wrote_log ctx ctx' [[''SET'', k, v]]"
proof -
  have "execute registry ctx clk [''SET'', k, v] = set_cmd ctx clk [''SET'', k, v]"
    by (simp add: execute_def registry_eq default_commands_def evals)
  also have "\<dots> = persist_or_ok (ctx\<lparr>cx_storage := se\<rparr>) [''SET'', k, v] ok"
    using assms(2,3) by (simp add: set_cmd_def Let_def)
  finally have p: "persist_or_ok (ctx\<lparr>cx_storage := se\<rparr>) [''SET'', k, v] ok = (r, ctx')" using assms(4) by simp
  show "r = ok" "cx_storage ctx' = se" "wrote_log ctx ctx' [[''SET'', k, v]]"
    using persist_or_ok_logging [OF _ p] assms(1) by simp_all
qed

end
