(* ===== verification/Restore.thy ===== *)
theory Restore
  imports Aof_Props Storage_Sim
begin

text \<open>
  Restoring an engine from the commands that \<open>SAVE\<close> and the log rewrite write for every entry:
  a \<open>SET\<close> and, for an entry with an expiry, a \<open>PEXPIREAT\<close>.  The loader of snapshots and the
  replay of a log both run such commands; the locale states what they promise of a command, and
  that restoring a list of entries then gives the entries.
\<close>


section \<open>Entries as a map\<close>

definition restored_entry :: "SnapshotEntry \<Rightarrow> string \<times> time_point option" where
  "restored_entry e = (sn_value e, map_option timepoint_from_unix_ms (sn_expire_at_unix_ms e))"

primrec add_entries :: "kv \<Rightarrow> SnapshotEntry list \<Rightarrow> kv" where
  "add_entries m [] = m"
| "add_entries m (e # es) = add_entries (m(sn_key e \<mapsto> restored_entry e)) es"

definition restored :: "SnapshotEntry list \<Rightarrow> kv" where
  "restored es = add_entries Map.empty es"

lemma add_entries_other: "k \<notin> sn_key ` set es \<Longrightarrow> add_entries m es k = m k"
  by (induction es arbitrary: m) auto

lemma add_entries_member:
  "distinct (map sn_key es) \<Longrightarrow> e \<in> set es \<Longrightarrow> add_entries m es (sn_key e) = Some (restored_entry e)"
  by (induction es arbitrary: m) (auto simp: add_entries_other)

lemma add_entries_finite: "finite (dom m) \<Longrightarrow> finite (dom (add_entries m es))"
  by (induction es arbitrary: m) auto

definition same_values :: "kv \<Rightarrow> kv \<Rightarrow> bool" where
  "same_values m m' \<longleftrightarrow> (\<forall>k v x. m k = Some (v, x) \<longrightarrow> (\<exists>x'. m' k = Some (v, x')))"

lemma contents_memory_mono:
  assumes fin: "finite (dom m')" and sub: "same_values m m'"
  shows "contents_memory m \<le> contents_memory m'"
proof -
  have dom: "dom m \<subseteq> dom m'"
  proof
    fix k assume "k \<in> dom m"
    then obtain v x where "m k = Some (v, x)" by auto
    then show "k \<in> dom m'" using sub unfolding same_values_def by blast
  qed
  have "contents_memory m = (\<Sum>k\<in>dom m. entry_memory k (fst (the (m' k))))"
    unfolding contents_memory_def using sub by (intro sum.cong) (force simp: same_values_def)+
  also have "\<dots> \<le> contents_memory m'"
    unfolding contents_memory_def using dom fin by (intro sum_mono2) auto
  finally show ?thesis .
qed

lemma contents_memory_insert:
  "finite (dom m) \<Longrightarrow> m k = None \<Longrightarrow> contents_memory (m(k \<mapsto> (v, x))) = contents_memory m + entry_memory k v"
  by (simp add: contents_memory_def domIff)
     (auto intro!: sum.cong simp: domIff)


section \<open>Restored engines\<close>

text \<open>
  \<open>restores latest se m\<close>: the engine holds \<open>m\<close>, except for keys whose expiry was over at some
  reading of the clock up to \<open>latest\<close>.
\<close>

definition restores :: "time_point \<Rightarrow> StorageEngine \<Rightarrow> kv \<Rightarrow> bool" where
  "restores latest se m \<longleftrightarrow> storage_inv se \<and>
     (\<forall>k. contents (lookup se) k = m k \<or>
        contents (lookup se) k = None \<and> (\<exists>v d. m k = Some (v, Some d) \<and> d \<le> latest))"

lemma restores_view:
  assumes "restores latest se m" and "latest \<le> now"
  shows "view se now = live_at now m"
proof (rule ext)
  fix k
  consider "contents (lookup se) k = m k"
    | v d where "contents (lookup se) k = None" "m k = Some (v, Some d)" "d \<le> latest"
    using assms(1) unfolding restores_def by blast
  then show "view se now k = live_at now m k"
    using assms(2) by cases (auto simp: view_contents live_at_def alive_def split: option.split)
qed

lemma restores_fresh: "restores latest (mk_storage h alloc config limits) Map.empty"
  by (simp add: restores_def contents_def)

lemma restores_update:
  assumes "restores latest se m" and "storage_inv se'" and "contents (lookup se') = (contents (lookup se))(k := c)"
    and "c = p \<or> c = None \<and> (\<exists>v d. p = Some (v, Some d) \<and> d \<le> latest)"
  shows "restores latest se' (m(k := p))"
  unfolding restores_def
proof (intro conjI allI)
  fix k' show "contents (lookup se') k' = (m(k := p)) k' \<or>
      contents (lookup se') k' = None \<and> (\<exists>v d. (m(k := p)) k' = Some (v, Some d) \<and> d \<le> latest)"
    using assms(1,4) by (cases "k' = k") (simp_all add: assms(3) restores_def)
qed (rule assms(2))

text \<open>A new key is stored when there is room for it.\<close>

lemma set_new_key:
  assumes inv: "storage_inv se" and new: "lookup se k = None"
    and valid: "key_valid se k" "value_valid se v" and room: "write_granted se k None v"
    and op: "storage_set se now k v None Always = (res, se')"
  shows "wr_code res = Ok" and "keeps se se'" and "contents (lookup se') = (contents (lookup se))(k \<mapsto> (v, None))"
proof -
  note spec = storage_set_spec [OF inv op]
  have fl: "find_live se (shard_for_key se k) k now = (None, se)"
    using new by (simp add: find_live_def lookup_def)
  have e1: "snd (erase_if_expired_locked se (shard_for_key se k) k now) = se"
    using fl by (simp add: erase_if_expired_find_live)
  have w: "write_entry se (shard_for_key se k) k None v None now =
      (Ok, stored se (shard_for_key se k) k (written_entry None v None now) (memory_of k None) (entry_memory k v))"
    using room by (simp add: write_entry_cases [OF inv] inv)
  show okay: "wr_code res = Ok"
    using op valid unfolding storage_set_def Let_def e1 find_shard new w option.map by (auto split: if_splits)
  show "keeps se se'" by (rule spec(1))
  show "contents (lookup se') = (contents (lookup se))(k \<mapsto> (v, None))"
    using spec(6) [OF okay] by (auto simp: contents_write)
qed

text \<open>Room for the entries of a map that holds no more than the engine may.\<close>

definition room_for :: "StorageEngine \<Rightarrow> kv \<Rightarrow> bool" where
  "room_for se m \<longleftrightarrow> finite (dom m) \<and> se_alloc_ok se \<and>
     (max_memory_bytes (se_config se) = 0 \<or> contents_memory m \<le> max_memory_bytes (se_config se)) \<and>
     (\<forall>k v x. m k = Some (v, x) \<longrightarrow> key_valid se k \<and> value_valid se v)"

lemma room_granted:
  assumes "restores latest se m" and "m k = None" and "room_for se m'" and "m' k = Some (v, x)"
    and "same_values m m'"
  shows "write_granted se k None v"
proof -
  have inv: "storage_inv se" using assms(1) by (simp add: restores_def)
  let ?c = "contents (lookup se)"
  have sub: "m k = Some p" if "?c k = Some p" for k p
    using assms(1) that by (metis option.distinct(1) restores_def)
  have k: "?c k = None" using sub [of k] assms(2) by (cases "?c k") auto
  have fin: "finite (dom ?c)" by (rule finite_contents [OF inv])
  have "contents_memory (?c(k \<mapsto> (v, x))) \<le> contents_memory m'"
    using assms(3,4,5) sub by (intro contents_memory_mono) (fastforce simp: room_for_def same_values_def split: if_splits)+
  then have "contents_memory ?c + entry_memory k v \<le> contents_memory m'"
    by (simp add: contents_memory_insert [OF fin k])
  then show ?thesis
    using assms(3) used_memory_contents [OF inv] by (auto simp: write_granted_def room_for_def memory_of_def)
qed


section \<open>The entries of a snapshot\<close>

text \<open>A snapshot keeps expiries in whole milliseconds.\<close>

definition ms_expiry :: "kv \<Rightarrow> kv" where
  "ms_expiry m = (\<lambda>k. map_option (\<lambda>(v, x). (v, map_option (\<lambda>d. timepoint_from_unix_ms (unix_ms d)) x)) (m k))"

definition expiries_i64 :: "kv \<Rightarrow> bool" where
  "expiries_i64 m \<longleftrightarrow> (\<forall>k v d. m k = Some (v, Some d) \<longrightarrow> in_i64 d)"

lemma unix_ms_i64: "in_i64 d \<Longrightarrow> in_i64 (unix_ms d)"
  by (auto simp: unix_ms_def in_i64_def signed_divide_int_def ticks_per_ms_def i64_min_def i64_max_def sgn_if)

lemma unix_ms_trunc:
  assumes "in_i64 d" and "0 \<le> d"
  shows "timepoint_from_unix_ms (unix_ms d) = d - d mod ticks_per_ms"
proof -
  have "unix_ms d = d div ticks_per_ms"
    using assms(2) by (cases "d = 0") (simp_all add: unix_ms_def signed_divide_int_def ticks_per_ms_def)
  moreover have "d div ticks_per_ms * ticks_per_ms = d - d mod ticks_per_ms"
    by (simp add: minus_mod_eq_div_mult)
  moreover have "in_i64 (d - d mod ticks_per_ms)"
    using assms by (auto simp: in_i64_def ticks_per_ms_def i64_min_def i64_max_def) 
  ultimately show ?thesis by (simp add: timepoint_from_unix_ms_def)
qed

lemma snapshot_entries:
  assumes inv: "storage_inv se" and op: "storage_snapshot se now = (es, se')"
  shows "distinct (map sn_key es)"
    and "expiries_i64 (view se now) \<Longrightarrow> e \<in> set es \<Longrightarrow> sn_expire_at_unix_ms e = Some ms \<Longrightarrow> in_i64 ms"
    and "restored es = ms_expiry (view se now)"
proof -
  note spec = storage_snapshot_spec [OF inv op]
  have live: "(k, e) \<in> set (live_entries se now) \<longleftrightarrow> view se now k = Some (e_value e, e_expiry e) \<and> lookup se k = Some e" for k e
    by (auto simp: live_entries_member [OF inv] view_def visible_Some)
  have "map sn_key es = map fst (live_entries se now)"
    by (simp add: spec(3) snapshot_entry_def comp_def case_prod_beta)
  with live_entries_distinct [OF inv] show dist: "distinct (map sn_key es)" by simp
  show "in_i64 ms" if "expiries_i64 (view se now)" and "e \<in> set es" and "sn_expire_at_unix_ms e = Some ms"
    using that live unix_ms_i64 by (auto simp: spec(3) snapshot_entry_def expiries_i64_def)
  show "restored es = ms_expiry (view se now)"
  proof (rule ext)
    fix k
    show "restored es k = ms_expiry (view se now) k"
    proof (cases "view se now k")
      case None
      then have "k \<notin> sn_key ` set es" using live by (force simp: spec(3) snapshot_entry_def)
      with None show ?thesis by (simp add: restored_def add_entries_other ms_expiry_def)
    next
      case (Some p)
      then obtain e where "lookup se k = Some e" and p: "p = (e_value e, e_expiry e)"
        by (cases p) (auto simp: view_def visible_Some)
      with Some live have "snapshot_entry k e \<in> set es" by (force simp: spec(3))
      from add_entries_member [OF dist this, of Map.empty] Some p show ?thesis
        by (simp add: restored_def snapshot_entry_def ms_expiry_def restored_entry_def option.map_comp comp_def)
    qed
  qed
qed

lemma lookup_valid:
  assumes "storage_inv se" and "lookup se k = Some e"
  shows "key_valid se k" and "value_valid se (e_value e)"
  using shard_find_wf(2,3) [OF assms(1) _ assms(2) [unfolded lookup_def]] assms(1) by simp_all

lemma snapshot_room:
  assumes inv: "storage_inv se" and op: "storage_snapshot se now = (es, se')" and alloc: "se_alloc_ok se"
    and params: "same_params se fresh"
  shows "room_for fresh (restored es)"
proof -
  let ?m = "restored es"
  note eq = snapshot_entries(3) [OF inv op]
  have lk: "\<exists>e. lookup se k = Some e \<and> e_value e = v" if "?m k = Some (v, x)" for k v x
    using that by (auto simp: eq ms_expiry_def view_def visible_Some)
  have "same_values ?m (contents (lookup se))"
    using lk by (fastforce simp: same_values_def contents_def)
  then have mem: "contents_memory ?m \<le> contents_memory (contents (lookup se))"
    by (rule contents_memory_mono [OF finite_contents [OF inv]])
  have "memory_ok (se_config se) (se_used_memory se) (total_memory se)" using inv by (simp add: storage_inv_def)
  then have "max_memory_bytes (se_config se) = 0 \<or> contents_memory (contents (lookup se)) \<le> max_memory_bytes (se_config se)"
    by (auto simp: memory_ok_def total_memory_contents [OF inv] split: if_splits)
  moreover have "key_valid fresh k \<and> value_valid fresh v" if "?m k = Some (v, x)" for k v x
    using lk [OF that] lookup_valid [OF inv, of k] same_params_valid [OF params] by auto
  moreover have "finite (dom ?m)" by (simp add: restored_def add_entries_finite)
  ultimately show ?thesis using mem alloc params by (auto simp: room_for_def same_params_def)
qed


section \<open>Running the commands\<close>

lemma apply_all_append:
  "apply_all f (cs @ ds) n x =
     (case apply_all f cs n x of (Some st, i, y) \<Rightarrow> (Some st, i, y) | (None, i, y) \<Rightarrow> apply_all f ds i y)"
  by (induction cs arbitrary: n x) (auto split: prod.split)

text \<open>
  What a runner of restoring commands promises: a \<open>SET\<close> is a \<open>set\<close> of the engine at some time
  and succeeds when that does; a \<open>PEXPIREAT\<close> is an \<open>expire_at\<close> at a time up to \<open>latest\<close>.
\<close>

locale restorer =
  fixes step :: "'s \<Rightarrow> string list \<Rightarrow> status \<times> 's"
    and eng :: "'s \<Rightarrow> StorageEngine"
    and good :: "'s \<Rightarrow> bool"
    and latest :: time_point
  assumes restore_set: "good x \<Longrightarrow> step x [''SET'', k, v] = (st, x') \<Longrightarrow>
      \<exists>now res. storage_set (eng x) now k v None Always = (res, eng x') \<and> (wr_code res = Ok \<longrightarrow> ok_status st \<and> good x')"
    and restore_expire: "good x \<Longrightarrow> in_i64 ms \<Longrightarrow> step x [''PEXPIREAT'', k, int_to_string ms] = (st, x') \<Longrightarrow>
      ok_status st \<and> good x' \<and> (\<exists>now \<le> latest. eng x' = snd (storage_expire_at (eng x) now k (timepoint_from_unix_ms ms)))"
begin

lemma set_step:
  assumes x: "good x" "restores latest (eng x) m" and new: "m k = None"
    and room: "room_for (eng x) m'" "m' k = Some (v, t)" "same_values m m'"
  shows "\<exists>st x'. step x [''SET'', k, v] = (st, x') \<and> ok_status st \<and> good x' \<and> same_params (eng x) (eng x') \<and>
    restores latest (eng x') (m(k \<mapsto> (v, None))) \<and> contents (lookup (eng x')) k = Some (v, None)"
proof -
  have inv: "storage_inv (eng x)" using x(2) by (simp add: restores_def)
  obtain st x' where s: "step x [''SET'', k, v] = (st, x')" by (cases "step x [''SET'', k, v]")
  obtain now res where op: "storage_set (eng x) now k v None Always = (res, eng x')"
    and okay: "wr_code res = Ok \<longrightarrow> ok_status st \<and> good x'"
    using restore_set [OF x(1) s] by blast
  have "contents (lookup (eng x)) k = None" using x(2) new by (force simp: restores_def)
  then have absent: "lookup (eng x) k = None" by (simp add: contents_def)
  have valid: "key_valid (eng x) k" "value_valid (eng x) v" using room(1,2) by (auto simp: room_for_def)
  note set = set_new_key [OF inv absent valid room_granted [OF x(2) new room] op]
  have "restores latest (eng x') (m(k \<mapsto> (v, None)))"
    using x(2) set(2,3) by (auto simp: restores_def keeps_def)
  with s okay set show ?thesis by (auto simp: keeps_def)
qed

lemma expire_step:
  assumes x: "good x" "restores latest (eng x) (m(k \<mapsto> (v, None)))" "contents (lookup (eng x)) k = Some (v, None)"
    and ms: "in_i64 ms"
  shows "\<exists>st x'. step x [''PEXPIREAT'', k, int_to_string ms] = (st, x') \<and> ok_status st \<and> good x' \<and>
    same_params (eng x) (eng x') \<and> restores latest (eng x') (m(k \<mapsto> (v, Some (timepoint_from_unix_ms ms))))"
proof -
  let ?d = "timepoint_from_unix_ms ms"
  have inv: "storage_inv (eng x)" using x(2) by (simp add: restores_def)
  obtain st x' where s: "step x [''PEXPIREAT'', k, int_to_string ms] = (st, x')"
    by (cases "step x [''PEXPIREAT'', k, int_to_string ms]")
  obtain now where now: "now \<le> latest" and e: "eng x' = snd (storage_expire_at (eng x) now k ?d)"
    and good: "ok_status st" "good x'"
    using restore_expire [OF x(1) ms s] by blast
  obtain res se' where op: "storage_expire_at (eng x) now k ?d = (res, se')"
    by (cases "storage_expire_at (eng x) now k ?d")
  note spec = storage_expire_at_spec [OF inv op]
  obtain ent where ent: "lookup (eng x) k = Some ent" "e_value ent = v" "e_expiry ent = None"
    using x(3) by (auto simp: contents_def)
  then have look: "lookup se' = (lookup (eng x))(k := if ?d \<le> now then None
      else Some (ent\<lparr>e_expiry := Some ?d, e_version := e_version ent + 1\<rparr>))"
    using spec(3) by (simp add: expired_def)
  have "contents (lookup se') = (contents (lookup (eng x)))(k := if ?d \<le> now then None else Some (v, Some ?d))"
    using ent by (auto simp: look contents_def fun_eq_iff)
  then have "restores latest se' (m(k \<mapsto> (v, Some ?d)))"
    using restores_update [OF x(2), where k = k and c = "if ?d \<le> now then None else Some (v, Some ?d)" and p = "Some (v, Some ?d)"]
      spec(1) now by (auto simp: keeps_def)
  with s e op good spec(1) show ?thesis by (auto simp: keeps_def)
qed

lemma restore_entry:
  assumes x: "good x" "restores latest (eng x) m" and new: "m (sn_key e) = None"
    and room: "room_for (eng x) m'" "m' (sn_key e) = Some (sn_value e, t)" "same_values m m'"
    and ms: "\<And>ms. sn_expire_at_unix_ms e = Some ms \<Longrightarrow> in_i64 ms"
  shows "\<exists>x' n'. apply_all step (restore_commands e) n x = (None, n', x') \<and> good x' \<and> same_params (eng x) (eng x') \<and>
    restores latest (eng x') (m(sn_key e \<mapsto> restored_entry e))"
proof -
  obtain st x1 where s1: "step x [''SET'', sn_key e, sn_value e] = (st, x1)" "ok_status st" "good x1"
    "same_params (eng x) (eng x1)" "restores latest (eng x1) (m(sn_key e \<mapsto> (sn_value e, None)))"
    "contents (lookup (eng x1)) (sn_key e) = Some (sn_value e, None)"
    using set_step [OF x new room] by blast
  show ?thesis
  proof (cases "sn_expire_at_unix_ms e")
    case None
    with s1 show ?thesis by (simp add: restore_commands_def restored_entry_def)
  next
    case (Some w)
    from expire_step [OF s1(3,5,6) ms [OF Some]] obtain st2 x2 where
      "step x1 [''PEXPIREAT'', sn_key e, int_to_string w] = (st2, x2)" "ok_status st2" "good x2"
      "same_params (eng x1) (eng x2)"
      "restores latest (eng x2) (m(sn_key e \<mapsto> (sn_value e, Some (timepoint_from_unix_ms w))))" by blast
    with s1 Some same_params_trans [OF s1(4)] show ?thesis
      by (simp add: restore_commands_def restored_entry_def)
  qed
qed

lemma restore_all:
  assumes "good x" and "restores latest (eng x) m" and "distinct (map sn_key es)"
    and "\<forall>e\<in>set es. m (sn_key e) = None \<and> (\<forall>ms. sn_expire_at_unix_ms e = Some ms \<longrightarrow> in_i64 ms)"
    and "room_for (eng x) (add_entries m es)"
  shows "\<exists>x' n'. apply_all step (concat (map restore_commands es)) n x = (None, n', x') \<and> good x' \<and>
    same_params (eng x) (eng x') \<and> restores latest (eng x') (add_entries m es)"
  using assms
proof (induction es arbitrary: m x n)
  case Nil
  then show ?case by simp
next
  case (Cons e es)
  let ?m = "m(sn_key e \<mapsto> restored_entry e)"
  have at: "add_entries m (e # es) (sn_key e) = Some (sn_value e, snd (restored_entry e))"
    using Cons.prems(3) add_entries_member [of "e # es" e m] by (simp add: restored_entry_def)
  have same: "same_values m (add_entries m (e # es))"
    unfolding same_values_def
  proof (intro allI impI)
    fix k v x assume k: "m k = Some (v, x)"
    then have "k \<notin> sn_key ` set (e # es)" using Cons.prems(4) by force
    then show "\<exists>x'. add_entries m (e # es) k = Some (v, x')" using k by (simp add: add_entries_other)
  qed
  obtain x1 n1 where s1: "apply_all step (restore_commands e) n x = (None, n1, x1)" "good x1"
    "same_params (eng x) (eng x1)" "restores latest (eng x1) ?m"
    using restore_entry [OF Cons.prems(1,2) _ Cons.prems(5) at same, of n] Cons.prems(4) by auto
  have room: "room_for (eng x1) (add_entries ?m es)"
    using Cons.prems(5) s1(3) same_params_valid [OF s1(3)] by (simp add: room_for_def same_params_def)
  have dist: "distinct (map sn_key es)" using Cons.prems(3) by simp
  have rest: "\<forall>e'\<in>set es. ?m (sn_key e') = None \<and> (\<forall>ms. sn_expire_at_unix_ms e' = Some ms \<longrightarrow> in_i64 ms)"
    using Cons.prems(3,4) by (auto simp: image_iff)
  obtain x2 n2 where "apply_all step (concat (map restore_commands es)) n1 x1 = (None, n2, x2)" "good x2"
    "same_params (eng x1) (eng x2)" "restores latest (eng x2) (add_entries ?m es)"
    using Cons.IH [OF s1(2,4) dist rest room, of n1] by blast
  with s1 same_params_trans [OF s1(3)] show ?case by (simp add: apply_all_append)
qed

text \<open>What was live when the snapshot was taken is restored, to the millisecond.\<close>

lemma restore_snapshot:
  assumes "good x" and "restores latest (eng x) Map.empty" and "same_params se (eng x)"
    and inv: "storage_inv se" and alloc: "se_alloc_ok se" and i64: "expiries_i64 (view se now)"
    and op: "storage_snapshot se now = (es, se')"
  shows "\<exists>x' n'. apply_all step (concat (map restore_commands es)) n x = (None, n', x') \<and> good x' \<and>
    same_params (eng x) (eng x') \<and> restores latest (eng x') (ms_expiry (view se now))"
  using restore_all [OF assms(1,2), of es n] snapshot_entries [OF inv op] i64
    snapshot_room [OF inv op alloc assms(3)]
  by (auto simp: restored_def)

end

end
