(* ===== verification/Snapshot_Props.thy ===== *)
theory Snapshot_Props
  imports Snapshot Restore
begin

text \<open>
  The snapshot store: a snapshot or a manifest is replaced as a whole or not at all whatever calls
  fail; what was saved is loaded again; a manifest is read back as written.
\<close>


section \<open>Replacing a file\<close>

text \<open>
  \<open>replaces tmp path bs s st s'\<close>: \<open>path\<close> holds what it held or \<open>bs\<close>, and \<open>bs\<close> on success; apart
  from it only \<open>tmp\<close> has changed.
\<close>

definition replaces :: "string \<Rightarrow> string \<Rightarrow> string \<Rightarrow> os \<Rightarrow> status \<Rightarrow> os \<Rightarrow> bool" where
  "replaces tmp path bs s st s' \<longleftrightarrow> fs_ok s' \<and>
     (\<forall>p. p \<noteq> tmp \<longrightarrow> p \<noteq> path \<longrightarrow> file_at s' p = file_at s p \<and> os_names s' p = os_names s p) \<and>
     file_at s' path \<in> {file_at s path, Some bs} \<and> (ok_status st \<longrightarrow> file_at s' path = Some bs)"

lemma replaces_same: "fs_ok s \<Longrightarrow> same_files s s' \<Longrightarrow> \<not> ok_status st \<Longrightarrow> replaces tmp path bs s st s'"
  using same_files_file [of s s'] same_files_ok [of s s'] by (simp add: replaces_def same_files_def)

lemma only_tmp_ok:
  assumes "fs_ok s" and "only_tmp fd tmp s s'"
  shows "fs_ok s'"
  using assms unfolding fs_ok_def only_tmp_def by (metis option.distinct(1))

lemma only_tmp_file:
  assumes "fs_ok s" and "os_names s tmp = Some fd" and "only_tmp fd tmp s s'" and "p \<noteq> tmp"
  shows "file_at s' p = file_at s p" and "os_names s' p = os_names s p"
proof -
  show names: "os_names s' p = os_names s p" using assms(3,4) by (simp add: only_tmp_def)
  have "os_names s p \<noteq> Some fd" using assms(1,2,4) by (auto simp: fs_ok_def)
  with names assms(3) show "file_at s' p = file_at s p"
    by (cases "os_names s p") (auto simp: file_at_def only_tmp_def)
qed

text \<open>What was put into a stream that is still good is in its file.\<close>

definition streamed :: "string \<Rightarrow> string \<Rightarrow> ofstream \<Rightarrow> os \<Rightarrow> ofstream \<Rightarrow> os \<Rightarrow> bool" where
  "streamed tmp bs out s out' s' \<longleftrightarrow> only_tmp (of_fd out) tmp s s' \<and> os_names s' = os_names s \<and>
     of_fd out' = of_fd out \<and> (of_good out' \<longrightarrow> of_good out \<and> os_data s' (of_fd out) = os_data s (of_fd out) @ bs)"

lemma streamed_refl: "streamed tmp [] out s out s"
  by (simp add: streamed_def)

lemma streamed_trans:
  assumes "streamed tmp bs out s out1 s1" and "streamed tmp cs out1 s1 out2 s2"
  shows "streamed tmp (bs @ cs) out s out2 s2"
  using assms only_tmp_trans [of "of_fd out" tmp s s1 s2] by (auto simp: streamed_def)

lemma streamed_put: "stream_put out bs s = (out', s') \<Longrightarrow> streamed tmp bs out s out' s'"
  using next_outcome_files [of s "fst (next_outcome s)" "snd (next_outcome s)"]
  by (auto simp: stream_put_def streamed_def only_tmp_def same_files_def split: if_splits prod.splits outcome.splits)

lemma streamed_close: "stream_close out s = (out', s') \<Longrightarrow> streamed tmp [] out s out' s'"
  using sys_call_files [of s "fst (sys_call s)" "snd (sys_call s)"]
  by (auto simp: stream_close_def sys_close_def streamed_def only_tmp_def same_files_def split: prod.splits option.splits)

lemma streamed_commands:
  "put_commands out cs s = (out', s') \<Longrightarrow> streamed tmp (concat (map encode_command cs)) out s out' s'"
proof (induction out cs s rule: put_commands.induct)
  case (2 out c cs s)
  obtain out1 s1 where p: "stream_put out (encode_command c) s = (out1, s1)"
    by (cases "stream_put out (encode_command c) s")
  with 2 streamed_trans [OF streamed_put [OF p]] show ?case by simp
qed (simp add: streamed_refl)

lemma streamed_lines:
  "put_lines out ls s = (out', s') \<Longrightarrow> streamed tmp (concat (map (\<lambda>l. l @ [CHR 0x0A]) ls)) out s out' s'"
proof (induction out ls s rule: put_lines.induct)
  case (2 out l ls s)
  obtain out1 s1 where p: "stream_put out (l @ [CHR 0x0A]) s = (out1, s1)"
    by (cases "stream_put out (l @ [CHR 0x0A]) s")
  with 2 streamed_trans [OF streamed_put [OF p]] show ?case by fastforce
qed (simp add: streamed_refl)

lemma streamed_entries:
  assumes "put_entries out es s = (done, out', s')"
  shows "only_tmp (of_fd out) tmp s s' \<and> of_fd out' = of_fd out \<and> (done \<longrightarrow> streamed tmp (restored_log es) out s out' s')"
  using assms
proof (induction out es s rule: put_entries.induct)
  case (1 out s)
  then show ?case by (simp add: streamed_refl restored_log_def)
next
  case (2 out e es s)
  obtain out1 s1 where p: "put_commands out (restore_commands e) s = (out1, s1)"
    by (cases "put_commands out (restore_commands e) s")
  note st = streamed_commands [OF p, of tmp]
  show ?case
  proof (cases "of_good out1")
    case True
    with 2(2) p have rest: "put_entries out1 es s1 = (done, out', s')" by simp
    from 2(1) [OF p [symmetric] _ rest] True have
      "only_tmp (of_fd out1) tmp s1 s' \<and> of_fd out' = of_fd out1 \<and> (done \<longrightarrow> streamed tmp (restored_log es) out1 s1 out' s')"
      by simp
    with st streamed_trans [OF st] only_tmp_trans [of "of_fd out" tmp s s1 s'] show ?thesis
      by (auto simp: streamed_def restored_log_def)
  next
    case False
    with 2(2) p st show ?thesis by (auto simp: streamed_def)
  qed
qed

text \<open>From the opened temporary file on.\<close>

lemma open_tmp_file:
  assumes "fs_ok s" and "sys_open True tmp s = (Inr fd, s1)" and "p \<noteq> tmp"
  shows "file_at s1 p = file_at s p"
proof (cases "os_names s p")
  case (Some i)
  then have "i \<noteq> fd" using open_tmp_spec(5) [OF assms] by auto
  with Some open_tmp_spec(4) [OF assms] open_tmp_spec(6) [OF assms(1,2)] show ?thesis by (simp add: file_at_def)
qed (use open_tmp_spec(4) [OF assms] in \<open>simp add: file_at_def\<close>)

lemma abandoned_replaces:
  assumes ok: "fs_ok s" and open_tmp: "sys_open True tmp s = (Inr fd, s1)" and "tmp \<noteq> path"
    and only: "only_tmp fd tmp s1 s'" and "\<not> ok_status st"
  shows "replaces tmp path bs s st s'"
proof -
  note opened = open_tmp_spec [OF ok open_tmp]
  have keep: "file_at s' p = file_at s p" "os_names s' p = os_names s p" if "p \<noteq> tmp" for p
  proof -
    have "file_at s1 p = file_at s p" by (rule open_tmp_file [OF ok open_tmp that])
    then show "file_at s' p = file_at s p" "os_names s' p = os_names s p"
      using only_tmp_file [OF opened(1,2) only that] opened(4) [OF that] by simp_all
  qed
  show ?thesis using keep only_tmp_ok [OF opened(1) only] assms(3,5) by (simp add: replaces_def)
qed

lemma installed_replaces:
  assumes ok: "fs_ok s" and open_tmp: "sys_open True tmp s = (Inr fd, s1)" and ne: "tmp \<noteq> path"
    and only: "only_tmp fd tmp s1 s2" "os_names s2 = os_names s1" "os_data s2 fd = bs"
    and inst: "install_file what tmp path s2 = (st, s')"
  shows "replaces tmp path bs s st s'"
proof -
  note opened = open_tmp_spec [OF ok open_tmp]
  obtain c s3 where c: "sys_call s2 = (c, s3)" by (cases "sys_call s2")
  note f3 = sys_call_files [OF c]
  have only3: "only_tmp fd tmp s1 s3" by (rule only_tmp_trans [OF only(1) only_tmp_same [OF f3]])
  have tmp3: "os_names s3 tmp = Some fd" using f3 only(2) opened(2) by (simp add: same_files_def)
  show ?thesis
  proof (cases c)
    case (Some e)
    have "st = io_error (''failed to install '' @ what @ '': '' @ e)" "s' = snd (sys_remove tmp s3)"
      using inst c Some by (simp_all add: install_file_def sys_rename_def)
    then show ?thesis
      using abandoned_replaces [OF ok open_tmp ne only_tmp_trans [OF only3 only_tmp_remove]] by simp
  next
    case None
    have s': "s' = s3\<lparr>os_names := (os_names s3)(tmp := None, path := Some fd)\<rparr>"
      using inst c None tmp3 by (simp add: install_file_def sys_rename_def)
    have ok3: "fs_ok s3" by (rule only_tmp_ok [OF opened(1) only3])
    have "fs_ok s'"
      using ok3 tmp3 unfolding s' fs_ok_def by auto
    moreover have "file_at s' path = Some bs" using only(3) f3 by (simp add: s' file_at_def same_files_def)
    moreover have "file_at s' p = file_at s p \<and> os_names s' p = os_names s p" if "p \<noteq> tmp" "p \<noteq> path" for p
    proof -
      have "file_at s1 p = file_at s p" by (rule open_tmp_file [OF ok open_tmp that(1)])
      moreover have "file_at s' p = file_at s3 p" "os_names s' p = os_names s3 p"
        using that by (simp_all add: s' file_at_def)
      ultimately show ?thesis
        using only_tmp_file [OF opened(1,2) only3 that(1)] opened(4) [OF that(1)] by simp
    qed
    ultimately show ?thesis by (simp add: replaces_def)
  qed
qed

lemma snapshot_parent_files: "snapshot_ensure_parent_dir path s = (st, s') \<Longrightarrow> same_files s s'"
  by (auto simp: snapshot_ensure_parent_dir_def dest: sys_call_files split: if_splits prod.splits option.splits)

lemma open_failed_files: "sys_open True tmp s = (Inl e, s') \<Longrightarrow> same_files s s'"
  by (auto simp: sys_open_def dest: sys_call_files split: prod.splits option.splits)

lemma replaces_from: "same_files s s1 \<Longrightarrow> replaces tmp path bs s1 st s' \<Longrightarrow> replaces tmp path bs s st s'"
  using same_files_file [of s s1] by (simp add: replaces_def same_files_def)

lemma save_snapshot_replaces:
  assumes ok: "fs_ok s" and op: "save_snapshot_file store se now s = (st, se', s')"
  shows "replaces (ss_path store @ ''.tmp'') (ss_path store) (restored_log (fst (storage_snapshot se now))) s st s'"
    and "se' = se \<or> se' = snd (storage_snapshot se now)"
proof -
  let ?tmp = "ss_path store @ ''.tmp''"
  obtain st1 s1 where d: "snapshot_ensure_parent_dir (ss_path store) s = (st1, s1)"
    by (cases "snapshot_ensure_parent_dir (ss_path store) s")
  note f1 = snapshot_parent_files [OF d]
  have ok1: "fs_ok s1" using same_files_ok [OF f1] ok by simp
  obtain r s2 where o: "sys_open True ?tmp s1 = (r, s2)" by (cases "sys_open True ?tmp s1")
  obtain es se2 where sn: "storage_snapshot se now = (es, se2)" by (cases "storage_snapshot se now")
  have goal: "replaces ?tmp (ss_path store) (restored_log es) s st s' \<and> (se' = se \<or> se' = se2)"
  proof (cases "path_is_safe (ss_path store) \<and> ok_status st1")
    case False
    with op d have "\<not> ok_status st \<and> (s' = s \<or> s' = s1) \<and> se' = se"
      by (auto simp: save_snapshot_file_def split: if_splits)
    then show ?thesis using replaces_same [OF ok] f1 by auto
  next
    case start: True
    show ?thesis
    proof (cases r)
      case (Inl e)
      with op d o start have "\<not> ok_status st \<and> s' = s2 \<and> se' = se" by (auto simp: save_snapshot_file_def Let_def)
      then show ?thesis
        using replaces_same [OF ok same_files_trans [OF f1 open_failed_files [OF o [unfolded Inl]]]] by auto
    next
      case (Inr fd)
      let ?out = "\<lparr>of_fd = fd, of_good = True\<rparr>"
      obtain d3 out3 s3 where p: "put_entries ?out es s2 = (d3, out3, s3)" by (cases "put_entries ?out es s2")
      obtain out4 s4 where c: "stream_close out3 s3 = (out4, s4)" by (cases "stream_close out3 s3")
      obtain st5 s5 where i: "install_file ''snapshot'' ?tmp (ss_path store) s4 = (st5, s5)"
        by (cases "install_file ''snapshot'' ?tmp (ss_path store) s4")
      note sp = streamed_entries [OF p, of ?tmp] and sc = streamed_close [OF c, of ?tmp]
      note opened = open_tmp_spec [OF ok1 o [unfolded Inr]]
      have o34: "only_tmp fd ?tmp s2 s3" "only_tmp fd ?tmp s2 s4"
        using sp sc only_tmp_trans [of fd ?tmp s2 s3 s4] by (auto simp: streamed_def)
      have op': "(st, se', s') = (if \<not> d3 then (io_error ''failed writing snapshot'', se2, s3)
          else if \<not> of_good out4 then (io_error ''failed closing snapshot'', se2, s4) else (st5, se2, s5))"
        using op d o start Inr sn p c i by (auto simp: save_snapshot_file_def Let_def split: if_splits)
      have "replaces ?tmp (ss_path store) (restored_log es) s1 st s'"
      proof (cases "d3 \<and> of_good out4")
        case True
        with sp have "streamed ?tmp (restored_log es) ?out s2 out3 s3" by simp
        from streamed_trans [OF this sc] True have "os_names s4 = os_names s2" "os_data s4 fd = restored_log es"
          using opened(3) by (auto simp: streamed_def)
        from installed_replaces [OF ok1 o [unfolded Inr] _ o34(2) this i] op' True show ?thesis by simp
      next
        case False
        then have "\<not> ok_status st" "s' = s3 \<or> s' = s4" using op' by (auto split: if_splits)
        then show ?thesis using abandoned_replaces [OF ok1 o [unfolded Inr]] o34 by auto
      qed
      with replaces_from [OF f1] op' show ?thesis by (auto split: if_splits)
    qed
  qed
  then show "replaces ?tmp (ss_path store) (restored_log (fst (storage_snapshot se now))) s st s'"
    "se' = se \<or> se' = snd (storage_snapshot se now)" by (simp_all add: sn)
qed

definition manifest_text :: "Manifest \<Rightarrow> string" where
  "manifest_text manifest = concat (map (\<lambda>l. l @ [CHR 0x0A]) (manifest_lines manifest))"

lemma write_manifest_replaces:
  assumes ok: "fs_ok s" and op: "write_manifest store manifest s = (st, s')"
  shows "replaces (manifest_tmp_path (ss_manifest_path store)) (ss_manifest_path store) (manifest_text manifest) s st s'"
proof -
  let ?path = "ss_manifest_path store"
  let ?tmp = "manifest_tmp_path ?path"
  have ne: "?tmp \<noteq> ?path" by (simp add: manifest_tmp_path_def)
  obtain st1 s1 where d: "snapshot_ensure_parent_dir ?path s = (st1, s1)" by (cases "snapshot_ensure_parent_dir ?path s")
  note f1 = snapshot_parent_files [OF d]
  have ok1: "fs_ok s1" using same_files_ok [OF f1] ok by simp
  obtain r s2 where o: "sys_open True ?tmp s1 = (r, s2)" by (cases "sys_open True ?tmp s1")
  show ?thesis
  proof (cases "path_is_safe ?path \<and> ok_status st1")
    case False
    with op d have "\<not> ok_status st \<and> (s' = s \<or> s' = s1)" by (auto simp: write_manifest_def split: if_splits)
    then show ?thesis using replaces_same [OF ok] f1 by auto
  next
    case start: True
    show ?thesis
    proof (cases r)
      case (Inl e)
      with op d o start have "\<not> ok_status st \<and> s' = s2" by (auto simp: write_manifest_def Let_def)
      then show ?thesis
        using replaces_same [OF ok same_files_trans [OF f1 open_failed_files [OF o [unfolded Inl]]]] by auto
    next
      case (Inr fd)
      let ?out = "\<lparr>of_fd = fd, of_good = True\<rparr>"
      obtain out3 s3 where p: "put_lines ?out (manifest_lines manifest) s2 = (out3, s3)"
        by (cases "put_lines ?out (manifest_lines manifest) s2")
      obtain out4 s4 where c: "stream_close out3 s3 = (out4, s4)" by (cases "stream_close out3 s3")
      obtain st5 s5 where i: "install_file ''snapshot manifest'' ?tmp ?path s4 = (st5, s5)"
        by (cases "install_file ''snapshot manifest'' ?tmp ?path s4")
      note opened = open_tmp_spec [OF ok1 o [unfolded Inr]]
      have written: "streamed ?tmp (manifest_text manifest) ?out s2 out4 s4"
        using streamed_trans [OF streamed_lines [OF p] streamed_close [OF c]] by (simp add: manifest_text_def)
      then have only: "only_tmp fd ?tmp s2 s4" "os_names s4 = os_names s2"
        "of_good out4 \<Longrightarrow> os_data s4 fd = manifest_text manifest"
        using opened(3) by (simp_all add: streamed_def)
      have op': "(st, s') = (if \<not> of_good out4 then (io_error ''failed writing snapshot manifest'', s4) else (st5, s5))"
        using op d o start Inr p c i by (auto simp: write_manifest_def Let_def split: if_splits)
      have "replaces ?tmp ?path (manifest_text manifest) s1 st s'"
        using op' only abandoned_replaces [OF ok1 o [unfolded Inr] ne only(1)]
          installed_replaces [OF ok1 o [unfolded Inr] ne only(1,2) _ i] by (auto split: if_splits)
      then show ?thesis by (rule replaces_from [OF f1])
    qed
  qed
qed


section \<open>Loading a snapshot\<close>

text \<open>The loop is a run over the commands of the file, each with its own reading of the clock.\<close>

definition load_step :: "clock \<Rightarrow> StorageEngine \<times> nat \<Rightarrow> string list \<Rightarrow> status \<times> StorageEngine \<times> nat" where
  "load_step clk x c = (case load_command (fst x) (clk (snd x)) c of (st, se') \<Rightarrow> (st, se', snd x + 1))"

definition load_result :: "string option \<Rightarrow> string \<Rightarrow> status option \<times> nat \<times> StorageEngine \<times> nat \<Rightarrow> status \<times> StorageEngine" where
  "load_result e rest res =
     (case res of
        (Some st, n, se, i) \<Rightarrow> (st, se)
      | (None, n, se, i) \<Rightarrow>
          (case e of
             None \<Rightarrow> (if rest = [] then status_ok else protocol_error ''partial snapshot command'', se)
           | Some m \<Rightarrow> (protocol_error m, se)))"

lemma load_loop_decode:
  assumes "decode_all (command_step (options p)) (buffer p) = (cs, e, rest)"
  shows "load_loop p (\<lambda>j. clk (i + j)) se = load_result e rest (apply_all (load_step clk) cs n (se, i))"
  using assms
proof (induction "length (buffer p)" arbitrary: p i se cs n rule: less_induct)
  case less
  obtain res p' where nx: "next_command p = (res, p')" by (cases "next_command p")
  note unfold = cmds.decode_all_unfold [of "options p" "buffer p", unfolded command_step_parser nx]
  show ?case
  proof (cases "cp_status res")
    case NeedMore
    with next_command_need_more [OF nx] less.prems unfold nx show ?thesis
      by (simp add: load_loop.simps [of p] load_result_def buffered_bytes_def)
  next
    case Parse_Error
    with less.prems unfold nx show ?thesis by (auto simp: load_loop.simps [of p] load_result_def)
  next
    case Parse_Ok
    obtain cs' e' rest' where d: "decode_all (command_step (options p)) (buffer p') = (cs', e', rest')"
      by (cases "decode_all (command_step (options p)) (buffer p')")
    have eqs: "cs = args (cp_command res) # cs'" "e' = e" "rest' = rest"
      using less.prems unfold Parse_Ok d by auto
    obtain st se1 where cb: "load_command se (clk i) (args (cp_command res)) = (st, se1)"
      by (cases "load_command se (clk i) (args (cp_command res))")
    have small: "length (buffer p') < length (buffer p)"
      by (rule next_command_less [OF nx [symmetric] Parse_Ok])
    have "decode_all (command_step (options p')) (buffer p') = (cs', e, rest)"
      using d eqs next_command_options [OF nx] by simp
    note IH = less.hyps [OF small this, of "i + 1" se1 "n + 1"]
    show ?thesis
      using nx Parse_Ok cb IH eqs by (simp add: load_loop.simps [of p] load_step_def load_result_def)
  qed
qed

interpretation loader: restorer "load_step clk" fst "\<lambda>_. \<forall>j. clk j \<le> latest" latest for clk latest
proof
  fix x k v st x' assume a: "\<forall>j. clk j \<le> latest" "load_step clk x [''SET'', k, v] = (st, x')"
  show "\<exists>now res. storage_set (fst x) now k v None Always = (res, fst x') \<and>
      (wr_code res = Ok \<longrightarrow> ok_status st \<and> (\<forall>j. clk j \<le> latest))"
    using a by (intro exI [of _ "clk (snd x)"], cases "storage_set (fst x) (clk (snd x)) k v None Always")
       (auto simp: load_step_def load_command_def split: if_splits)
next
  fix x k ms st x' assume clk: "\<forall>j. clk j \<le> latest" and "in_i64 ms"
    and "load_step clk x [''PEXPIREAT'', k, int_to_string ms] = (st, x')"
  then have "st = status_ok" "fst x' = snd (storage_expire_at (fst x) (clk (snd x)) k (timepoint_from_unix_ms ms))"
    by (auto simp: load_step_def load_command_def)
  with clk show "ok_status st \<and> (\<forall>j. clk j \<le> latest) \<and>
      (\<exists>now \<le> latest. fst x' = snd (storage_expire_at (fst x) now k (timepoint_from_unix_ms ms)))"
    by auto
qed

text \<open>A file of whole commands that fits the limits is run as a whole.\<close>

lemma snapshot_load_whole:
  assumes "path_is_safe (ss_path store)" and "os_script s = []"
    and "file_at s (ss_path store) = Some (concat (map encode_command cs))" and "log_fits (ss_protocol store) cs"
  shows "snapshot_load store se clk s =
    (case load_result None [] (apply_all (load_step clk) cs n (se, 0)) of (st, se') \<Rightarrow> (st, se', s))"
proof -
  let ?opts = "parser_options_from_config (ss_protocol store)" and ?b = "concat (map encode_command cs)"
  have fits: "\<forall>c \<in> set cs. command_fits ?opts c" "length ?b \<le> max_request_bytes (ss_protocol store)"
    using assms(4) by (simp_all add: log_fits_def)
  have d: "decode_all (command_step ?opts) ?b = (cs, None, [])"
    using cmds.decode_encoded [OF fits(1), of "[]"] cmds.decode_all_unfold [of ?opts "[]"] by simp
  have names: "os_names s (ss_path store) \<noteq> None" using assms(3) by (auto simp: file_at_def)
  have content: "sys_read_file (ss_path store) s = (Some ?b, s)"
    using assms(2,3) by (simp add: sys_read_file_def file_at_def)
  show ?thesis
  proof (cases "?b = []")
    case True
    have "cs = []" using d unfolding True using cmds.decode_all_unfold [of ?opts "[]"] by simp
    then show ?thesis using assms(1) names content by (simp add: snapshot_load_def sys_exists_def load_result_def)
  next
    case False
    then show ?thesis
      using load_loop_decode [of "\<lparr>options = ?opts, buffer = ?b\<rparr>" cs None "[]" clk 0 se n] d assms(1) names content fits(2)
      by (auto simp: snapshot_load_def sys_exists_def parser_append_def mk_parser_def parser_options_from_config_def)
  qed
qed

lemma snapshot_load_restores:
  assumes load: "path_is_safe (ss_path store)" "os_script s = []"
      "file_at s (ss_path store) = Some (restored_log es)" "log_fits (ss_protocol store) (concat (map restore_commands es))"
    and src: "storage_inv se" "se_alloc_ok se" "expiries_i64 (view se now)" "storage_snapshot se now = (es, se')"
    and fresh: "restores latest fresh Map.empty" "same_params se fresh" and clk: "\<forall>j. clk j \<le> latest"
  shows "\<exists>se1. snapshot_load store fresh clk s = (status_ok, se1, s) \<and> same_params se se1 \<and>
    restores latest se1 (ms_expiry (view se now))"
proof -
  obtain x' n' where "apply_all (load_step clk) (concat (map restore_commands es)) 0 (fresh, 0) = (None, n', x')"
    "same_params fresh (fst x')" "restores latest (fst x') (ms_expiry (view se now))"
    using loader.restore_snapshot [of clk latest "(fresh, 0)" se now es se' 0] clk fresh src by auto
  with snapshot_load_whole [OF load(1,2) load(3) [unfolded restored_log_def] load(4), of fresh clk 0]
    same_params_trans [OF fresh(2)]
  show ?thesis by (cases x') (simp add: load_result_def)
qed


section \<open>The manifest\<close>

text \<open>A value that survives the reading of a line: no line feed, no white space around it.\<close>

definition line_value :: "string \<Rightarrow> bool" where
  "line_value v \<longleftrightarrow> CHR 0x0A \<notin> set v \<and> trim v = v"

lemma trim_last:
  assumes "trim v = v" and "v \<noteq> []"
  shows "\<not> isspace (last v)"
proof -
  have v: "rev v = dropWhile isspace (rev (dropWhile isspace v))"
    using arg_cong [OF assms(1), of rev] by (simp add: trim_def)
  then have "dropWhile isspace (rev (dropWhile isspace v)) \<noteq> []" using assms(2) by (metis rev_is_Nil_conv)
  from hd_dropWhile [OF this] show ?thesis unfolding v [symmetric] by (simp add: hd_rev assms(2))
qed

lemma trim_line:
  assumes "k \<noteq> []" and "\<not> isspace (hd k)" and "trim v = v"
  shows "trim (k @ CHR ''='' # v) = k @ CHR ''='' # v"
proof -
  have "dropWhile isspace (k @ CHR ''='' # v) = k @ CHR ''='' # v"
    using assms(1,2) by (cases k) simp_all
  moreover have "dropWhile isspace (rev (k @ CHR ''='' # v)) = rev (k @ CHR ''='' # v)"
  proof (cases "v = []")
    case True
    then show ?thesis by (simp add: isspace_def)
  next
    case False
    then obtain u c where "v = u @ [c]" using rev_exhaust by blast
    with trim_last [OF assms(3) False] show ?thesis by simp
  qed
  ultimately show ?thesis by (simp add: trim_def)
qed

definition line_key :: "string \<Rightarrow> bool" where
  "line_key k \<longleftrightarrow> k \<noteq> [] \<and> (\<forall>c\<in>set k. \<not> isspace c \<and> c \<noteq> CHR ''='' \<and> c \<noteq> CHR ''#'')"

lemma manifest_values_line:
  assumes "line_key k" and "trim v = v"
  shows "manifest_values vs ((k @ CHR ''='' # v) # ls) = manifest_values (emplace k v vs) ls"
proof -
  have k: "k \<noteq> []" "\<not> isspace (hd k)" "hd k \<noteq> CHR ''#''" "trim k = k" "CHR ''='' \<notin> set k"
    using assms(1) trim_no_space [of k] by (auto simp: line_key_def)
  have line: "trim (k @ CHR ''='' # v) = k @ CHR ''='' # v" by (rule trim_line [OF k(1,2) assms(2)])
  show ?thesis
    using k assms(2) by (simp add: line split_at_char_append Let_def)
qed

lemma manifest_values_lines:
  "\<forall>(k, v)\<in>set kvs. line_key k \<and> trim v = v \<Longrightarrow>
     manifest_values vs (map (\<lambda>(k, v). k @ CHR ''='' # v) kvs) = fold (\<lambda>(k, v). emplace k v) kvs vs"
proof (induction kvs arbitrary: vs)
  case (Cons p kvs)
  then show ?case by (cases p) (simp add: manifest_values_line del: manifest_values.simps(2))
qed simp

lemma lines_of_lines: "\<forall>l\<in>set ls. CHR 0x0A \<notin> set l \<Longrightarrow> lines_of (concat (map (\<lambda>l. l @ [CHR 0x0A]) ls)) = ls"
  by (induction ls) (simp_all add: lines_of_line)

lemma manifest_round_trip:
  assumes "line_value (normalize_path_string (mf_snapshot_path m))" and "line_value (normalize_path_string (mf_aof_path m))"
    and "mf_aof_offset m \<le> u64_max" and "in_i64 (mf_created_unix_ms m)"
  shows "manifest_from_values (parse_manifest_lines (manifest_text m)) =
    Some (m\<lparr>mf_snapshot_path := normalize_path_string (mf_snapshot_path m),
            mf_aof_path := normalize_path_string (mf_aof_path m)\<rparr>)"
proof -
  let ?p = "normalize_path_string (mf_snapshot_path m)" and ?a = "normalize_path_string (mf_aof_path m)"
  let ?o = "nat_to_string (mf_aof_offset m)" and ?c = "int_to_string (mf_created_unix_ms m)"
  have plain: "CHR 0x0A \<notin> set ?o" "CHR 0x0A \<notin> set ?c" "trim ?o = ?o" "trim ?c = ?c"
  proof -
    have "\<forall>c\<in>set ?o. \<not> isspace c" "\<forall>c\<in>set ?c. \<not> isspace c"
      using nat_to_string_digits digit_not_space int_to_string_no_space by blast+
    moreover have "isspace (CHR 0x0A)" by (simp add: isspace_def)
    ultimately show "CHR 0x0A \<notin> set ?o" "CHR 0x0A \<notin> set ?c" "trim ?o = ?o" "trim ?c = ?c"
      using trim_no_space by auto
  qed
  let ?kvs = "[(''format_version'', ''1''), (''snapshot_path'', ?p), (''aof_path'', ?a), (''aof_offset'', ?o),
    (''created_unix_ms'', ?c)]"
  have lines: "lines_of (manifest_text m) = manifest_lines m"
    unfolding manifest_text_def using assms(1,2) plain
    by (intro lines_of_lines) (simp add: manifest_lines_def line_value_def)
  have eq: "manifest_lines m = map (\<lambda>(k, v). k @ CHR ''='' # v) ?kvs" by (simp add: manifest_lines_def)
  have valid: "\<forall>(k, v)\<in>set ?kvs. line_key k \<and> trim v = v"
    using assms(1,2) plain by (simp add: line_value_def line_key_def isspace_def trim_no_space)
  have "manifest_values [] (manifest_lines m) = fold (\<lambda>(k, v). emplace k v) ?kvs []"
    unfolding eq by (rule manifest_values_lines [OF valid])
  then have "manifest_values [] (manifest_lines m) = ?kvs" by (simp add: emplace_def)
  then show ?thesis
    using assms(3,4) by (simp add: parse_manifest_lines_def lines manifest_from_values_def parse_u64_nat_to_string)
qed


section \<open>Saving without faults\<close>

lemma put_quiet [simp]:
  assumes "os_script s = []" and "of_good out"
  shows "put_commands out cs s = (out, append_data (of_fd out) (concat (map encode_command cs)) s)"
    and "put_lines out ls s = (out, append_data (of_fd out) (concat (map (\<lambda>l. l @ [CHR 0x0A]) ls)) s)"
    and "put_entries out es s = (True, out, append_data (of_fd out) (restored_log es) s)"
proof -
  have put: "os_script s = [] \<Longrightarrow> stream_put out bs s = (out, append_data (of_fd out) bs s)" for bs s
    using assms(2) by (simp add: stream_put_def next_outcome_def)
  show cmds: "put_commands out cs s = (out, append_data (of_fd out) (concat (map encode_command cs)) s)"
    using assms(1) by (induction cs arbitrary: s) (simp_all add: put)
  show "put_lines out ls s = (out, append_data (of_fd out) (concat (map (\<lambda>l. l @ [CHR 0x0A]) ls)) s)"
    using assms(1) by (induction ls arbitrary: s) (simp_all add: put)
  have "os_script s = [] \<Longrightarrow> put_commands out cs s = (out, append_data (of_fd out) (concat (map encode_command cs)) s)" for cs s
    by (induction cs arbitrary: s) (simp_all add: put)
  then show "put_entries out es s = (True, out, append_data (of_fd out) (restored_log es) s)"
    using assms by (induction es arbitrary: s) (simp_all add: restored_log_def)
qed

lemma open_quiet:
  assumes "os_script s = []"
  shows "\<exists>fd s'. sys_open trunc path s = (Inr fd, s') \<and> os_names s' path = Some fd \<and> os_script s' = []"
  using assms by (cases "os_names s path") (simp_all add: sys_open_def open_existing_def create_file_def)

lemma install_quiet:
  "os_script s = [] \<Longrightarrow> os_names s tmp = Some fd \<Longrightarrow>
     \<exists>s'. install_file what tmp path s = (status_ok, s') \<and> os_script s' = []"
  by (simp add: install_file_def sys_rename_def)

lemma parent_quiet: "os_script s = [] \<Longrightarrow> snapshot_ensure_parent_dir path s = (status_ok, s)"
  by (simp add: snapshot_ensure_parent_dir_def)

lemma save_file_quiet:
  assumes "os_script s = []" and "path_is_safe (ss_path store)"
  shows "\<exists>s'. save_snapshot_file store se now s = (status_ok, snd (storage_snapshot se now), s') \<and> os_script s' = []"
proof -
  let ?tmp = "ss_path store @ ''.tmp''"
  obtain fd s1 where o: "sys_open True ?tmp s = (Inr fd, s1)" "os_names s1 ?tmp = Some fd" "os_script s1 = []"
    using open_quiet [OF assms(1)] by blast
  obtain es se1 where sn: "storage_snapshot se now = (es, se1)" by (cases "storage_snapshot se now")
  obtain s' where "install_file ''snapshot'' ?tmp (ss_path store) (append_data fd (restored_log es) s1) = (status_ok, s')" "os_script s' = []"
    using install_quiet [of "append_data fd (restored_log es) s1" ?tmp fd] o by auto
  with o sn assms show ?thesis by (simp add: save_snapshot_file_def parent_quiet stream_close_def Let_def)
qed

lemma write_manifest_quiet:
  assumes "os_script s = []" and "path_is_safe (ss_manifest_path store)"
  shows "\<exists>s'. write_manifest store manifest s = (status_ok, s') \<and> os_script s' = []"
proof -
  let ?path = "ss_manifest_path store"
  let ?tmp = "manifest_tmp_path ?path"
  obtain fd s1 where o: "sys_open True ?tmp s = (Inr fd, s1)" "os_names s1 ?tmp = Some fd" "os_script s1 = []"
    using open_quiet [OF assms(1)] by blast
  obtain s' where "install_file ''snapshot manifest'' ?tmp ?path (append_data fd (manifest_text manifest) s1) = (status_ok, s')" "os_script s' = []"
    using install_quiet [of "append_data fd (manifest_text manifest) s1" ?tmp fd] o by auto
  with o assms show ?thesis
    by (simp add: write_manifest_def parent_quiet stream_close_def Let_def manifest_text_def [symmetric])
qed

text \<open>The files of the persistence layer do not get in each other's way.\<close>

definition paths_apart :: "SnapshotStore \<Rightarrow> string \<Rightarrow> bool" where
  "paths_apart store log \<longleftrightarrow>
     (let snap = ss_path store; manifest = ss_manifest_path store in
      log \<notin> {snap, snap @ ''.tmp'', manifest, manifest_tmp_path manifest} \<and>
      manifest \<notin> {snap, snap @ ''.tmp''} \<and> snap \<noteq> manifest_tmp_path manifest)"

lemma snapshot_save_files:
  assumes s: "os_script s = []" "aof_wf aof s" "enabled aof"
    and store: "path_is_safe (ss_path store)" "path_is_safe (ss_manifest_path store)" "paths_apart store (aof_path (ao_config aof))"
  defines "path \<equiv> aof_path (ao_config aof)"
  shows "\<exists>s'. snapshot_save store se (Some aof) clk s = (status_ok, snd (storage_snapshot se (clk 0)), s') \<and>
    os_script s' = [] \<and> fs_ok s' \<and> file_at s' path = file_at s path \<and> os_names s' path = os_names s path \<and>
    file_at s' (ss_path store) = Some (restored_log (fst (storage_snapshot se (clk 0)))) \<and>
    file_at s' (ss_manifest_path store) = Some (manifest_text
      \<lparr>mf_snapshot_path = ss_path store, mf_aof_path = path, mf_aof_offset = ao_current_size aof,
       mf_created_unix_ms = unix_ms (clk 1)\<rparr>)"
proof -
  let ?m = "\<lparr>mf_snapshot_path = ss_path store, mf_aof_path = path, mf_aof_offset = ao_current_size aof,
       mf_created_unix_ms = unix_ms (clk 1)\<rparr>"
  obtain fd where fd: "ao_fd aof = Some fd" using s(3) by (auto simp: enabled_def)
  define s1 where "s1 = s\<lparr>os_synced := (os_synced s)(fd := length (os_data s fd))\<rparr>"
  have sync: "aof_sync aof s = (status_ok, s1)" using s(1) fd by (simp add: aof_sync_def sync_fd_def sys_fsync_def s1_def)
  have 1: "os_script s1 = []" "fs_ok s1" "file_at s1 = file_at s" "os_names s1 = os_names s"
    using s(1,2) by (simp_all add: s1_def aof_wf_def fs_ok_def file_at_def fun_eq_iff)
  obtain s2 where a: "save_snapshot_file store se (clk 0) s1 = (status_ok, snd (storage_snapshot se (clk 0)), s2)" "os_script s2 = []"
    using save_file_quiet [OF 1(1) store(1)] by blast
  note ra = save_snapshot_replaces(1) [OF 1(2) a(1)]
  obtain s3 where b: "write_manifest store ?m s2 = (status_ok, s3)" "os_script s3 = []"
    using write_manifest_quiet [OF a(2) store(2)] by blast
  note rb = write_manifest_replaces [OF _ b(1)]
  show ?thesis
    using a b sync ra rb s(3) store(3) 1 by (auto simp: snapshot_save_def Let_def replaces_def paths_apart_def path_def)
qed

end
