(* ===== verification/Recovery_Props.thy ===== *)
theory Recovery_Props
  imports Log_Replay Snapshot_Props "HOL-Library.Sublist"
begin

text \<open>
  A whole life of the server: started by \<open>main\<close> on a fresh log, it executes commands, crashes
  and is started again.  What it then holds is the state after a prefix of the commands; after
  all of them when the whole log survived the crash.
\<close>


section \<open>Recovery\<close>

abbreviation log_file :: "Config \<Rightarrow> string" where
  "log_file config \<equiv> aof_path (persistence config)"

lemma probe_quiet:
  assumes "os_script s = []"
  shows "probe_aof_size path s = (length (case file_at s path of None \<Rightarrow> [] | Some b \<Rightarrow> b), s)"
  using assms by (cases "os_names s path") (auto simp: probe_aof_size_def sys_file_size_def sys_exists_def file_at_def)

definition finish_replay :: "ReplayStats \<times> (CommandContext \<times> nat) \<times> os \<Rightarrow> (nat + StorageEngine \<times> Metrics) \<times> os" where
  "finish_replay res =
     (case res of (stats, (ctx', n), s3) \<Rightarrow>
        if \<not> ok_status (rs_status stats) then (Inl 3, s3) else (Inr (cx_storage ctx', cx_metrics ctx'), s3))"

lemma recover_no_manifest:
  assumes "os_script s = []" and "os_names s (ss_manifest_path store) = None"
  shows "recover_aof config reg store clk clocks metrics logger steady se s =
    finish_replay (replay_file (log_file config) (protocol config) (replay_callback reg clocks) 0
        (replay_context config se metrics store logger steady s, 0) s)"
  using assms by (simp add: recover_aof_def probe_quiet load_for_recovery_def read_manifest_def sys_exists_def Let_def finish_replay_def)

lemma recover_with_manifest:
  assumes "os_script s = []" and "read_manifest store s = (Some m, s)"
    and "file_at s (log_file config) = Some b"
    and "manifest_matches store m (log_file config) (length b) s"
    and "snapshot_load store se clk s = (status_ok, se1, s)"
  shows "recover_aof config reg store clk clocks metrics logger steady se s =
    finish_replay (replay_file (log_file config) (protocol config) (replay_callback reg clocks)
        (mf_aof_offset m) (replay_context config se1 metrics store logger steady s, 0) s)"
  using assms by (simp add: recover_aof_def probe_quiet load_for_recovery_def Let_def finish_replay_def)

lemma open_log:
  assumes "os_script s = []" and "fs_ok s" and "aof_enabled config" and "path_is_safe (aof_path config)"
  shows "\<exists>aof s'. aof_open (mk_aof config limits) s = (status_ok, aof, s') \<and> enabled aof \<and> aof_wf aof s' \<and>
    os_script s' = [] \<and> ao_config aof = config \<and> ao_current_size aof = length (the (file_at s' (aof_path config))) \<and>
    file_at s' (aof_path config) = Some (case file_at s (aof_path config) of None \<Rightarrow> [] | Some b \<Rightarrow> b)"
proof -
  have dir: "ensure_parent_dir (aof_path config) s = (status_ok, s)"
    using assms(1) by (simp add: ensure_parent_dir_def Let_def)
  show ?thesis
  proof (cases "os_names s (aof_path config)")
    case None
    have "fs_ok (create_file (aof_path config) s)" by (rule create_file_ok [OF assms(2)])
    with assms None dir show ?thesis
      by (simp add: aof_open_def mk_aof_def reopen_locked_def sys_open_def sys_file_size_def enabled_def aof_wf_def
          create_file_def file_at_def Let_def)
  next
    case (Some ino)
    with assms dir show ?thesis
      by (simp add: aof_open_def mk_aof_def reopen_locked_def sys_open_def sys_file_size_def enabled_def aof_wf_def
          open_existing_def file_at_def Let_def)
  qed
qed


section \<open>The start of the server\<close>

text \<open>The configuration of a start, and the engine and the snapshot store it constructs.\<close>

definition started_config :: "(string \<Rightarrow> string option) \<Rightarrow> (string \<Rightarrow> string option) \<Rightarrow> string list \<Rightarrow> Config \<Rightarrow> bool" where
  "started_config getenv read_text argv config \<longleftrightarrow>
     (let loaded = load_config getenv read_text argv in
      \<not> cl_show_help loaded \<and> ok_status (cl_status loaded) \<and> cl_config loaded = config) \<and>
     aof_enabled (persistence config) \<and> path_is_safe (aof_path (persistence config))"

definition fresh_engine :: "(string \<Rightarrow> nat) \<Rightarrow> bool \<Rightarrow> Config \<Rightarrow> StorageEngine" where
  "fresh_engine hash_fn alloc config = mk_storage hash_fn alloc (storage_cfg config) (protocol config)"

definition store_of :: "Config \<Rightarrow> SnapshotStore" where
  "store_of config = mk_snapshot_store (snapshot_path (persistence config)) (protocol config)
     (manifest_path (persistence config))"

abbreviation manifest_of :: "Config \<Rightarrow> string" where
  "manifest_of config \<equiv> ss_manifest_path (store_of config)"

text \<open>
  When the recovery succeeds so does the start; the storage is the recovered one, and the log is
  open at the end of what is there.
\<close>

lemma main_start_recovered:
  assumes conf: "started_config getenv read_text argv config"
    and s: "os_script s = []" "fs_ok s"
    and recover: "\<And>metrics logger. \<exists>se1 m1.
      recover_aof config registry (store_of config) clk clocks metrics logger steady (fresh_engine hash_fn alloc config) s =
        (Inr (se1, m1), s) \<and> P se1"
  shows "\<exists>ctx. main_start getenv read_text argv hash_fn alloc steady clk clocks s = Inr ctx \<and> P (cx_storage ctx) \<and>
    logging ctx \<and> cx_config ctx = config \<and> cx_snapshot ctx = Some (store_of config) \<and> log_path ctx = log_file config \<and>
    log_of ctx = (case file_at s (log_file config) of None \<Rightarrow> [] | Some b \<Rightarrow> b)"
proof -
  define metrics where "metrics = set_enabled (mk_metrics steady) (metrics_enabled config)"
  define logger where "logger = set_level logger_instance (parse_log_level (logging_level config))"
  have loaded: "\<not> cl_show_help (load_config getenv read_text argv)" "ok_status (cl_status (load_config getenv read_text argv))"
    "cl_config (load_config getenv read_text argv) = config"
    and conf': "aof_enabled (persistence config)" "path_is_safe (log_file config)"
    using conf by (simp_all add: started_config_def Let_def)
  obtain se1 m1 where rec: "recover_aof config registry (store_of config) clk clocks metrics logger steady
      (fresh_engine hash_fn alloc config) s = (Inr (se1, m1), s)" "P se1"
    using recover by blast
  obtain aof s' where op: "aof_open (mk_aof (persistence config) (protocol config)) s = (status_ok, aof, s')"
    and aof: "enabled aof" "aof_wf aof s'" "os_script s' = []" "ao_config aof = persistence config"
      "ao_current_size aof = length (the (file_at s' (log_file config)))"
      "file_at s' (log_file config) = Some (case file_at s (log_file config) of None \<Rightarrow> [] | Some b \<Rightarrow> b)"
    using open_log [OF s conf', of "protocol config"] by blast
  have "main_start getenv read_text argv hash_fn alloc steady clk clocks s =
      Inr \<lparr>cx_storage = se1, cx_metrics = m1, cx_config = config, cx_aof = Some aof,
           cx_snapshot = Some (store_of config), cx_request_shutdown = True, cx_shutdown_requested = False,
           cx_replay = False, cx_os = s', cx_logger = logger, cx_steady = steady\<rparr>"
    using loaded conf' rec(1) op
    by (simp add: main_start_def Let_def fresh_engine_def store_of_def metrics_def logger_def)
  then show ?thesis using rec(2) aof by (simp add: logging_def log_path_def log_of_def)
qed

lemma main_start_fresh:
  assumes conf: "started_config getenv read_text argv config"
    and s: "os_script s = []" "fs_ok s" "os_names s (manifest_of config) = None" "file_at s (log_file config) = None"
  shows "\<exists>ctx. main_start getenv read_text argv hash_fn alloc steady clk clocks s = Inr ctx \<and>
    cx_storage ctx = fresh_engine hash_fn alloc config \<and> logging ctx \<and> cx_config ctx = config \<and>
    cx_snapshot ctx = Some (store_of config) \<and> log_path ctx = log_file config \<and> log_of ctx = []"
proof -
  have "os_names s (log_file config) = None" using s(4) by (simp add: file_at_def)
  then have "\<exists>se1 m1. recover_aof config registry (store_of config) clk clocks metrics logger steady
      (fresh_engine hash_fn alloc config) s = (Inr (se1, m1), s) \<and> se1 = fresh_engine hash_fn alloc config" for metrics logger
    using recover_no_manifest [OF s(1,3)]
    by (simp add: replay_file_def sys_exists_def no_stats_def finish_replay_def replay_context_def)
  from main_start_recovered [OF conf s(1,2), where P = "\<lambda>se. se = fresh_engine hash_fn alloc config", OF this] s(4)
  show ?thesis by auto
qed


section \<open>Crash and restart\<close>

lemma fresh_plain: "alike h (fresh_engine hash_fn alloc config) (fresh_engine hash_fn alloc config)"
  by (rule alike_refl) (simp_all add: fresh_engine_def plain_def)

lemma logged_fits:
  assumes "\<forall>as\<in>set cs. length as \<le> max_array_elements limits \<and> (\<forall>a\<in>set as. length a \<le> max_value_size limits)"
    and "\<forall>c\<in>set log. \<exists>as\<in>set cs. logged_from h as c" and "h = None \<or> 20 \<le> max_value_size limits"
    and "length (concat (map encode_command log)) \<le> max_request_bytes limits"
    and "int (length (concat (map encode_command log))) \<le> i64_max"
  shows "log_fits limits log"
proof -
  have "command_fits (parser_options_from_config limits) c" if c: "c \<in> set log" for c
  proof -
    obtain as where as: "as \<in> set cs" "logged_from h as c" using assms(2) c by blast
    have "length x \<le> max_value_size limits" if "x \<in> set c" for x
      using as assms(1,3) that by (force simp: logged_from_def)
    moreover have "length c \<le> max_array_elements limits" using as assms(1) by (force simp: logged_from_def)
    moreover have "length (encode_command c) \<le> length (concat (map encode_command log))"
      using c by (simp add: length_concat member_le_sum_list)
    ultimately show ?thesis
      using assms(4,5) by (auto simp: command_fits_def parser_options_from_config_def)
  qed
  then show ?thesis using assms(4) by (simp add: log_fits_def)
qed

text \<open>
  The commands a run may execute: within the limits of the protocol, no \<open>MSET\<close> that was refused half-way,
  and all deadlines behind the horizon, as the readings of the clock are before it.
\<close>

definition recoverable_run :: "time_point option \<Rightarrow> ProtocolConfig \<Rightarrow> (nat \<Rightarrow> clock) \<Rightarrow> string list list \<Rightarrow> CommandResult list \<Rightarrow> bool" where
  "recoverable_run h limits clocks cs rs \<longleftrightarrow>
     (h = None \<or> 20 \<le> max_value_size limits) \<and>
     (\<forall>i<length cs. timely h (clocks i) \<and> lasting h (clocks i) (cs ! i)) \<and>
     (\<forall>as\<in>set cs. length as \<le> max_array_elements limits \<and> (\<forall>a\<in>set as. length a \<le> max_value_size limits)) \<and>
     (\<forall>(c, r)\<in>set (zip cs rs). \<not> mset_refused c r)"

lemma recoverable_log:
  assumes "logging ctx" and "storage_inv (cx_storage ctx)" and "plain h (cx_storage ctx)"
    and "run_commands ctx clocks cs = (rs, ctx')" and "recoverable_run h limits clocks cs rs"
  shows "\<exists>log. wrote_log ctx ctx' log \<and> (\<forall>c\<in>set log. \<exists>as\<in>set cs. logged_from h as c) \<and>
    (\<forall>k \<le> length log. \<exists>n \<le> length cs. (k = length log \<longrightarrow> n = length cs) \<and>
       replays_to h (take k log) (cx_storage ctx) (storage_after ctx clocks (take n cs)))"
  using run_commands_log [OF assms(1-3) _ assms(4)] assms(5) unfolding recoverable_run_def by blast

text \<open>
  The log from some point on, or any prefix of it, replays to the state after a prefix of the
  commands that wrote it.
\<close>

lemma replay_since:
  assumes ctx: "logging ctx" "storage_inv (cx_storage ctx)" "plain h (cx_storage ctx)"
    and run: "run_commands ctx clocks cs = (rs, ctx')" "recoverable_run h limits clocks cs rs"
    and bound: "length (log_of ctx') - length (log_of ctx) \<le> max_request_bytes limits" "int (length (log_of ctx')) \<le> i64_max"
    and s: "path_is_safe path" "os_script s = []" "file_at s path = Some (log_of ctx @ survived)"
      "prefix (log_of ctx @ survived) (log_of ctx')"
    and clks: "\<forall>i. timely h (clks i)"
  shows "\<exists>n \<le> length cs. (log_of ctx @ survived = log_of ctx' \<longrightarrow> n = length cs) \<and>
    (\<forall>rctx. cx_replay rctx \<longrightarrow> alike h (cx_storage ctx) (cx_storage rctx) \<longrightarrow>
      (\<exists>stats rctx' i. replay_file path limits (replay_callback registry clks) (length (log_of ctx)) (rctx, 0) s =
         (stats, (rctx', i), s) \<and> ok_status (rs_status stats) \<and>
         alike h (storage_after ctx clocks (take n cs)) (cx_storage rctx')))"
proof -
  obtain log where w: "wrote_log ctx ctx' log" and origin: "\<forall>c\<in>set log. \<exists>as\<in>set cs. logged_from h as c"
    and prefixes: "\<forall>k \<le> length log. \<exists>n \<le> length cs. (k = length log \<longrightarrow> n = length cs) \<and>
       replays_to h (take k log) (cx_storage ctx) (storage_after ctx clocks (take n cs))"
    using recoverable_log [OF ctx run] by blast
  have logged: "log_of ctx' = log_of ctx @ concat (map encode_command log)" using w by (simp add: wrote_log_def)
  have fits: "log_fits limits log"
    using logged_fits [OF _ origin] bound run(2) logged by (simp add: recoverable_run_def)
  obtain lost where lost: "concat (map encode_command log) = survived @ lost" using s(4) logged by (auto elim: prefixE)
  obtain k tail where k: "k \<le> length log" "lost = [] \<longrightarrow> k = length log"
    and replay: "\<And>callback x. replay_file path limits callback (length (log_of ctx)) (x :: CommandContext \<times> nat) s =
      (case replay_result None tail no_stats (apply_all callback (take k log) 0 x) of (stats, x') \<Rightarrow> (stats, x', s))"
    using replay_file_prefix [OF s(1,3,2) fits lost] by blast
  obtain n where n: "n \<le> length cs" "k = length log \<longrightarrow> n = length cs"
    and rep: "replays_to h (take k log) (cx_storage ctx) (storage_after ctx clocks (take n cs))"
    using prefixes k(1) by blast
  have "\<exists>stats rctx' i. replay_file path limits (replay_callback registry clks) (length (log_of ctx)) (rctx, 0) s =
      (stats, (rctx', i), s) \<and> ok_status (rs_status stats) \<and> alike h (storage_after ctx clocks (take n cs)) (cx_storage rctx')"
    if rctx: "cx_replay rctx" "alike h (cx_storage ctx) (cx_storage rctx)" for rctx
  proof -
    obtain rctx' j where "apply_all (replay_callback registry clks) (take k log) 0 (rctx, 0) = (None, 0 + length (take k log), rctx', j)"
        "alike h (storage_after ctx clocks (take n cs)) (cx_storage rctx')"
      using rep clks rctx unfolding replays_to_def by blast
    then show ?thesis by (simp add: replay replay_result_def no_stats_def)
  qed
  with n k lost logged show ?thesis by auto
qed

text \<open>A run, a crash that leaves a prefix of the log, and the next start.\<close>

lemma restart_within:
  assumes conf: "started_config getenv read_text argv config"
    and s0: "os_script s0 = []" "fs_ok s0" "os_names s0 (manifest_of config) = None"
      "file_at s0 (log_file config) = None"
    and start: "main_start getenv read_text argv hash_fn alloc steady0 clk0 clks0 s0 = Inr ctx0"
    and run: "run_commands ctx0 clocks cs = (rs, ctx1)" "recoverable_run h (protocol config) clocks cs rs"
    and bound: "length (log_of ctx1) \<le> max_request_bytes (protocol config)" "int (length (log_of ctx1)) \<le> i64_max"
    and s1: "os_script s1 = []" "fs_ok s1" "os_names s1 (manifest_of config) = None"
      "file_at s1 (log_file config) = Some survived" "prefix survived (log_of ctx1)"
    and clks1: "\<forall>i. timely h (clks1 i)"
  shows "\<exists>n ctx2. n \<le> length cs \<and> (survived = log_of ctx1 \<longrightarrow> n = length cs) \<and>
    main_start getenv read_text argv hash_fn alloc steady1 clk1 clks1 s1 = Inr ctx2 \<and>
    alike h (storage_after ctx0 clocks (take n cs)) (cx_storage ctx2)"
proof -
  let ?fresh = "fresh_engine hash_fn alloc config"
  have ctx0: "cx_storage ctx0 = ?fresh" "logging ctx0" "log_of ctx0 = []"
    using main_start_fresh [OF conf s0, of hash_fn alloc steady0 clk0 clks0] start by auto
  have inv: "storage_inv (cx_storage ctx0)" "plain h (cx_storage ctx0)"
    using alikeD(1,4) [OF fresh_plain] ctx0(1) by simp_all
  have safe: "path_is_safe (log_file config)" using conf by (simp add: started_config_def)
  obtain n where n: "n \<le> length cs" "survived = log_of ctx1 \<longrightarrow> n = length cs"
    and replay: "\<forall>rctx. cx_replay rctx \<longrightarrow> alike h ?fresh (cx_storage rctx) \<longrightarrow>
      (\<exists>stats rctx' i. replay_file (log_file config) (protocol config) (replay_callback registry clks1) 0 (rctx, 0) s1 =
         (stats, (rctx', i), s1) \<and> ok_status (rs_status stats) \<and>
         alike h (storage_after ctx0 clocks (take n cs)) (cx_storage rctx'))"
    using replay_since [OF ctx0(2) inv run _ bound(2) safe s1(1), of survived clks1] s1(4,5) bound(1) ctx0(1,3) clks1 by auto
  have "\<exists>se1 m1. recover_aof config registry (store_of config) clk1 clks1 metrics logger steady1 ?fresh s1 =
      (Inr (se1, m1), s1) \<and> alike h (storage_after ctx0 clocks (take n cs)) se1" for metrics logger
    using recover_no_manifest [OF s1(1,3)] fresh_plain [of h hash_fn alloc config]
      replay [rule_format, of "replay_context config ?fresh metrics (store_of config) logger steady1 s1"]
    by (auto simp: replay_context_def finish_replay_def)
  from main_start_recovered [OF conf s1(1,2) this] n show ?thesis by blast
qed

text \<open>
  C1. The server started by \<open>main\<close> on a fresh log executes commands that set no expiry, without \<open>SAVE\<close>,
  \<open>BGREWRITEAOF\<close> and \<open>SHUTDOWN\<close> and without an \<open>MSET\<close> that fails half-way, with no failing call, and its
  log stays within \<open>max_request_bytes\<close>.  It crashes, leaving some prefix of the bytes of its log.  Then
  \<open>main\<close> starts again, not refusing the log, and the storage is the one after a prefix of the commands;
  after all of them when the log is complete.\<close>

theorem restart_restores_prefix:
  assumes conf: "started_config getenv read_text argv config"
    and s0: "os_script s0 = []" "fs_ok s0" "os_names s0 (manifest_of config) = None"
      "file_at s0 (log_file config) = None"
    and start: "main_start getenv read_text argv hash_fn alloc steady0 clk0 clks0 s0 = Inr ctx0"
    and run: "run_commands ctx0 clocks cs = (rs, ctx1)" "recoverable_run None (protocol config) clocks cs rs"
    and bound: "length (log_of ctx1) \<le> max_request_bytes (protocol config)" "int (length (log_of ctx1)) \<le> i64_max"
    and s1: "os_script s1 = []" "fs_ok s1" "os_names s1 (manifest_of config) = None"
      "file_at s1 (log_file config) = Some survived" "prefix survived (log_of ctx1)"
  shows "\<exists>n ctx2. n \<le> length cs \<and> (survived = log_of ctx1 \<longrightarrow> n = length cs) \<and>
    main_start getenv read_text argv hash_fn alloc steady1 clk1 clks1 s1 = Inr ctx2 \<and>
    view (cx_storage ctx2) = view (storage_after ctx0 clocks (take n cs))"
proof -
  obtain n ctx2 where "n \<le> length cs" "survived = log_of ctx1 \<longrightarrow> n = length cs"
    "main_start getenv read_text argv hash_fn alloc steady1 clk1 clks1 s1 = Inr ctx2"
    and like: "alike None (storage_after ctx0 clocks (take n cs)) (cx_storage ctx2)"
    using restart_within [OF conf s0 start run bound s1, of clks1 steady1 clk1] by auto
  moreover have "view (cx_storage ctx2) = view (storage_after ctx0 clocks (take n cs))"
    by (rule ext) (rule alike_view [OF like])
  ultimately show ?thesis by blast
qed

text \<open>A start with one shard, two commands, and a crash within the record of the second.\<close>

definition example_config :: Config where
  "example_config = default_config\<lparr>storage_cfg := \<lparr>shards = 1, max_memory_bytes = 1024 * 1024 * 1024\<rparr>\<rparr>"

definition example_start :: "os \<Rightarrow> nat + CommandContext" where
  "example_start = main_start (\<lambda>_. None) (\<lambda>_. None) [''--storage-shards=1''] length True 0 (\<lambda>_. 0) (\<lambda>_ _. 0)"

definition example_run :: "string list list" where
  "example_run = [[''set'', ''a'', ''1''], [''INCR'', ''a'']]"

definition example_crash :: "string \<Rightarrow> os" where
  "example_crash bs = append_data 0 bs (create_file ''./data/veloxdb.aof'' (empty_os 1 []))"

lemmas example_defs = example_config_def example_start_def example_run_def example_crash_def

lemma example_config_started: "started_config (\<lambda>_. None) (\<lambda>_. None) [''--storage-shards=1''] example_config"
  by (simp add: started_config_def example_defs evals)

lemma example_log:
  "\<exists>ctx0 rs ctx1. example_start (empty_os 1 []) = Inr ctx0 \<and> run_commands ctx0 (\<lambda>_ _. 0) example_run = (rs, ctx1) \<and>
     log_of ctx1 = encode_command [''SET'', ''a'', ''1''] @ encode_command [''INCR'', ''a'']"
  by (simp add: example_defs log_of_def log_path_def file_at_def evals Let_def)

theorem restart_restores_prefix_witness:
  "\<exists>ctx0 n ctx2. example_start (empty_os 1 []) = Inr ctx0 \<and> n \<le> 2 \<and>
     example_start (example_crash (encode_command [''SET'', ''a'', ''1''] @ ''*2'')) = Inr ctx2 \<and>
     view (cx_storage ctx2) = view (storage_after ctx0 (\<lambda>_ _. 0) (take n example_run))"
proof -
  let ?s0 = "empty_os 1 []" and ?b = "encode_command [''SET'', ''a'', ''1''] @ ''*2''"
  obtain ctx0 rs ctx1 where start: "example_start ?s0 = Inr ctx0"
    and run: "run_commands ctx0 (\<lambda>_ _. 0) example_run = (rs, ctx1)"
    and log: "log_of ctx1 = encode_command [''SET'', ''a'', ''1''] @ encode_command [''INCR'', ''a'']"
    using example_log by blast
  have s0: "os_script ?s0 = []" "fs_ok ?s0" "os_names ?s0 (manifest_of example_config) = None"
    "file_at ?s0 (aof_path (persistence example_config)) = None"
    by (simp_all add: empty_os_def fs_ok_def file_at_def)
  have rr: "recoverable_run None (protocol example_config) (\<lambda>_ _. 0) example_run rs"
  proof -
    have "\<forall>c\<in>set example_run. to_upper_ascii (c ! 0) \<noteq> ''MSET''" by (simp add: example_defs evals)
    then have "\<forall>(c, r)\<in>set (zip example_run rs). \<not> mset_refused c r"
      by (auto simp: mset_refused_def dest: set_zip_leftD)
    then show ?thesis by (simp add: recoverable_run_def example_defs lasting_def less_Suc_eq evals)
  qed
  have bound: "length (log_of ctx1) \<le> max_request_bytes (protocol example_config)" "int (length (log_of ctx1)) \<le> i64_max"
    unfolding log by (simp_all add: example_defs evals)
  have s1: "os_script (example_crash ?b) = []" "fs_ok (example_crash ?b)"
    "os_names (example_crash ?b) (manifest_of example_config) = None"
    "file_at (example_crash ?b) (aof_path (persistence example_config)) = Some ?b"
    by (simp_all add: example_defs store_of_def fs_ok_def file_at_def evals)
  have "prefix ?b (log_of ctx1)" by (simp add: log evals numeral_2_eq_2 [symmetric])
  from restart_restores_prefix [OF example_config_started s0 start [unfolded example_start_def] run rr bound s1 this]
  obtain n ctx2 where "n \<le> length example_run" "example_start (example_crash ?b) = Inr ctx2"
    "view (cx_storage ctx2) = view (storage_after ctx0 (\<lambda>_ _. 0) (take n example_run))"
    unfolding example_start_def by blast
  moreover have "length example_run = 2" by (simp add: example_run_def)
  ultimately show ?thesis using start by auto
qed


text \<open>
  C2. Recovery with expiries: the server executes commands that may set, change and remove expiries, with
  the other conditions of the theorem before, in particular a log within \<open>max_request_bytes\<close>, crashes
  leaving some prefix of the bytes of its log, and is started again by the time \<open>latest\<close>, while
  all deadlines are at least two milliseconds after that.  Then \<open>main\<close> starts again, and until \<open>latest\<close> its
  storage has the keys, with their values, that it has after a prefix of the commands, and the same
  keys have an expiry.\<close>

theorem restart_before_deadlines:
  assumes conf: "started_config getenv read_text argv config"
    and s0: "os_script s0 = []" "fs_ok s0" "os_names s0 (manifest_of config) = None"
      "file_at s0 (log_file config) = None"
    and start: "main_start getenv read_text argv hash_fn alloc steady0 clk0 clks0 s0 = Inr ctx0"
    and run: "run_commands ctx0 clocks cs = (rs, ctx1)" "recoverable_run (Some latest) (protocol config) clocks cs rs"
    and bound: "length (log_of ctx1) \<le> max_request_bytes (protocol config)" "int (length (log_of ctx1)) \<le> i64_max"
    and s1: "os_script s1 = []" "fs_ok s1" "os_names s1 (manifest_of config) = None"
      "file_at s1 (log_file config) = Some survived" "prefix survived (log_of ctx1)"
    and clks1: "\<forall>i. timely (Some latest) (clks1 i)"
  shows "\<exists>n ctx2. n \<le> length cs \<and> (survived = log_of ctx1 \<longrightarrow> n = length cs) \<and>
    main_start getenv read_text argv hash_fn alloc steady1 clk1 clks1 s1 = Inr ctx2 \<and>
    (\<forall>t \<le> latest. shape (view (cx_storage ctx2) t) = shape (view (storage_after ctx0 clocks (take n cs)) t))"
proof -
  obtain n ctx2 where "n \<le> length cs" "survived = log_of ctx1 \<longrightarrow> n = length cs"
    "main_start getenv read_text argv hash_fn alloc steady1 clk1 clks1 s1 = Inr ctx2"
    and like: "alike (Some latest) (storage_after ctx0 clocks (take n cs)) (cx_storage ctx2)"
    using restart_within [OF conf s0 start run bound s1 clks1, of steady1 clk1] by blast
  moreover have "\<forall>t \<le> latest. shape (view (cx_storage ctx2) t) = shape (view (storage_after ctx0 clocks (take n cs)) t)"
    using alikeD(7) [OF like] by simp
  ultimately show ?thesis by blast
qed

text \<open>Commands with expiries at time 0, and a restart after a millisecond.\<close>

definition expiring_run :: "string list list" where
  "expiring_run = [[''SET'', ''a'', ''1'', ''EX'', ''9''], [''INCR'', ''b''], [''EXPIRE'', ''b'', ''7''], [''PERSIST'', ''a'']]"

definition restart_after_ms :: "os \<Rightarrow> nat + CommandContext" where
  "restart_after_ms = main_start (\<lambda>_. None) (\<lambda>_. None) [''--storage-shards=1''] length True 0 (\<lambda>_. 1000000) (\<lambda>_ _. 1000000)"

lemma expiring_log:
  "\<exists>ctx0 rs ctx1. example_start (empty_os 1 []) = Inr ctx0 \<and> run_commands ctx0 (\<lambda>_ _. 0) expiring_run = (rs, ctx1) \<and>
     log_of ctx1 = encode_command [''SET'', ''a'', ''1'', ''PXAT'', ''9000''] @ encode_command [''INCR'', ''b''] @
       encode_command [''PEXPIREAT'', ''b'', ''7000''] @ encode_command [''PERSIST'', ''a'']"
  by (simp add: expiring_run_def example_defs log_of_def log_path_def file_at_def evals Let_def)

lemma expiring_recoverable: "recoverable_run (Some 1000000) (protocol example_config) (\<lambda>_ _. 0) expiring_run rs"
proof -
  have "\<forall>c\<in>set expiring_run. to_upper_ascii (c ! 0) \<noteq> ''MSET''" by (simp add: expiring_run_def evals)
  then have "\<forall>(c, r)\<in>set (zip expiring_run rs). \<not> mset_refused c r"
    by (auto simp: mset_refused_def dest: set_zip_leftD)
  moreover have "timely (Some 1000000) (\<lambda>_. 0)" by (simp add: timely_def mono_def)
  moreover have "\<forall>i<length expiring_run. lasting (Some 1000000) (\<lambda>_. 0) (expiring_run ! i)"
    by (simp add: expiring_run_def lasting_def far_from_def less_Suc_eq evals)
  moreover have "\<forall>as\<in>set expiring_run. length as \<le> max_array_elements (protocol example_config) \<and>
      (\<forall>a\<in>set as. length a \<le> max_value_size (protocol example_config))" "20 \<le> max_value_size (protocol example_config)"
    by (simp_all add: expiring_run_def example_defs evals)
  ultimately show ?thesis unfolding recoverable_run_def by blast
qed

theorem restart_before_deadlines_witness:
  "\<exists>ctx0 rs ctx1 ctx2. example_start (empty_os 1 []) = Inr ctx0 \<and> run_commands ctx0 (\<lambda>_ _. 0) expiring_run = (rs, ctx1) \<and>
     restart_after_ms (example_crash (log_of ctx1)) = Inr ctx2 \<and>
     shape (view (cx_storage ctx2) 1000000) = shape (view (cx_storage ctx1) 1000000)"
proof -
  let ?s0 = "empty_os 1 []"
  obtain ctx0 rs ctx1 where start: "example_start ?s0 = Inr ctx0" and run: "run_commands ctx0 (\<lambda>_ _. 0) expiring_run = (rs, ctx1)"
    and log: "log_of ctx1 = encode_command [''SET'', ''a'', ''1'', ''PXAT'', ''9000''] @ encode_command [''INCR'', ''b''] @
       encode_command [''PEXPIREAT'', ''b'', ''7000''] @ encode_command [''PERSIST'', ''a'']"
    using expiring_log by blast
  let ?s1 = "example_crash (log_of ctx1)"
  have s0: "os_script ?s0 = []" "fs_ok ?s0" "os_names ?s0 (manifest_of example_config) = None"
    "file_at ?s0 (aof_path (persistence example_config)) = None"
    by (simp_all add: empty_os_def fs_ok_def file_at_def)
  have bound: "length (log_of ctx1) \<le> max_request_bytes (protocol example_config)" "int (length (log_of ctx1)) \<le> i64_max"
    unfolding log by (simp_all add: example_defs evals)
  have s1: "os_script ?s1 = []" "fs_ok ?s1" "os_names ?s1 (manifest_of example_config) = None"
    "file_at ?s1 (aof_path (persistence example_config)) = Some (log_of ctx1)" "prefix (log_of ctx1) (log_of ctx1)"
    by (simp_all add: example_defs store_of_def fs_ok_def file_at_def evals)
  have "\<forall>i. timely (Some 1000000) ((\<lambda>_ _. 1000000) i)" by (simp add: timely_def mono_def)
  from restart_before_deadlines [OF example_config_started s0 start [unfolded example_start_def] run expiring_recoverable bound s1 this]
  obtain n ctx2 where "n = length expiring_run" "restart_after_ms ?s1 = Inr ctx2"
    "\<forall>t \<le> 1000000. shape (view (cx_storage ctx2) t) = shape (view (storage_after ctx0 (\<lambda>_ _. 0) (take n expiring_run)) t)"
    unfolding restart_after_ms_def by blast
  then have "restart_after_ms ?s1 = Inr ctx2 \<and> shape (view (cx_storage ctx2) 1000000) = shape (view (cx_storage ctx1) 1000000)"
    using run by (simp add: storage_after_def)
  with start run show ?thesis by blast
qed


section \<open>Restart after a snapshot\<close>

text \<open>Paths that a manifest can hold, and files that do not get in each other's way.\<close>

definition persisted_paths :: "Config \<Rightarrow> bool" where
  "persisted_paths config \<longleftrightarrow>
     path_is_safe (ss_path (store_of config)) \<and> path_is_safe (manifest_of config) \<and>
     paths_apart (store_of config) (log_file config) \<and>
     line_value (normalize_path_string (ss_path (store_of config))) \<and>
     line_value (normalize_path_string (log_file config))"

text \<open>What \<open>SAVE\<close> leaves.\<close>

definition saved_manifest :: "Config \<Rightarrow> nat \<Rightarrow> int \<Rightarrow> Manifest" where
  "saved_manifest config offset created =
     \<lparr>mf_snapshot_path = ss_path (store_of config), mf_aof_path = log_file config, mf_aof_offset = offset,
      mf_created_unix_ms = created\<rparr>"

lemma save_logging:
  assumes ctx: "logging ctx" "log_path ctx = log_file config" "cx_snapshot ctx = Some (store_of config)"
    and paths: "persisted_paths config"
    and save: "execute registry ctx clk [''SAVE''] = (r, ctx')"
  shows "r = ok" and "logging ctx'" and "log_path ctx' = log_file config" and "log_of ctx' = log_of ctx"
    and "cx_storage ctx' = snd (storage_snapshot (cx_storage ctx) (clk 0))"
    and "file_at (cx_os ctx') (ss_path (store_of config)) = Some (restored_log (fst (storage_snapshot (cx_storage ctx) (clk 0))))"
    and "file_at (cx_os ctx') (manifest_of config) =
      Some (manifest_text (saved_manifest config (length (log_of ctx)) (unix_ms (clk 1))))"
proof -
  obtain aof where aof: "cx_aof ctx = Some aof" "enabled aof" "aof_wf aof (cx_os ctx)"
    "ao_current_size aof = length (the (file_at (cx_os ctx) (aof_path (ao_config aof))))"
    and q: "os_script (cx_os ctx) = []" "\<not> cx_replay ctx"
    using ctx(1) by (auto simp: logging_def)
  have log: "aof_path (ao_config aof) = log_file config" using ctx(2) aof(1) by (simp add: log_path_def)
  have off: "ao_current_size aof = length (log_of ctx)" using aof log by (simp add: log_of_def log_path_def)
  obtain s' where sv: "snapshot_save (store_of config) (cx_storage ctx) (Some aof) clk (cx_os ctx) =
      (status_ok, snd (storage_snapshot (cx_storage ctx) (clk 0)), s')"
    and s': "os_script s' = []" "fs_ok s'" "file_at s' (log_file config) = file_at (cx_os ctx) (log_file config)"
      "os_names s' (log_file config) = os_names (cx_os ctx) (log_file config)"
      "file_at s' (ss_path (store_of config)) = Some (restored_log (fst (storage_snapshot (cx_storage ctx) (clk 0))))"
      "file_at s' (manifest_of config) = Some (manifest_text (saved_manifest config (length (log_of ctx)) (unix_ms (clk 1))))"
    using snapshot_save_files [OF q(1) aof(3,2), of "store_of config" "cx_storage ctx" clk] paths log off
    by (auto simp: persisted_paths_def saved_manifest_def)
  have "execute registry ctx clk [''SAVE''] = save_cmd ctx clk [''SAVE'']"
    by (simp add: execute_def registry_eq default_commands_def to_upper_ascii_def evals)
  with save sv aof(1) ctx(3) have eq: "r = ok" "ctx' = ctx\<lparr>cx_storage := snd (storage_snapshot (cx_storage ctx) (clk 0)), cx_os := s'\<rparr>"
    by (auto simp: save_cmd_def)
  show "r = ok" "log_path ctx' = log_file config" "log_of ctx' = log_of ctx"
    "cx_storage ctx' = snd (storage_snapshot (cx_storage ctx) (clk 0))"
    "file_at (cx_os ctx') (ss_path (store_of config)) = Some (restored_log (fst (storage_snapshot (cx_storage ctx) (clk 0))))"
    "file_at (cx_os ctx') (manifest_of config) =
      Some (manifest_text (saved_manifest config (length (log_of ctx)) (unix_ms (clk 1))))"
    using eq s' ctx(2) by (simp_all add: log_path_def log_of_def)
  show "logging ctx'" using eq s' aof q log by (simp add: logging_def aof_wf_def)
qed

text \<open>The manifest of a \<open>SAVE\<close> is accepted with any longer log.\<close>

lemma saved_manifest_matches:
  assumes paths: "persisted_paths config" and s: "os_script s = []"
    and m: "file_at s (manifest_of config) = Some (manifest_text (saved_manifest config offset created))"
    and snap: "file_at s (ss_path (store_of config)) = Some content"
    and bounds: "offset \<le> u64_max" "in_i64 created" "offset \<le> aof_size"
  shows "\<exists>mf. read_manifest (store_of config) s = (Some mf, s) \<and> mf_aof_offset mf = offset \<and>
    manifest_matches (store_of config) mf (log_file config) aof_size s"
proof -
  define mf where "mf = (saved_manifest config offset created)
    \<lparr>mf_snapshot_path := normalize_path_string (ss_path (store_of config)),
     mf_aof_path := normalize_path_string (log_file config)\<rparr>"
  have "manifest_from_values (parse_manifest_lines (manifest_text (saved_manifest config offset created))) = Some mf"
    using manifest_round_trip [of "saved_manifest config offset created"] paths bounds(1,2)
    by (simp add: persisted_paths_def saved_manifest_def mf_def)
  with s m paths have "read_manifest (store_of config) s = (Some mf, s)"
    by (auto simp: read_manifest_def sys_exists_def sys_read_file_def file_at_def persisted_paths_def)
  moreover have "manifest_matches (store_of config) mf (log_file config) aof_size s" "mf_aof_offset mf = offset"
    using snap bounds(3) by (auto simp: manifest_matches_def mf_def saved_manifest_def sys_exists_def file_at_def)
  ultimately show ?thesis by blast
qed

text \<open>An engine without expiries is loaded as it was saved.\<close>

lemma load_alike:
  assumes se: "storage_inv se" "plain None se" "se_alloc_ok se" "same_params (fresh_engine h alloc config) se"
    and s: "os_script s = []" "path_is_safe (ss_path (store_of config))"
      "file_at s (ss_path (store_of config)) = Some (restored_log (fst (storage_snapshot se now)))"
      "log_fits (protocol config) (concat (map restore_commands (fst (storage_snapshot se now))))"
    and clk: "\<forall>j. in_i64 (clk j)"
  shows "\<exists>se1. snapshot_load (store_of config) (fresh_engine h alloc config) clk s = (status_ok, se1, s) \<and> alike None se se1"
proof -
  let ?fresh = "fresh_engine h alloc config"
  obtain es se' where sn: "storage_snapshot se now = (es, se')" by (cases "storage_snapshot se now")
  have view: "view se now = contents (lookup se)" using plain_view [OF se(2)] by simp
  have none: "x = None" if "contents (lookup se) k = Some (v, x)" for k v x
    using se(2) that by (auto simp: plain_contents)
  have ms: "ms_expiry (contents (lookup se)) = contents (lookup se)"
    using none by (force simp: ms_expiry_def fun_eq_iff map_option_case split: option.split)
  have i64: "expiries_i64 (view se now)" using none by (fastforce simp: view expiries_i64_def)
  have lim: "ss_protocol (store_of config) = protocol config" by (simp add: store_of_def mk_snapshot_store_def)
  have bound: "\<forall>j. clk j \<le> i64_max" using clk by (simp add: in_i64_def)
  have empty: "restores i64_max ?fresh Map.empty" by (simp add: fresh_engine_def restores_fresh)
  have params: "same_params se ?fresh" using se(4) by (simp add: same_params_def)
  have files: "file_at s (ss_path (store_of config)) = Some (restored_log es)"
    "log_fits (ss_protocol (store_of config)) (concat (map restore_commands es))"
    using s(3,4) sn lim by simp_all
  obtain se1 where load: "snapshot_load (store_of config) ?fresh clk s = (status_ok, se1, s)" "same_params se se1"
    and res: "restores i64_max se1 (contents (lookup se))"
    using snapshot_load_restores [OF s(2,1) files se(1,3) i64 sn empty params bound]
      ms view by auto
  have "contents (lookup se1) = contents (lookup se)"
    using res none unfolding restores_def by (intro ext) (metis option.distinct(1))
  with load res se show ?thesis by (auto simp: alike_def restores_def plain_contents)
qed

lemma run_plain:
  assumes "logging ctx" "storage_inv (cx_storage ctx)" "plain None (cx_storage ctx)"
    and "run_commands ctx clocks cs = (rs, ctx')" "recoverable_run None limits clocks cs rs"
  shows "logging ctx'" and "log_path ctx' = log_path ctx" and "prefix (log_of ctx) (log_of ctx')" and "plain None (cx_storage ctx')"
    and "p \<noteq> log_path ctx \<Longrightarrow> file_at (cx_os ctx') p = file_at (cx_os ctx) p"
proof -
  obtain log where w: "wrote_log ctx ctx' log"
    and r: "\<forall>k \<le> length log. \<exists>n \<le> length cs. (k = length log \<longrightarrow> n = length cs) \<and>
       replays_to None (take k log) (cx_storage ctx) (storage_after ctx clocks (take n cs))"
    using recoverable_log [OF assms] by blast
  show "logging ctx'" "log_path ctx' = log_path ctx" "prefix (log_of ctx) (log_of ctx')"
    "p \<noteq> log_path ctx \<Longrightarrow> file_at (cx_os ctx') p = file_at (cx_os ctx) p"
    using w by (simp_all add: wrote_log_def)
  from r [rule_format, of "length log"] assms(4) have rep: "replays_to None log (cx_storage ctx) (cx_storage ctx')"
    by (auto simp: storage_after_def)
  obtain rctx :: CommandContext where rctx: "cx_replay rctx" "cx_storage rctx = cx_storage ctx"
    using that [of "ctx\<lparr>cx_replay := True\<rparr>"] by simp
  have like: "alike None (cx_storage ctx) (cx_storage rctx)" using alike_refl [OF assms(2,3)] rctx(2) by simp
  obtain rctx' :: CommandContext where "alike None (cx_storage ctx') (cx_storage rctx')"
    using rep rctx(1) like unfolding replays_to_def by fastforce
  then show "plain None (cx_storage ctx')" by (rule alikeD(4))
qed

text \<open>What the files hold after commands, a \<open>SAVE\<close> and more commands, and what it is loaded to.\<close>

lemma saved_files:
  assumes paths: "persisted_paths config"
    and ctx1: "logging ctx1" "log_path ctx1 = log_file config" "cx_snapshot ctx1 = Some (store_of config)"
      "storage_inv (cx_storage ctx1)" "plain None (cx_storage ctx1)"
    and save: "execute registry ctx1 clk [''SAVE''] = (r, ctx2)"
    and run: "run_commands ctx2 clocks cs = (rs, ctx3)" "recoverable_run None limits clocks cs rs"
  shows "logging ctx2" and "storage_inv (cx_storage ctx2)" and "plain None (cx_storage ctx2)"
    and "same_params (cx_storage ctx1) (cx_storage ctx2)" and "lookup (cx_storage ctx2) = lookup (cx_storage ctx1)"
    and "file_at (cx_os ctx3) (manifest_of config) =
      Some (manifest_text (saved_manifest config (length (log_of ctx2)) (unix_ms (clk 1))))"
    and "file_at (cx_os ctx3) (ss_path (store_of config)) = Some (restored_log (fst (storage_snapshot (cx_storage ctx1) (clk 0))))"
proof -
  note sv = save_logging [OF ctx1(1-3) paths save]
  obtain es se2 where sn: "storage_snapshot (cx_storage ctx1) (clk 0) = (es, se2)"
    by (cases "storage_snapshot (cx_storage ctx1) (clk 0)")
  have se2: "cx_storage ctx2 = se2" using sv(5) sn by simp
  note spec = storage_snapshot_spec [OF ctx1(4) sn]
  show log2: "logging ctx2" by (rule sv(2))
  show inv2: "storage_inv (cx_storage ctx2)" "same_params (cx_storage ctx1) (cx_storage ctx2)"
    using spec(1) se2 by (simp_all add: keeps_def)
  show lookup2: "lookup (cx_storage ctx2) = lookup (cx_storage ctx1)"
    using spec(2) plain_evict_all [OF ctx1(5)] se2 by simp
  then show plain2: "plain None (cx_storage ctx2)" using ctx1(5) by (simp add: plain_def)
  have others: "file_at (cx_os ctx3) p = file_at (cx_os ctx2) p" if "p \<noteq> log_file config" for p
    using run_plain(5) [OF log2 inv2(1) plain2 run] sv(3) that by simp
  have apart: "manifest_of config \<noteq> log_file config" "ss_path (store_of config) \<noteq> log_file config"
    using paths by (auto simp: persisted_paths_def paths_apart_def Let_def)
  show "file_at (cx_os ctx3) (manifest_of config) =
      Some (manifest_text (saved_manifest config (length (log_of ctx2)) (unix_ms (clk 1))))"
    "file_at (cx_os ctx3) (ss_path (store_of config)) = Some (restored_log (fst (storage_snapshot (cx_storage ctx1) (clk 0))))"
    using others [OF apart(1)] others [OF apart(2)] sv(4,6,7) by simp_all
qed

text \<open>
  C3. The server started on a fresh log executes commands that set no expiry, is told to \<open>SAVE\<close>,
  executes more such commands and crashes, leaving the part of the log that \<open>SAVE\<close> synced and any
  prefix of the rest.  The snapshot and the manifest are found as \<open>SAVE\<close> wrote them; as it does not sync
  them, this is a condition on the crash (\<open>saved_snapshot_not_synced\<close>).  The snapshot and the log after
  it are within \<open>max_request_bytes\<close>, and no call fails.  Then \<open>main\<close> accepts the manifest, loads the snapshot, replays only the rest
  of the log, and the storage is the one after a prefix of the later commands; after all of them
  when the log is complete.\<close>

theorem restart_after_save:
  assumes conf: "started_config getenv read_text argv config" "persisted_paths config"
    and s0: "os_script s0 = []" "fs_ok s0" "os_names s0 (manifest_of config) = None"
      "file_at s0 (log_file config) = None"
    and start: "main_start getenv read_text argv hash_fn True steady0 clk0 clks0 s0 = Inr ctx0"
    and run0: "run_commands ctx0 clocks0 cs0 = (rs0, ctx1)" "recoverable_run None (protocol config) clocks0 cs0 rs0"
    and save: "execute registry ctx1 clk [''SAVE''] = (r, ctx2)" "in_i64 (clk 1)"
      "log_fits (protocol config) (concat (map restore_commands (fst (storage_snapshot (cx_storage ctx1) (clk 0)))))"
    and run: "run_commands ctx2 clocks cs = (rs, ctx3)" "recoverable_run None (protocol config) clocks cs rs"
    and bound: "length (log_of ctx3) - length (log_of ctx2) \<le> max_request_bytes (protocol config)"
      "int (length (log_of ctx3)) \<le> i64_max"
    and s1: "os_script s1 = []" "fs_ok s1"
      "file_at s1 (manifest_of config) = file_at (cx_os ctx3) (manifest_of config)"
      "file_at s1 (ss_path (store_of config)) = file_at (cx_os ctx3) (ss_path (store_of config))"
      "file_at s1 (log_file config) = Some (log_of ctx2 @ survived)" "prefix (log_of ctx2 @ survived) (log_of ctx3)"
    and clk1: "\<forall>j. in_i64 (clk1 j)"
  shows "\<exists>n ctx4. n \<le> length cs \<and> (log_of ctx2 @ survived = log_of ctx3 \<longrightarrow> n = length cs) \<and>
    main_start getenv read_text argv hash_fn True steady1 clk1 clks1 s1 = Inr ctx4 \<and>
    view (cx_storage ctx4) = view (storage_after ctx2 clocks (take n cs))"
proof -
  let ?fresh = "fresh_engine hash_fn True config"
  have ctx0: "cx_storage ctx0 = ?fresh" "logging ctx0" "log_path ctx0 = log_file config" "cx_snapshot ctx0 = Some (store_of config)"
    using main_start_fresh [OF conf(1) s0, of hash_fn True steady0 clk0 clks0] start by auto
  have inv0: "storage_inv (cx_storage ctx0)" "plain None (cx_storage ctx0)"
    using alikeD(1,4) [OF fresh_plain] ctx0(1) by simp_all
  note r0 = run_plain [OF ctx0(2) inv0 run0]
  have h1: "storage_inv (cx_storage ctx1)" "same_params ?fresh (cx_storage ctx1)" "cx_snapshot ctx1 = Some (store_of config)"
    using run_commands_handled [OF inv0(1) run0(1)] ctx0 by (simp_all add: handled_def keeps_def same_server_def)
  have path1: "log_path ctx1 = log_file config" using r0(2) ctx0(3) by simp
  note files = saved_files [OF conf(2) r0(1) path1 h1(3,1) r0(4) save(1) run]
  note m1 = files(6) [folded s1(3)] and p1 = files(7) [folded s1(4)]
  have off: "length (log_of ctx2) \<le> u64_max"
    using bound(2) s1(6) prefix_length_le [OF s1(6)] by (simp add: u64_max_def i64_max_def)
  obtain mf where mf: "read_manifest (store_of config) s1 = (Some mf, s1)" "mf_aof_offset mf = length (log_of ctx2)"
    "manifest_matches (store_of config) mf (log_file config) (length (log_of ctx2 @ survived)) s1"
    using saved_manifest_matches [OF conf(2) s1(1) m1 p1 off unix_ms_i64 [OF save(2)], of "length (log_of ctx2 @ survived)"] by auto
  have safe: "path_is_safe (log_file config)" "path_is_safe (ss_path (store_of config))"
    using conf by (simp_all add: started_config_def persisted_paths_def)
  have alloc: "se_alloc_ok (cx_storage ctx1)"
    using h1(2) by (simp add: same_params_def fresh_engine_def mk_storage_def Let_def)
  obtain se1 where load: "snapshot_load (store_of config) ?fresh clk1 s1 = (status_ok, se1, s1)" "alike None (cx_storage ctx1) se1"
    using load_alike [OF h1(1) r0(4) alloc h1(2) s1(1) safe(2) p1 save(3) clk1] by blast
  have like: "alike None (cx_storage ctx2) se1" using load(2) files(2-5) by (auto simp: alike_def same_params_def)
  obtain n where n: "n \<le> length cs" "log_of ctx2 @ survived = log_of ctx3 \<longrightarrow> n = length cs"
    and replay: "\<forall>rctx. cx_replay rctx \<longrightarrow> alike None (cx_storage ctx2) (cx_storage rctx) \<longrightarrow>
      (\<exists>stats rctx' i. replay_file (log_file config) (protocol config) (replay_callback registry clks1) (length (log_of ctx2)) (rctx, 0) s1 =
         (stats, (rctx', i), s1) \<and> ok_status (rs_status stats) \<and>
         alike None (storage_after ctx2 clocks (take n cs)) (cx_storage rctx'))"
    using replay_since [OF files(1-3) run bound safe(1) s1(1,5,6), of clks1] by auto
  have "\<exists>se1 m1. recover_aof config registry (store_of config) clk1 clks1 metrics logger steady1 ?fresh s1 =
      (Inr (se1, m1), s1) \<and> view se1 = view (storage_after ctx2 clocks (take n cs))" for metrics logger
    using recover_with_manifest [OF s1(1) mf(1) s1(5) mf(3) load(1)] mf(2) like alike_view
      replay [rule_format, of "replay_context config se1 metrics (store_of config) logger steady1 s1"]
    by (fastforce simp: replay_context_def finish_replay_def)
  from main_start_recovered [OF conf(1) s1(1,2) this] n show ?thesis by blast
qed

text \<open>A command, a \<open>SAVE\<close>, another command, and a crash that leaves all of the log.\<close>

lemma example_paths: "persisted_paths example_config"
  by (simp add: persisted_paths_def paths_apart_def store_of_def line_value_def example_defs evals Let_def)

lemma example_save:
  "\<exists>ctx0 rs0 ctx1 r ctx2 rs ctx3. example_start (empty_os 1 []) = Inr ctx0 \<and>
     run_commands ctx0 (\<lambda>_ _. 0) [[''SET'', ''a'', ''1'']] = (rs0, ctx1) \<and>
     execute registry ctx1 (\<lambda>_. 0) [''SAVE''] = (r, ctx2) \<and>
     run_commands ctx2 (\<lambda>_ _. 0) [[''INCR'', ''a'']] = (rs, ctx3) \<and>
     fst (storage_snapshot (cx_storage ctx1) 0) = [\<lparr>sn_key = ''a'', sn_value = ''1'', sn_expire_at_unix_ms = None\<rparr>] \<and>
     log_of ctx2 = encode_command [''SET'', ''a'', ''1''] \<and>
     log_of ctx3 = encode_command [''SET'', ''a'', ''1''] @ encode_command [''INCR'', ''a''] \<and>
     os_script (cx_os ctx3) = [] \<and> fs_ok (cx_os ctx3) \<and> file_at (cx_os ctx3) (log_file example_config) = Some (log_of ctx3)"
  by (simp add: example_defs log_of_def log_path_def file_at_def fs_ok_def evals Let_def)

theorem restart_after_save_witness:
  "\<exists>ctx2 ctx3 ctx4. example_start (cx_os ctx3) = Inr ctx4 \<and>
     log_of ctx3 = encode_command [''SET'', ''a'', ''1''] @ encode_command [''INCR'', ''a''] \<and>
     view (cx_storage ctx4) = view (storage_after ctx2 (\<lambda>_ _. 0) [[''INCR'', ''a'']])"
proof -
  let ?s0 = "empty_os 1 []"
  obtain ctx0 rs0 ctx1 r ctx2 rs ctx3 where start: "example_start ?s0 = Inr ctx0"
    and run0: "run_commands ctx0 (\<lambda>_ _. 0) [[''SET'', ''a'', ''1'']] = (rs0, ctx1)"
    and save: "execute registry ctx1 (\<lambda>_. 0) [''SAVE''] = (r, ctx2)"
    and run: "run_commands ctx2 (\<lambda>_ _. 0) [[''INCR'', ''a'']] = (rs, ctx3)"
    and es: "fst (storage_snapshot (cx_storage ctx1) 0) = [\<lparr>sn_key = ''a'', sn_value = ''1'', sn_expire_at_unix_ms = None\<rparr>]"
    and log: "log_of ctx2 = encode_command [''SET'', ''a'', ''1'']"
      "log_of ctx3 = encode_command [''SET'', ''a'', ''1''] @ encode_command [''INCR'', ''a'']"
    and s1: "os_script (cx_os ctx3) = []" "fs_ok (cx_os ctx3)"
      "file_at (cx_os ctx3) (log_file example_config) = Some (log_of ctx3)"
    using example_save by blast
  have s0: "os_script ?s0 = []" "fs_ok ?s0" "os_names ?s0 (manifest_of example_config) = None"
    "file_at ?s0 (log_file example_config) = None"
    by (simp_all add: empty_os_def fs_ok_def file_at_def)
  have rr0: "recoverable_run None (protocol example_config) (\<lambda>_ _. 0) [[''SET'', ''a'', ''1'']] rs0"
    and rr: "recoverable_run None (protocol example_config) (\<lambda>_ _. 0) [[''INCR'', ''a'']] rs"
    by (cases rs0; cases rs; simp add: recoverable_run_def mset_refused_def lasting_def example_defs evals)+
  have fits: "log_fits (protocol example_config) (concat (map restore_commands (fst (storage_snapshot (cx_storage ctx1) 0))))"
    unfolding es by (simp add: log_fits_def command_fits_def parser_options_from_config_def example_defs evals)
  have bound: "length (log_of ctx3) - length (log_of ctx2) \<le> max_request_bytes (protocol example_config)"
    "int (length (log_of ctx3)) \<le> i64_max"
    unfolding log by (simp_all add: example_defs evals)
  have i64: "in_i64 0" "\<forall>j. in_i64 0" by (simp_all add: in_i64_def i64_min_def i64_max_def)
  have pre: "file_at (cx_os ctx3) (log_file example_config) = Some (log_of ctx2 @ encode_command [''INCR'', ''a''])"
    "prefix (log_of ctx2 @ encode_command [''INCR'', ''a'']) (log_of ctx3)"
    using s1(3) log by simp_all
  have "\<exists>n ctx4. n \<le> length [[''INCR'', ''a'']] \<and> (log_of ctx2 @ encode_command [''INCR'', ''a''] = log_of ctx3 \<longrightarrow> n = length [[''INCR'', ''a'']]) \<and>
      example_start (cx_os ctx3) = Inr ctx4 \<and>
      view (cx_storage ctx4) = view (storage_after ctx2 (\<lambda>_ _. 0) (take n [[''INCR'', ''a'']]))"
    unfolding example_start_def
    by (rule restart_after_save [OF example_config_started example_paths s0 start [unfolded example_start_def] run0 rr0 save
        i64(1) fits run rr bound s1(1,2) refl refl pre i64(2)])
  with log show ?thesis by auto
qed

end
