(* ===== verification/Recovery_Findings.thy ===== *)
theory Recovery_Findings
  imports Recovery_Props
begin

text \<open>
  A \<open>SAVE\<close> that installs its snapshot and then fails to write its manifest leaves the new snapshot
  with the manifest of the \<open>SAVE\<close> before.  The next start accepts the pair and replays commands that
  the snapshot already contains.
\<close>

definition with_script :: "outcome list \<Rightarrow> CommandContext \<Rightarrow> CommandContext" where
  "with_script outs ctx = ctx\<lparr>cx_os := (cx_os ctx)\<lparr>os_script := outs\<rparr>\<rparr>"

lemma two_eval: "Suc (Suc 0) = 2"
  by simp

definition torn_files :: "os \<Rightarrow> bool" where
  "torn_files s \<longleftrightarrow> os_script s = [] \<and> fs_ok s \<and>
     file_at s (log_file example_config) = Some (encode_command [''SET'', ''a'', ''1''] @ encode_command [''INCR'', ''a'']) \<and>
     file_at s (manifest_of example_config) =
       Some (manifest_text (saved_manifest example_config (length (encode_command [''SET'', ''a'', ''1''])) 0)) \<and>
     file_at s (ss_path (store_of example_config)) = Some (encode_command [''SET'', ''a'', ''2''])"

lemma torn_save:
  "\<exists>ctx0 rs ctx1 r ctx2. example_start (empty_os 1 []) = Inr ctx0 \<and>
     run_commands ctx0 (\<lambda>_ _. 0) [[''SET'', ''a'', ''1''], [''SAVE''], [''INCR'', ''a'']] = (rs, ctx1) \<and>
     execute registry (with_script [Done, Done, Done, Done, Done, Done, Done, Failed ''No space left on device''] ctx1)
       (\<lambda>_. 0) [''SAVE''] = (r, ctx2) \<and>
     is_error r \<and> view (cx_storage ctx2) 0 ''a'' = Some (''2'', None) \<and> torn_files (cx_os ctx2)"
  by (simp add: example_defs with_script_def is_error_def view_def visible_def lookup_def torn_files_def file_at_def fs_ok_def
      saved_manifest_def store_of_def manifest_text_def evals Let_def two_eval)

lemma torn_fits: "log_fits (protocol example_config) [[''SET'', ''a'', ''2'']]" "log_fits (protocol example_config) [[''INCR'', ''a'']]"
  by (simp_all add: log_fits_def command_fits_def parser_options_from_config_def example_defs evals)

definition torn_engine :: StorageEngine where
  "torn_engine = fst (snd (load_step (\<lambda>_. 0) (fresh_engine length True example_config, 0) [''SET'', ''a'', ''2'']))"

lemma torn_load:
  assumes "torn_files s"
  shows "snapshot_load (store_of example_config) (fresh_engine length True example_config) (\<lambda>_. 0) s = (status_ok, torn_engine, s)"
proof -
  let ?x = "(fresh_engine length True example_config, 0)"
  have ok: "fst (load_step (\<lambda>_. 0) ?x [''SET'', ''a'', ''2'']) = status_ok"
    by (simp add: load_step_def fresh_engine_def example_defs evals two_eval)
  then have "apply_all (load_step (\<lambda>_. 0)) [[''SET'', ''a'', ''2'']] 0 ?x =
      (None, 1, snd (load_step (\<lambda>_. 0) ?x [''SET'', ''a'', ''2'']))"
    by (simp add: case_prod_beta)
  moreover have lim: "ss_protocol (store_of example_config) = protocol example_config"
    by (simp add: store_of_def mk_snapshot_store_def)
  ultimately show ?thesis
    using snapshot_load_whole [of "store_of example_config" s "[[''SET'', ''a'', ''2'']]"
        "fresh_engine length True example_config" "\<lambda>_. 0" 0] torn_fits(1) assms example_paths
    by (simp add: torn_files_def torn_engine_def load_result_def persisted_paths_def case_prod_beta)
qed

lemma torn_replay:
  "\<exists>ctx. apply_all (replay_callback registry (\<lambda>_ _. 0)) [[''INCR'', ''a'']] 0
       (replay_context example_config torn_engine metrics store logger steady s, 0) = (None, 1, ctx, 1) \<and>
     view (cx_storage ctx) 0 ''a'' = Some (''3'', None)"
  by (simp add: torn_engine_def load_step_def fresh_engine_def example_defs replay_callback_def view_def visible_def lookup_def
      evals two_eval)

lemma torn_restart:
  assumes "torn_files s"
  shows "\<exists>ctx. example_start s = Inr ctx \<and> view (cx_storage ctx) 0 ''a'' = Some (''3'', None)"
proof -
  let ?path = "log_file example_config"
  have s: "os_script s = []" "fs_ok s" and log: "file_at s ?path = Some (encode_command [''SET'', ''a'', ''1''] @ encode_command [''INCR'', ''a''])"
    using assms by (simp_all add: torn_files_def)
  let ?n = "length (encode_command [''SET'', ''a'', ''1''])"
  have m: "file_at s (manifest_of example_config) = Some (manifest_text (saved_manifest example_config ?n 0))"
    and p: "file_at s (ss_path (store_of example_config)) = Some (encode_command [''SET'', ''a'', ''2''])"
    using assms by (simp_all add: torn_files_def)
  have b: "?n \<le> u64_max" "in_i64 0" "?n \<le> length (encode_command [''SET'', ''a'', ''1''] @ encode_command [''INCR'', ''a''])"
    by (simp_all add: evals in_i64_def two_eval)
  obtain mf where mf: "read_manifest (store_of example_config) s = (Some mf, s)" "mf_aof_offset mf = ?n"
    "manifest_matches (store_of example_config) mf ?path (length (encode_command [''SET'', ''a'', ''1''] @ encode_command [''INCR'', ''a''])) s"
    using saved_manifest_matches [OF example_paths s(1) m p b] by blast
  have safe: "path_is_safe ?path" using example_config_started by (simp add: started_config_def)
  have all: "concat (map encode_command [[''INCR'', ''a'']]) = encode_command [''INCR'', ''a''] @ []" by simp
  obtain k tail where k: "k = 1" "tail = []"
    and replay: "\<forall>callback (x :: CommandContext \<times> nat). replay_file ?path (protocol example_config) callback ?n x s =
       (case replay_result None tail no_stats (apply_all callback (take k [[''INCR'', ''a'']]) 0 x) of (stats, x') \<Rightarrow> (stats, x', s))"
    using replay_file_prefix [OF safe log s(1) torn_fits(2) all, where 's = "CommandContext \<times> nat"] by fastforce
  have "\<exists>se1 m1. recover_aof example_config registry (store_of example_config) (\<lambda>_. 0) (\<lambda>_ _. 0) metrics logger 0
      (fresh_engine length True example_config) s = (Inr (se1, m1), s) \<and> view se1 0 ''a'' = Some (''3'', None)" for metrics logger
    using torn_replay [of metrics "store_of example_config" logger 0 s]
      recover_with_manifest [OF s(1) mf(1) log mf(3) torn_load [OF assms], of registry "\<lambda>_ _. 0" metrics logger 0] mf(2) replay k
    by (auto simp: finish_replay_def replay_result_def no_stats_def)
  from main_start_recovered [OF example_config_started s, where P = "\<lambda>se. view se 0 ''a'' = Some (''3'', None)", OF this]
  show ?thesis unfolding example_start_def by blast
qed

text \<open>
  C22. A crash-safety gap: after \<open>SET a 1\<close>, \<open>SAVE\<close> and \<open>INCR a\<close>, a second \<open>SAVE\<close> that cannot write its
  manifest reports an error; \<open>a\<close> is 2.  A restart on the files it leaves gives \<open>a\<close> the value 3: the
  old manifest is accepted with the new snapshot, and the increment is applied twice.\<close>

theorem failed_save_replays_twice:
  "\<exists>ctx0 rs ctx1 r ctx2 ctx3. example_start (empty_os 1 []) = Inr ctx0 \<and>
     run_commands ctx0 (\<lambda>_ _. 0) [[''SET'', ''a'', ''1''], [''SAVE''], [''INCR'', ''a'']] = (rs, ctx1) \<and>
     execute registry (with_script [Done, Done, Done, Done, Done, Done, Done, Failed ''No space left on device''] ctx1)
       (\<lambda>_. 0) [''SAVE''] = (r, ctx2) \<and>
     is_error r \<and> example_start (cx_os ctx2) = Inr ctx3 \<and>
     view (cx_storage ctx2) 0 ''a'' = Some (''2'', None) \<and> view (cx_storage ctx3) 0 ''a'' = Some (''3'', None)"
  using torn_save torn_restart by blast

end
