(* ===== verification/Persist_Findings.thy ===== *)
theory Persist_Findings
  imports Recovery_Props Persist_Props
begin

text \<open>
  A log that ends within a command.  \<open>Aof::replay_file\<close> ignores such an end and \<open>main\<close> opens the log for
  appending without cutting it off, so that the next commands are written behind the fragment.  And a
  snapshot that is not synced.
\<close>


section \<open>Starting on a log that is the beginning of one command\<close>

lemma start_on_fragment:
  assumes conf: "started_config getenv read_text argv config"
    and s: "os_script s = []" "fs_ok s" "os_names s (manifest_of config) = None"
      "file_at s (log_file config) = Some bs"
    and c: "log_fits (protocol config) [c]" "strict_prefix bs (encode_command c)"
  shows "\<exists>ctx. main_start getenv read_text argv hash_fn alloc steady clk clocks s = Inr ctx \<and>
    cx_storage ctx = fresh_engine hash_fn alloc config \<and> logging ctx \<and> log_path ctx = log_file config \<and> log_of ctx = bs"
proof -
  let ?fresh = "fresh_engine hash_fn alloc config"
  have safe: "path_is_safe (log_file config)" using conf by (simp add: started_config_def)
  obtain lost where lost: "encode_command c = bs @ lost" using c(2) by (auto simp: strict_prefix_def prefix_def)
  have here: "file_at s (log_file config) = Some ([] @ bs)" and log: "concat (map encode_command [c]) = bs @ lost"
    using s(4) lost by simp_all
  obtain k tail where k: "k \<le> length [c]" "bs = concat (map encode_command (take k [c])) @ tail"
    and replay: "\<forall>callback (x :: CommandContext \<times> nat). replay_file (log_file config) (protocol config) callback (length ([] :: string)) x s =
      (case replay_result None tail no_stats (apply_all callback (take k [c]) 0 x) of (stats, x') \<Rightarrow> (stats, x', s))"
    using replay_file_prefix [OF safe here s(1) c(1) log] by blast
  have "length bs < length (encode_command c)" using c(2) by (rule prefix_length_less)
  then have "k = 0" using k by (cases k) auto
  with replay have "\<exists>se1 m1. recover_aof config registry (store_of config) clk clocks metrics logger steady ?fresh s =
      (Inr (se1, m1), s) \<and> se1 = ?fresh" for metrics logger
    using recover_no_manifest [OF s(1,3)]
    by (simp add: replay_context_def finish_replay_def replay_result_def no_stats_def)
  from main_start_recovered [OF conf s(1,2) this] s(4) show ?thesis by auto
qed


section \<open>Commands behind a fragment\<close>

text \<open>The record of a \<open>SET\<close> up to its value.\<close>

definition set_header :: "string \<Rightarrow> nat \<Rightarrow> string" where
  "set_header k n = array_header 3 @ bulk_string_fragment ''SET'' @ bulk_string_fragment k @ ''$'' @ nat_to_string n @ crlf"

lemma encode_set: "encode_command [''SET'', k, v] = set_header k (length v) @ v @ crlf"
  by (simp add: encode_command_def set_header_def bulk_string_fragment_def numeral_3_eq_3)

lemma fragment_swallows:
  assumes "j + length new \<le> length v" and "log_fits limits [[''SET'', k, v]]"
  shows "\<exists>v'. log_fits limits [[''SET'', k, v']] \<and>
    strict_prefix (set_header k (length v) @ take j v @ new) (encode_command [''SET'', k, v'])"
proof -
  let ?v = "take j v @ new @ drop (j + length new) v"
  have len: "length ?v = length v" using assms(1) by simp
  then have "log_fits limits [[''SET'', k, ?v]]" using assms(2) by (simp add: log_fits_def command_fits_def encode_set)
  moreover have "strict_prefix (set_header k (length v) @ take j v @ new) (encode_command [''SET'', k, ?v])"
    unfolding encode_set len by (auto simp: strict_prefix_def crlf_def)
  ultimately show ?thesis by blast
qed

text \<open>
  C19. Commands that are acknowledged after a restart on a log with a torn end can be lost.  The log
  ends within the value of a \<open>SET\<close>; the server starts on it, executes commands and stops with a complete
  log.  As long as the log has not grown by more than the missing part of the value, the next start
  takes their records for that value, as another torn end: it succeeds, and the storage is empty.\<close>

theorem writes_behind_torn_end_lost:
  assumes conf: "started_config getenv read_text argv config"
    and s0: "os_script s0 = []" "fs_ok s0" "os_names s0 (manifest_of config) = None"
      "file_at s0 (log_file config) = Some torn"
    and torn: "torn = set_header k (length v) @ take j v" "log_fits (protocol config) [[''SET'', k, v]]"
    and start: "main_start getenv read_text argv hash_fn alloc steady0 clk0 clks0 s0 = Inr ctx0"
    and run: "run_commands ctx0 clocks cs = (rs, ctx1)" "recoverable_run None (protocol config) clocks cs rs"
    and room: "j + length (log_of ctx1) \<le> length torn + length v"
    and s1: "os_script s1 = []" "fs_ok s1" "os_names s1 (manifest_of config) = None"
      "file_at s1 (log_file config) = Some (log_of ctx1)"
  shows "\<exists>ctx2. main_start getenv read_text argv hash_fn alloc steady1 clk1 clks1 s1 = Inr ctx2 \<and>
    cx_storage ctx2 = fresh_engine hash_fn alloc config"
proof -
  let ?fresh = "fresh_engine hash_fn alloc config"
  have "strict_prefix torn (encode_command [''SET'', k, v])"
  proof -
    have "encode_command [''SET'', k, v] = torn @ drop j v @ crlf"
      unfolding torn(1) encode_set by (metis append_assoc append_take_drop_id)
    then show ?thesis by (simp add: strict_prefix_def crlf_def)
  qed
  from start_on_fragment [OF conf s0 torn(2) this, of hash_fn alloc steady0 clk0 clks0] start
  have ctx0: "cx_storage ctx0 = ?fresh" "logging ctx0" "log_of ctx0 = torn" by auto
  have inv: "storage_inv (cx_storage ctx0)" "plain None (cx_storage ctx0)"
    using alikeD(1,4) [OF fresh_plain] ctx0(1) by simp_all
  obtain log where "wrote_log ctx0 ctx1 log"
    using recoverable_log [OF ctx0(2) inv run] by blast
  then obtain new where new: "log_of ctx1 = torn @ new" using ctx0(3) by (auto simp: wrote_log_def)
  obtain v' where "log_fits (protocol config) [[''SET'', k, v']]" "strict_prefix (log_of ctx1) (encode_command [''SET'', k, v'])"
    using fragment_swallows [of j new v "protocol config" k] torn room new by auto
  from start_on_fragment [OF conf s1 this] show ?thesis by blast
qed

text \<open>A \<open>SET a\<close> of forty bytes, torn after two of them; then \<open>SET b 1\<close>, and a restart.\<close>

definition torn_log :: string where
  "torn_log = set_header ''a'' 40 @ ''xx''"

abbreviation torn_value :: string where
  "torn_value \<equiv> ''xx'' @ replicate 38 CHR ''x''"

lemma torn_crash:
  "os_script (example_crash bs) = []" "fs_ok (example_crash bs)"
  "os_names (example_crash bs) (manifest_of example_config) = None"
  "file_at (example_crash bs) (log_file example_config) = Some bs"
  by (simp_all add: example_defs store_of_def fs_ok_def file_at_def evals)

lemma fragment_fits: "log_fits (protocol example_config) [[''SET'', ''a'', torn_value]]"
  by (simp add: log_fits_def command_fits_def parser_options_from_config_def example_defs evals)

lemma torn_log_start:
  "\<exists>ctx0. example_start (example_crash torn_log) = Inr ctx0 \<and> cx_storage ctx0 = fresh_engine length True example_config \<and>
     logging ctx0 \<and> log_of ctx0 = torn_log"
proof -
  have "strict_prefix torn_log (encode_command [''SET'', ''a'', torn_value])"
    unfolding encode_set torn_log_def by (simp add: strict_prefix_def crlf_def)
  then show ?thesis
    using start_on_fragment [OF example_config_started torn_crash fragment_fits] unfolding example_start_def by blast
qed

lemma torn_run:
  assumes "cx_storage ctx0 = fresh_engine length True example_config" and "logging ctx0" and "log_of ctx0 = torn_log"
  shows "\<exists>ctx1. run_commands ctx0 (\<lambda>_ _. 0) [[''SET'', ''b'', ''1'']] = ([ok], ctx1) \<and>
    log_of ctx1 = torn_log @ encode_command [''SET'', ''b'', ''1''] \<and> view (cx_storage ctx1) 0 ''b'' = Some (''1'', None)"
proof -
  let ?fresh = "fresh_engine length True example_config"
  obtain r ctx1 where e: "execute registry ctx0 (\<lambda>_. 0) [''SET'', ''b'', ''1''] = (r, ctx1)"
    by (cases "execute registry ctx0 (\<lambda>_. 0) [''SET'', ''b'', ''1'']")
  obtain res se where set: "storage_set ?fresh 0 ''b'' ''1'' None Always = (res, se)"
    by (cases "storage_set ?fresh 0 ''b'' ''1'' None Always")
  have "wr_code (fst (storage_set ?fresh 0 ''b'' ''1'' None Always)) = Ok"
    and "view (snd (storage_set ?fresh 0 ''b'' ''1'' None Always)) 0 ''b'' = Some (''1'', None)"
    by (simp_all add: fresh_engine_def example_defs view_def visible_def lookup_def evals)
  then have "wr_code res = Ok" and v: "view se 0 ''b'' = Some (''1'', None)" using set by simp_all
  with set_logged [OF assms(2) _ _ e, of res se] set assms(1)
  have "r = ok" "cx_storage ctx1 = se" "wrote_log ctx0 ctx1 [[''SET'', ''b'', ''1'']]" by simp_all
  with e v assms(3) show ?thesis by (simp add: wrote_log_def)
qed

theorem writes_behind_torn_end_lost_witness:
  "\<exists>ctx0 ctx1 ctx2. example_start (example_crash torn_log) = Inr ctx0 \<and>
     run_commands ctx0 (\<lambda>_ _. 0) [[''SET'', ''b'', ''1'']] = ([ok], ctx1) \<and> view (cx_storage ctx1) 0 ''b'' = Some (''1'', None) \<and>
     example_start (example_crash (log_of ctx1)) = Inr ctx2 \<and> view (cx_storage ctx2) 0 ''b'' = None"
proof -
  obtain ctx0 where start: "example_start (example_crash torn_log) = Inr ctx0"
    and ctx0: "cx_storage ctx0 = fresh_engine length True example_config" "logging ctx0" "log_of ctx0 = torn_log"
    using torn_log_start by blast
  obtain ctx1 where run: "run_commands ctx0 (\<lambda>_ _. 0) [[''SET'', ''b'', ''1'']] = ([ok], ctx1)"
    and log: "log_of ctx1 = torn_log @ encode_command [''SET'', ''b'', ''1'']" and v: "view (cx_storage ctx1) 0 ''b'' = Some (''1'', None)"
    using torn_run [OF ctx0] by blast
  have torn: "torn_log = set_header ''a'' (length torn_value) @ take 2 torn_value" by (simp add: torn_log_def)
  have rr: "recoverable_run None (protocol example_config) (\<lambda>_ _. 0) [[''SET'', ''b'', ''1'']] [ok]"
    by (simp add: recoverable_run_def mset_refused_def lasting_def example_defs evals)
  have room: "2 + length (log_of ctx1) \<le> length torn_log + length torn_value" unfolding log by (simp add: evals)
  from writes_behind_torn_end_lost [OF example_config_started torn_crash torn fragment_fits start [unfolded example_start_def] run rr room torn_crash]
  obtain ctx2 where "example_start (example_crash (log_of ctx1)) = Inr ctx2" "cx_storage ctx2 = fresh_engine length True example_config"
    unfolding example_start_def by blast
  moreover have "view (fresh_engine length True example_config) 0 ''b'' = None"
    by (simp add: fresh_engine_def example_defs view_def visible_def lookup_def evals)
  ultimately show ?thesis using start run v by metis
qed

text \<open>A fragment that ends before a value can instead make the next start refuse the log, with exit code 3.\<close>

lemma torn_end_refused:
  "\<exists>ctx0. example_start (example_crash ''*2'') = Inr ctx0"
  "example_start (example_crash (''*2'' @ encode_command [''SET'', ''b'', ''1''])) = Inl 3"
  by (simp_all add: example_defs evals Let_def parser_append_def next_command_def next_value_def is_resp_prefix_def find_crlf_def
      parse_at.simps [of _ _ 0 0] parse_number_line_def kMaxDepth_def mk_parser_def parser_options_from_config_def)


section \<open>An append that fails half-way\<close>

text \<open>
  The bytes that were written stay in the log, behind the size that the server keeps for it, which
  is the offset that a \<open>SAVE\<close> records; and the next append, which is acknowledged, follows them.
\<close>

lemma failed_append_leaves_fragment:
  "case aof_append synced_aof [''SET'', ''k'', ''v''] (synced_os\<lparr>os_script := [Partial 2, Failed ''No space left on device'']\<rparr>) of
     (st, aof, s) \<Rightarrow> \<not> ok_status st \<and> file_at s ''log'' = Some ''*3'' \<and> ao_current_size aof = 0 \<and>
       (case aof_append aof [''GET''] s of (st', aof', s') \<Rightarrow>
          ok_status st' \<and> file_at s' ''log'' = Some (''*3'' @ encode_command [''GET'']) \<and>
          ao_current_size aof' = length (encode_command [''GET'']))"
  by (simp add: synced_aof_def synced_os_def file_at_def evals Let_def numeral_3_eq_3 [symmetric])


section \<open>Replaying after a deadline\<close>

text \<open>
  \<open>late_restart cs log key left found\<close>: the server executes \<open>cs\<close> at time 0, which leaves the log \<open>log\<close>, and is
  started again on it at ten milliseconds.  At that time \<open>key\<close> is \<open>left\<close> in the server that was not
  restarted and \<open>found\<close> in the other.
\<close>

definition late :: time_point where
  "late = 10000000"

definition late_start :: "os \<Rightarrow> nat + CommandContext" where
  "late_start = main_start (\<lambda>_. None) (\<lambda>_. None) [''--storage-shards=1''] length True 0 (\<lambda>_. late) (\<lambda>_ _. late)"

definition late_restart ::
  "string list list \<Rightarrow> string list list \<Rightarrow> string \<Rightarrow> (string \<times> time_point option) option \<Rightarrow> (string \<times> time_point option) option \<Rightarrow> bool" where
  "late_restart cs log key left found \<longleftrightarrow>
     (\<exists>ctx0 rs ctx1 ctx2. example_start (empty_os 1 []) = Inr ctx0 \<and> run_commands ctx0 (\<lambda>_ _. 0) cs = (rs, ctx1) \<and>
        log_of ctx1 = concat (map encode_command log) \<and> view (cx_storage ctx1) late key = left \<and>
        late_start (example_crash (log_of ctx1)) = Inr ctx2 \<and> view (cx_storage ctx2) late key = found)"

lemma late_log:
  "\<exists>ctx0 rs ctx1. example_start (empty_os 1 []) = Inr ctx0 \<and>
     run_commands ctx0 (\<lambda>_ _. 0) [[''SET'', ''k'', ''v'', ''PX'', ''1''], [''PERSIST'', ''k'']] = (rs, ctx1) \<and>
     log_of ctx1 = concat (map encode_command [[''SET'', ''k'', ''v'', ''PXAT'', ''1''], [''PERSIST'', ''k'']]) \<and>
     view (cx_storage ctx1) late ''k'' = Some (''v'', None)"
  "\<exists>ctx0 rs ctx1. example_start (empty_os 1 []) = Inr ctx0 \<and>
     run_commands ctx0 (\<lambda>_ _. 0) [[''SET'', ''k'', ''5'', ''PX'', ''1''], [''INCR'', ''k'']] = (rs, ctx1) \<and>
     log_of ctx1 = concat (map encode_command [[''SET'', ''k'', ''5'', ''PXAT'', ''1''], [''INCR'', ''k'']]) \<and>
     view (cx_storage ctx1) late ''k'' = Some (''6'', None)"
  by (simp_all add: example_defs late_def log_of_def log_path_def file_at_def view_def visible_def lookup_def evals Let_def)

lemma late_replay:
  "\<exists>ctx. apply_all (replay_callback registry (\<lambda>_ _. late)) [[''SET'', ''k'', ''v'', ''PXAT'', ''1''], [''PERSIST'', ''k'']] 0
       (replay_context example_config (fresh_engine length True example_config) metrics store logger steady s, 0) = (None, 2, ctx, 2) \<and>
     view (cx_storage ctx) late ''k'' = None"
  "\<exists>ctx. apply_all (replay_callback registry (\<lambda>_ _. late)) [[''SET'', ''k'', ''5'', ''PXAT'', ''1''], [''INCR'', ''k'']] 0
       (replay_context example_config (fresh_engine length True example_config) metrics store logger steady s, 0) = (None, 2, ctx, 2) \<and>
     view (cx_storage ctx) late ''k'' = Some (''1'', None)"
  by (simp_all add: fresh_engine_def late_def example_defs replay_callback_def view_def visible_def lookup_def evals)

lemma late_restored:
  assumes fits: "log_fits (protocol example_config) log"
    and replay: "\<And>metrics logger s. \<exists>ctx. apply_all (replay_callback registry (\<lambda>_ _. late)) log 0
      (replay_context example_config (fresh_engine length True example_config) metrics (store_of example_config) logger 0 s, 0) =
        (None, n, ctx, i) \<and> P (cx_storage ctx)"
  shows "\<exists>ctx2. late_start (example_crash (concat (map encode_command log))) = Inr ctx2 \<and> P (cx_storage ctx2)"
proof -
  let ?s = "example_crash (concat (map encode_command log))" and ?fresh = "fresh_engine length True example_config"
  have safe: "path_is_safe (log_file example_config)" using example_config_started by (simp add: started_config_def)
  have here: "file_at ?s (log_file example_config) = Some ([] @ concat (map encode_command log))"
    and whole: "concat (map encode_command log) = concat (map encode_command log) @ []"
    using torn_crash(4) by simp_all
  have read: "replay_file (log_file example_config) (protocol example_config) callback (length ([] :: string)) x ?s =
      (case replay_result None [] no_stats (apply_all callback log 0 x) of (stats, x') \<Rightarrow> (stats, x', ?s))"
    for callback and x :: "CommandContext \<times> nat"
    using replay_file_prefix [OF safe here torn_crash(1) fits whole] by auto
  have "\<exists>se1 m1. recover_aof example_config registry (store_of example_config) (\<lambda>_. late) (\<lambda>_ _. late) metrics logger 0 ?fresh ?s =
      (Inr (se1, m1), ?s) \<and> P se1" for metrics logger
    using recover_no_manifest [OF torn_crash(1,3)] read replay [of metrics logger ?s]
    by (auto simp: finish_replay_def replay_result_def no_stats_def)
  from main_start_recovered [OF example_config_started torn_crash(1,2) this] show ?thesis unfolding late_start_def by blast
qed

text \<open>
  C20. Replay does not see the time at which a command was logged.  A key that was set with an expiry
  and then made permanent by \<open>PERSIST\<close> is gone when the server is restarted after the old deadline, and a
  counter that was set with an expiry and incremented in time restarts from zero: the replayed \<open>SET\<close> has
  expired when the command that follows it is replayed.\<close>

theorem restart_after_deadline_diverges:
  "late_restart [[''SET'', ''k'', ''v'', ''PX'', ''1''], [''PERSIST'', ''k'']] [[''SET'', ''k'', ''v'', ''PXAT'', ''1''], [''PERSIST'', ''k'']] ''k''
     (Some (''v'', None)) None \<and>
   late_restart [[''SET'', ''k'', ''5'', ''PX'', ''1''], [''INCR'', ''k'']] [[''SET'', ''k'', ''5'', ''PXAT'', ''1''], [''INCR'', ''k'']] ''k''
     (Some (''6'', None)) (Some (''1'', None))"
proof -
  have "log_fits (protocol example_config) [[''SET'', ''k'', ''v'', ''PXAT'', ''1''], [''PERSIST'', ''k'']]"
    and "log_fits (protocol example_config) [[''SET'', ''k'', ''5'', ''PXAT'', ''1''], [''INCR'', ''k'']]"
    by (simp_all add: log_fits_def command_fits_def parser_options_from_config_def example_defs evals)
  from late_restored [OF this(1) late_replay(1)] late_restored [OF this(2) late_replay(2)] late_log
  show ?thesis unfolding late_restart_def by metis
qed


section \<open>Snapshots are not synced\<close>

text \<open>
  Writing to a stream, closing it and renaming its file sync nothing, so after a successful \<open>SAVE\<close> a crash
  may leave any beginning of the snapshot, even none of it, under its name.
\<close>

lemma stream_put_synced: "stream_put out bs s = (out', s') \<Longrightarrow> os_synced s' = os_synced s \<and> os_names s' = os_names s \<and> of_fd out' = of_fd out"
  using next_outcome_files [of s "fst (next_outcome s)" "snd (next_outcome s)"]
  by (auto simp: stream_put_def same_files_def split: if_splits prod.splits outcome.splits)

lemma put_commands_synced: "put_commands out cs s = (out', s') \<Longrightarrow> os_synced s' = os_synced s \<and> os_names s' = os_names s \<and> of_fd out' = of_fd out"
  by (induction out cs s rule: put_commands.induct) (auto dest: stream_put_synced split: prod.splits)

lemma put_entries_synced: "put_entries out es s = (done, out', s') \<Longrightarrow> os_synced s' = os_synced s \<and> os_names s' = os_names s \<and> of_fd out' = of_fd out"
  by (induction out es s rule: put_entries.induct) (auto dest: put_commands_synced split: prod.splits if_splits)

lemma saved_snapshot_not_synced:
  assumes "save_snapshot_file store se now s = (st, se', s')" and "ok_status st"
  shows "survives s' (ss_path store) []"
proof -
  obtain st1 s1 where d: "snapshot_ensure_parent_dir (ss_path store) s = (st1, s1)" by fastforce
  obtain r s2 where o: "sys_open True (ss_path store @ ''.tmp'') s1 = (r, s2)" by fastforce
  have fail: "\<not> ok_status (io_error m)" "\<not> ok_status (invalid_argument m)" for m by (simp_all add: evals)
  obtain fd where r: "r = Inr fd" using assms d o fail
    by (cases r) (auto simp: save_snapshot_file_def Let_def split: if_splits)
  obtain entries se2 where sn: "storage_snapshot se now = (entries, se2)" by fastforce
  obtain finished out s3 where p: "put_entries \<lparr>of_fd = fd, of_good = True\<rparr> entries s2 = (finished, out, s3)" by (metis prod_cases3)
  obtain out' s4 where c: "stream_close out s3 = (out', s4)" by fastforce
  have i: "install_file ''snapshot'' (ss_path store @ ''.tmp'') (ss_path store) s4 = (st, s')"
    using assms d o r sn p c fail by (auto simp: save_snapshot_file_def Let_def split: if_splits prod.splits)
  have open_tmp: "os_names s2 (ss_path store @ ''.tmp'') = Some fd" "os_synced s2 fd = 0"
    using o r by (auto simp: sys_open_def open_existing_def create_file_def split: prod.splits option.splits)
  have "same_files s3 s4" using c sys_call_files [of s3] by (auto simp: stream_close_def sys_close_def split: prod.splits option.splits)
  with put_entries_synced [OF p] open_tmp have s4: "os_names s4 (ss_path store @ ''.tmp'') = Some fd" "os_synced s4 fd = 0"
    by (simp_all add: same_files_def)
  obtain e s5 where call: "sys_call s4 = (e, s5)" by fastforce
  have s5: "os_names s5 (ss_path store @ ''.tmp'') = Some fd" "os_synced s5 fd = 0"
    using s4 sys_call_files [OF call] by (simp_all add: same_files_def)
  then have "os_names s' (ss_path store) = Some fd" "os_synced s' fd = 0"
    using i assms(2) call fail by (auto simp: install_file_def sys_rename_def split: option.splits prod.splits)
  then show ?thesis unfolding survives_def by (intro exI [of _ fd] exI [of _ 0]) simp
qed

end
