(* ===== verification/Barrier.thy ===== *)
theory Barrier
  imports Persist_Props "HOL-Library.Multiset"
begin

text \<open>
  The barrier between write commands and checkpoints: \<open>Aof::MutationGuard\<close> and \<open>Aof::CheckpointGuard\<close> of
  \<open>include/veloxdb/persistence/aof.h\<close>.  A write command of \<open>src/commands/commands.cpp\<close> holds the shared
  side while it changes the storage and then appends to the log, two steps that the commands of other
  workers can come between; \<open>SAVE\<close> holds the exclusive side through \<open>CheckpointGuard\<close>, the log rewrite by a
  lock of its own.  The change of the storage and the append are each one step, as they are made under
  the locks of the shard and of the log, and the append is one that succeeds; what a failed append
  leaves behind is in \<open>Aof_Props\<close> and \<open>Persist_Findings\<close>.
\<close>


section \<open>Workers at the barrier\<close>

text \<open>
  Where a worker is: outside, holding the shared side before and after its change of the storage
  (with the bytes it has still to append), after its append, or holding the exclusive side, with the
  offset the guard has recorded.
\<close>

datatype phase = Outside | MutationGuard "string list" | Changed string | Logged | CheckpointGuard nat

text \<open>
  \<open>sh_ctx\<close> has the storage, \<open>sh_log\<close> is the log file and \<open>sh_size\<close> the counter \<open>current_size_\<close>.  The further
  fields are a record of the past only: the log and the storage as the last rewrite or the start left
  them, what the commands since have to log, in the order of their changes and in the order of their
  appends, and the commands executed, with their clocks and results.
\<close>

record shared =
  sh_ctx :: CommandContext
  sh_log :: string
  sh_size :: nat
  sh_base :: string
  sh_from :: StorageEngine
  sh_applied :: "string list"
  sh_logged :: "string list"
  sh_ran :: "(clock \<times> string list \<times> CommandResult) list"
  sh_phases :: "phase list"

text \<open>The result of a command, what it does to the storage, and the bytes that it appends to the log.\<close>

definition command_effect :: "CommandContext \<Rightarrow> clock \<Rightarrow> string list \<Rightarrow> CommandResult \<times> StorageEngine \<times> string" where
  "command_effect ctx clk c =
     (case execute registry ctx clk c of (r, ctx') \<Rightarrow> (r, cx_storage ctx', drop (length (log_of ctx)) (log_of ctx')))"

fun shared_side :: "phase \<Rightarrow> bool" where
  "shared_side (MutationGuard c) = True"
| "shared_side (Changed bs) = True"
| "shared_side Logged = True"
| "shared_side _ = False"

fun exclusive_side :: "phase \<Rightarrow> bool" where
  "exclusive_side (CheckpointGuard n) = True"
| "exclusive_side _ = False"

text \<open>\<open>mutation_guard\<close> takes the shared side for a command that is to be logged, and nothing otherwise.\<close>

definition takes_mutation_guard :: "CommandContext \<Rightarrow> bool" where
  "takes_mutation_guard ctx \<longleftrightarrow> \<not> cx_replay ctx \<and> (case cx_aof ctx of None \<Rightarrow> False | Some aof \<Rightarrow> enabled aof)"

definition changed_by :: "clock \<Rightarrow> string list \<Rightarrow> CommandResult \<Rightarrow> StorageEngine \<Rightarrow> shared \<Rightarrow> shared" where
  "changed_by clk c r se s = s\<lparr>sh_ctx := (sh_ctx s)\<lparr>cx_storage := se\<rparr>, sh_ran := sh_ran s @ [(clk, c, r)]\<rparr>"

text \<open>
  The steps.  \<open>reading\<close> is a command without a guard and without anything to log; it can still remove
  expired keys.  An append counts its bytes in \<open>current_size_\<close> (\<open>write_bytes_locked\<close>), a rewrite sets the
  counter to the size of the file that it reopens (\<open>reopen_locked\<close>), and the checkpoint guard records it.
\<close>

inductive barrier_step :: "shared \<Rightarrow> shared \<Rightarrow> bool" where
  reading: "command_effect (sh_ctx s) clk c = (r, se, []) \<Longrightarrow> barrier_step s (changed_by clk c r se s)"
| mutation_guard: "t < length (sh_phases s) \<Longrightarrow> sh_phases s ! t = Outside \<Longrightarrow> \<forall>p\<in>set (sh_phases s). \<not> exclusive_side p \<Longrightarrow>
    takes_mutation_guard (sh_ctx s) \<Longrightarrow> barrier_step s (s\<lparr>sh_phases := (sh_phases s)[t := MutationGuard c]\<rparr>)"
| change: "t < length (sh_phases s) \<Longrightarrow> sh_phases s ! t = MutationGuard c \<Longrightarrow> command_effect (sh_ctx s) clk c = (r, se, bs) \<Longrightarrow>
    barrier_step s ((changed_by clk c r se s)\<lparr>sh_applied := sh_applied s @ [bs], sh_phases := (sh_phases s)[t := Changed bs]\<rparr>)"
| append: "t < length (sh_phases s) \<Longrightarrow> sh_phases s ! t = Changed bs \<Longrightarrow>
    barrier_step s (s\<lparr>sh_log := sh_log s @ bs, sh_size := sh_size s + length bs, sh_logged := sh_logged s @ [bs],
      sh_phases := (sh_phases s)[t := Logged]\<rparr>)"
| release: "t < length (sh_phases s) \<Longrightarrow> sh_phases s ! t = Logged \<Longrightarrow>
    barrier_step s (s\<lparr>sh_phases := (sh_phases s)[t := Outside]\<rparr>)"
| checkpoint_guard: "t < length (sh_phases s) \<Longrightarrow> \<forall>p\<in>set (sh_phases s). \<not> shared_side p \<and> \<not> exclusive_side p \<Longrightarrow>
    barrier_step s (s\<lparr>sh_phases := (sh_phases s)[t := CheckpointGuard (sh_size s)]\<rparr>)"
| rewrite: "\<forall>p\<in>set (sh_phases s). \<not> shared_side p \<and> \<not> exclusive_side p \<Longrightarrow> storage_snapshot (cx_storage (sh_ctx s)) now = (entries, se) \<Longrightarrow>
    barrier_step s (s\<lparr>sh_ctx := (sh_ctx s)\<lparr>cx_storage := se\<rparr>, sh_log := restored_log entries,
      sh_size := length (restored_log entries), sh_base := restored_log entries, sh_from := se, sh_applied := [], sh_logged := []\<rparr>)"
| release_checkpoint: "t < length (sh_phases s) \<Longrightarrow> sh_phases s ! t = CheckpointGuard n \<Longrightarrow>
    barrier_step s (s\<lparr>sh_phases := (sh_phases s)[t := Outside]\<rparr>)"

definition barrier_start :: "CommandContext \<Rightarrow> nat \<Rightarrow> shared" where
  "barrier_start ctx n = \<lparr>sh_ctx = ctx, sh_log = log_of ctx, sh_size = ao_current_size (the (cx_aof ctx)), sh_base = log_of ctx,
     sh_from = cx_storage ctx, sh_applied = [], sh_logged = [], sh_ran = [], sh_phases = replicate n Outside\<rparr>"

inductive barrier_reachable :: "CommandContext \<Rightarrow> nat \<Rightarrow> shared \<Rightarrow> bool" for ctx n where
  start: "barrier_reachable ctx n (barrier_start ctx n)"
| step: "barrier_reachable ctx n s \<Longrightarrow> barrier_step s s' \<Longrightarrow> barrier_reachable ctx n s'"


section \<open>What a checkpoint sees\<close>
















lemma encode_not_nil [simp]: "encode_command c \<noteq> []"
  by (simp add: encode_command_def array_header_def)









section \<open>Order\<close>

lemma set_command_effect:
  assumes "logging ctx" and "storage_set (cx_storage ctx) (clk 1) k v None Always = (res, se)" and "wr_code res = Ok"
  shows "command_effect ctx clk [''SET'', k, v] = (ok, se, encode_command [''SET'', k, v])"
proof -
  obtain r ctx' where e: "execute registry ctx clk [''SET'', k, v] = (r, ctx')"
    by (cases "execute registry ctx clk [''SET'', k, v]")
  show ?thesis using set_logged [of ctx clk k v, OF assms(1,2,3) e] e by (simp add: command_effect_def wrote_log_def)
qed

definition logged_context :: CommandContext where
  "logged_context = example_context\<lparr>cx_storage := small_engine, cx_aof := Some synced_aof, cx_os := synced_os\<rparr>"

definition replayed_context :: CommandContext where
  "replayed_context = logged_context\<lparr>cx_replay := True\<rparr>"

abbreviation set_a :: "string list" where "set_a \<equiv> [''SET'', ''k'', ''a'']"
abbreviation set_b :: "string list" where "set_b \<equiv> [''SET'', ''k'', ''b'']"

lemma logged_context_logging: "logging logged_context"
  by (simp add: logging_def logged_context_def synced_aof_def synced_os_def aof_wf_def fs_ok_def file_at_def evals)

definition engine_a :: StorageEngine where
  "engine_a = snd (storage_set small_engine 0 ''k'' ''a'' None Always)"

definition engine_ab :: StorageEngine where
  "engine_ab = snd (storage_set engine_a 0 ''k'' ''b'' None Always)"

lemma set_twice:
  "wr_code (fst (storage_set small_engine 0 ''k'' ''a'' None Always)) = Ok"
  "wr_code (fst (storage_set engine_a 0 ''k'' ''b'' None Always)) = Ok"
  "fst (storage_get engine_ab 0 ''k'') = Some ''b''"
  "fst (storage_get (snd (storage_set (snd (storage_set small_engine 0 ''k'' ''b'' None Always)) 0 ''k'' ''a'' None Always)) 0 ''k'') = Some ''a''"
  by (simp_all add: engine_ab_def engine_a_def evals)

lemma set_other:
  "cx_replay replayed_context" "cx_storage replayed_context = small_engine"
  "wr_code (fst (storage_set small_engine 0 ''k'' ''b'' None Always)) = Ok"
  "wr_code (fst (storage_set (snd (storage_set small_engine 0 ''k'' ''b'' None Always)) 0 ''k'' ''a'' None Always)) = Ok"
  by (simp_all add: replayed_context_def logged_context_def evals)

text \<open>
  Two workers: both enter, \<open>a\<close> is stored, then \<open>b\<close>, then \<open>b\<close> is appended, then \<open>a\<close>.
\<close>

abbreviation ran_a :: "clock \<times> string list \<times> CommandResult" where "ran_a \<equiv> (\<lambda>_. 0, set_a, ok)"
abbreviation ran_b :: "clock \<times> string list \<times> CommandResult" where "ran_b \<equiv> (\<lambda>_. 0, set_b, ok)"

definition two_writers :: "StorageEngine \<Rightarrow> string list \<Rightarrow> string list \<Rightarrow> (clock \<times> string list \<times> CommandResult) list \<Rightarrow> phase list \<Rightarrow> shared" where
  "two_writers se applied logged ran_so_far phases =
     \<lparr>sh_ctx = logged_context\<lparr>cx_storage := se\<rparr>, sh_log = concat logged, sh_size = length (concat logged), sh_base = [], sh_from = small_engine,
      sh_applied = applied, sh_logged = logged, sh_ran = ran_so_far, sh_phases = phases\<rparr>"

definition crossed :: shared where
  "crossed = two_writers engine_ab [encode_command set_a, encode_command set_b] [encode_command set_b, encode_command set_a]
     [ran_a, ran_b] [Outside, Outside]"

lemma two_writers_simps [simp]:
  "sh_phases (two_writers se applied logged rs ps) = ps" "sh_ctx (two_writers se applied logged rs ps) = logged_context\<lparr>cx_storage := se\<rparr>"
  "sh_ran (two_writers se applied logged rs ps) = rs"
  "(two_writers se applied logged rs ps)\<lparr>sh_phases := qs\<rparr> = two_writers se applied logged rs qs"
  "(changed_by clk c r se' (two_writers se applied logged rs ps))\<lparr>sh_applied := applied', sh_phases := qs\<rparr> =
     two_writers se' applied' logged (rs @ [(clk, c, r)]) qs"
  "(two_writers se applied logged rs ps)\<lparr>sh_log := concat logged @ bs, sh_size := length (concat logged) + length bs,
     sh_logged := logged @ [bs], sh_phases := qs\<rparr> = two_writers se applied (logged @ [bs]) rs qs"
  "sh_applied (two_writers se applied logged rs ps) = applied" "sh_logged (two_writers se applied logged rs ps) = logged"
  "sh_log (two_writers se applied logged rs ps) = concat logged" "sh_size (two_writers se applied logged rs ps) = length (concat logged)"
  "sh_base (two_writers se applied logged rs ps) = []" "sh_from (two_writers se applied logged rs ps) = small_engine"
  by (simp_all add: two_writers_def changed_by_def)

lemma crossed_reachable: "barrier_reachable logged_context 2 crossed"
proof -
  let ?ctx = logged_context and ?a = "encode_command set_a" and ?b = "encode_command set_b"
  let ?ctx_a = "logged_context\<lparr>cx_storage := engine_a\<rparr>" and ?st = two_writers and ?e = small_engine
  have ctx: "?ctx\<lparr>cx_storage := ?e\<rparr> = ?ctx" by (simp add: logged_context_def)
  have empty: "log_of ?ctx = []" "ao_current_size (the (cx_aof ?ctx)) = 0" "cx_storage ?ctx = ?e"
    by (simp_all add: log_of_def log_path_def logged_context_def synced_aof_def synced_os_def file_at_def evals)
  have "storage_set (cx_storage ?ctx) 0 ''k'' ''a'' None Always = (fst (storage_set small_engine 0 ''k'' ''a'' None Always), engine_a)"
    by (simp add: engine_a_def logged_context_def)
  from set_command_effect [OF logged_context_logging, of "\<lambda>_. 0", OF this set_twice(1)]
  have ea: "command_effect ?ctx (\<lambda>_. 0) set_a = (ok, engine_a, ?a)" .
  have "logging ?ctx_a" using logged_context_logging by simp
  from set_command_effect [OF this, of "\<lambda>_. 0" "''k''" "''b''", OF _ set_twice(2)]
  have eb: "command_effect ?ctx_a (\<lambda>_. 0) set_b = (ok, engine_ab, ?b)" by (simp add: engine_ab_def)
  have takes: "takes_mutation_guard ?ctx"
    using logged_context_logging by (auto simp: takes_mutation_guard_def logging_def)
  note go = barrier_reachable.step
  have "barrier_reachable ?ctx 2 (?st ?e [] [] [] [Outside, Outside])"
    using barrier_reachable.start [of ?ctx 2] by (simp add: barrier_start_def two_writers_def empty ctx numeral_2_eq_2)
  from go [OF this barrier_step.mutation_guard [of 0 _ set_a]] takes ctx
  have "barrier_reachable ?ctx 2 (?st ?e [] [] [] [MutationGuard set_a, Outside])" by simp
  from go [OF this barrier_step.mutation_guard [of 1 _ set_b]] takes ctx
  have "barrier_reachable ?ctx 2 (?st ?e [] [] [] [MutationGuard set_a, MutationGuard set_b])" by simp
  from go [OF this barrier_step.change [of 0 _ set_a "\<lambda>_. 0" ok engine_a ?a]] ea ctx
  have "barrier_reachable ?ctx 2 (?st engine_a [?a] [] [ran_a] [Changed ?a, MutationGuard set_b])" by simp
  from go [OF this barrier_step.change [of 1 _ set_b "\<lambda>_. 0" ok engine_ab ?b]] eb
  have "barrier_reachable ?ctx 2 (?st engine_ab [?a, ?b] [] [ran_a, ran_b] [Changed ?a, Changed ?b])" by simp
  from go [OF this barrier_step.append [of 1 _ ?b]]
  have "barrier_reachable ?ctx 2 (?st engine_ab [?a, ?b] [?b] [ran_a, ran_b] [Changed ?a, Logged])" by (simp add: two_writers_def)
  from go [OF this barrier_step.append [of 0 _ ?a]]
  have "barrier_reachable ?ctx 2 (?st engine_ab [?a, ?b] [?b, ?a] [ran_a, ran_b] [Logged, Logged])" by (simp add: two_writers_def)
  from go [OF this barrier_step.release [of 0]]
  have "barrier_reachable ?ctx 2 (?st engine_ab [?a, ?b] [?b, ?a] [ran_a, ran_b] [Outside, Logged])" by simp
  from go [OF this barrier_step.release [of 1]] show ?thesis by (simp add: crossed_def)
qed




definition replayed :: "CommandContext \<Rightarrow> StorageEngine \<Rightarrow> CommandContext" where
  "replayed ctx se = ctx\<lparr>cx_storage := se, cx_metrics := aof_write_succeeded (cx_metrics ctx)\<rparr>"

lemma replayed_simps [simp]: "cx_replay (replayed ctx se) = cx_replay ctx" "cx_storage (replayed ctx se) = se"
  by (simp_all add: replayed_def)

lemma replay_set:
  assumes "cx_replay ctx" and "wr_code (fst (storage_set (cx_storage ctx) 0 k v None Always)) = Ok"
  shows "replay_callback registry (\<lambda>_ _. 0) (ctx, i) [''SET'', k, v] =
    (status_ok, replayed ctx (snd (storage_set (cx_storage ctx) 0 k v None Always)), i + 1)"
proof -
  obtain res se where s: "storage_set (cx_storage ctx) 0 k v None Always = (res, se)"
    by (cases "storage_set (cx_storage ctx) 0 k v None Always")
  have "execute registry ctx (\<lambda>_. 0) [''SET'', k, v] = set_cmd ctx (\<lambda>_. 0) [''SET'', k, v]"
    by (simp add: execute_def registry_eq default_commands_def evals)
  with assms s show ?thesis
    by (simp add: replayed_def replay_callback_def set_cmd_def ok_def simple_def reply_def crlf_def Let_def)
qed

text \<open>
  C21. The barrier does not order the writers of one key: two workers that execute \<open>SET k a\<close> and
  \<open>SET k b\<close> at the same time can leave \<open>b\<close> in memory and a complete log, without any failure, whose
  replay yields \<open>a\<close>.\<close>

theorem concurrent_writes_replay_differently:
  "barrier_reachable logged_context 2 crossed \<and> sh_phases crossed = [Outside, Outside] \<and>
   fst (storage_get (cx_storage (sh_ctx crossed)) 0 ''k'') = Some ''b'' \<and>
   sh_log crossed = concat (map encode_command [set_b, set_a]) \<and>
   (case apply_all (replay_callback registry (\<lambda>_ _. 0)) [set_b, set_a] 0 (replayed_context, 0) of
      (failed, n, (ctx, i)) \<Rightarrow> failed = None \<and> fst (storage_get (cx_storage ctx) 0 ''k'') = Some ''a'')"
proof -
  let ?apply = "apply_all (replay_callback registry (\<lambda>_ _. 0))"
  let ?engine_b = "snd (storage_set small_engine 0 ''k'' ''b'' None Always)"
  have "?apply [set_b, set_a] 0 (replayed_context, 0) =
      (let ctx = replayed replayed_context ?engine_b in
       (None, 2, replayed ctx (snd (storage_set ?engine_b 0 ''k'' ''a'' None Always)), 2))"
    using replay_set [of replayed_context] replay_set [of "replayed replayed_context ?engine_b"] set_other
    by (simp add: Let_def)
  then show ?thesis
    using crossed_reachable set_twice by (simp add: crossed_def Let_def replayed_def)
qed

end
