(* ===== verification/Command_Findings.thy ===== *)
theory Command_Findings
  imports Command_Inv
begin

text \<open>Behaviours of single commands that the checks around them do not suggest.\<close>

text \<open>
  A time to live that is not a number, or that overflows when scaled to milliseconds, is taken for none:
  \<open>SET\<close> answers \<open>OK\<close> and stores the key without an expiry.
\<close>

lemma set_invalid_ttl_accepted:
  "case execute registry example_context (\<lambda>_. 0) [''SET'', ''k'', ''v'', ''EX'', ''abc''] of (r, ctx') \<Rightarrow>
     r = ok \<and> (case storage_ttl (cx_storage ctx') 0 ''k'' of (t, se) \<Rightarrow> tr_state t = NoExpiry)"
  by (simp add: evals Let_def)

text \<open>
  An error reply repeats the name of an unknown command with its line breaks, so that a client reads
  more replies than it sent requests.
\<close>

lemma error_reply_injection:
  "cr_response (fst (execute registry example_context (\<lambda>_. 0) [''x'' @ crlf @ ''+OK'' @ crlf])) =
     ''-ERR unknown command '' @ [CHR 0x27] @ ''x'' @ crlf @ ''+OK'' @ crlf @ [CHR 0x27] @ crlf"
  by (simp add: evals Let_def)

end
