(* ===== verification/Net.thy ===== *)
theory Net
  imports Commands
begin

text \<open>
  The connections of \<open>src/net/tcp_server.cpp\<close>: reading requests, running the complete commands and
  writing replies (\<open>Worker::read_from\<close>, \<open>drain_commands\<close>, \<open>write_to\<close>), and what a readiness event
  does to a connection.

  A socket is what the peer and the kernel will do: the results of the coming \<open>read\<close> and \<open>write\<close>
  calls, and the bytes sent so far.  A call after the end of the list would block.  The commands
  of all connections work on one \<open>CommandContext\<close>; \<open>clocks i\<close> are the readings of the clock by the
  \<open>i\<close>-th command that is executed.
\<close>


section \<open>Sockets\<close>

text \<open>The result of \<open>read\<close>: its bytes, none of them at the end of the stream, or an error.\<close>

datatype read_event = Bytes string | Read_Again | Read_Intr | Read_Fail

text \<open>The result of \<open>write\<close>: how many bytes the kernel is ready to take, or an error.\<close>

datatype write_event = Takes nat | Write_Again | Write_Intr | Write_Fail

record socket =
  so_in :: "read_event list"
  so_out :: "write_event list"
  so_sent :: string
  so_open :: bool

definition read_size :: nat where
  "read_size = 16 * 1024"

text \<open>A \<open>read\<close> takes at most \<open>read_size\<close> bytes of what has arrived.\<close>

definition sock_read :: "socket \<Rightarrow> read_event \<times> socket" where
  "sock_read so =
     (case so_in so of
        [] \<Rightarrow> (Read_Again, so)
      | Bytes bs # rest \<Rightarrow>
          if length bs > read_size then
            (Bytes (take read_size bs), so\<lparr>so_in := Bytes (drop read_size bs) # rest\<rparr>)
          else (Bytes bs, so\<lparr>so_in := rest\<rparr>)
      | e # rest \<Rightarrow> (e, so\<lparr>so_in := rest\<rparr>))"

definition sock_write :: "socket \<Rightarrow> string \<Rightarrow> write_event \<times> socket" where
  "sock_write so bs =
     (case so_out so of
        [] \<Rightarrow> (Write_Again, so)
      | Takes n # rest \<Rightarrow> (Takes (min n (length bs)), so\<lparr>so_out := rest, so_sent := so_sent so @ take n bs\<rparr>)
      | e # rest \<Rightarrow> (e, so\<lparr>so_out := rest\<rparr>))"

definition input_size :: "read_event list \<Rightarrow> nat" where
  "input_size es = sum_list (map (\<lambda>e. case e of Bytes bs \<Rightarrow> length bs + 1 | _ \<Rightarrow> 1) es)"

lemma input_size_simps [simp]:
  "input_size [] = 0"
  "input_size (Bytes bs # es) = length bs + 1 + input_size es"
  "input_size (Read_Again # es) = 1 + input_size es"
  "input_size (Read_Intr # es) = 1 + input_size es"
  "input_size (Read_Fail # es) = 1 + input_size es"
  by (simp_all add: input_size_def)

lemma sock_read_progress:
  "sock_read so = (Bytes bs, so') \<Longrightarrow> input_size (so_in so') < input_size (so_in so)"
  "sock_read so = (Read_Intr, so') \<Longrightarrow> input_size (so_in so') < input_size (so_in so)"
  by (auto simp: sock_read_def read_size_def split: list.splits read_event.splits if_splits)

lemma sock_write_progress:
  "sock_write so bs = (Takes n, so') \<Longrightarrow> length (so_out so') < length (so_out so)"
  "sock_write so bs = (Write_Intr, so') \<Longrightarrow> length (so_out so') < length (so_out so)"
  by (auto simp: sock_write_def split: list.splits write_event.splits)


section \<open>Connections\<close>

record Connection =
  co_fd :: nat
  co_peer :: string
  co_parser :: parser
  co_write_buffer :: string
  co_close_after_write :: bool

definition mk_connection :: "nat \<Rightarrow> string \<Rightarrow> ProtocolConfig \<Rightarrow> Connection" where
  "mk_connection fd peer limits =
     \<lparr>co_fd = fd, co_peer = peer, co_parser = mk_parser (parser_options_from_config limits),
      co_write_buffer = [], co_close_after_write = False\<rparr>"

definition push_reply :: "Connection \<Rightarrow> string \<Rightarrow> bool \<Rightarrow> Connection" where
  "push_reply conn bs close =
     conn\<lparr>co_write_buffer := co_write_buffer conn @ bs,
          co_close_after_write := co_close_after_write conn \<or> close\<rparr>"

text \<open>
  \<open>drain_commands\<close>: run the complete commands of the buffer.  The result is \<open>False\<close> when reading is
  to stop.
\<close>

function drain_commands ::
  "CommandRegistry \<Rightarrow> (nat \<Rightarrow> clock) \<Rightarrow> Connection \<Rightarrow> CommandContext \<Rightarrow> nat \<Rightarrow> bool \<times> Connection \<times> CommandContext \<times> nat" where
  "drain_commands reg clocks conn ctx i =
     (case next_command (co_parser conn) of (parsed, p) \<Rightarrow>
        (let conn1 = conn\<lparr>co_parser := p\<rparr> in
         case cp_status parsed of
           NeedMore \<Rightarrow> (True, conn1, ctx, i)
         | Parse_Error \<Rightarrow> (False, push_reply conn1 (error (''protocol error: '' @ cp_error parsed)) True, ctx, i)
         | Parse_Ok \<Rightarrow>
             (case execute reg (ctx\<lparr>cx_metrics := command_processed (cx_metrics ctx)\<rparr>) (clocks i) (args (cp_command parsed)) of
                (result, ctx1) \<Rightarrow>
                  (let conn2 = push_reply conn1 (cr_response result) (cr_close_after_write result) in
                   if cr_close_after_write result then (True, conn2, ctx1, i + 1)
                   else if length (co_write_buffer conn2) > max_output_buffer_bytes (protocol (cx_config ctx1)) then
                     (False, conn2\<lparr>co_write_buffer := error ''output buffer limit exceeded'',
                                   co_close_after_write := True\<rparr>, ctx1, i + 1)
                   else drain_commands reg clocks conn2 ctx1 (i + 1)))))"
  by pat_completeness auto
termination
  by (relation "measure (\<lambda>(_, _, conn, _, _). length (buffer (co_parser conn)))")
     (simp_all add: next_command_less push_reply_def)

declare drain_commands.simps [simp del]

text \<open>\<open>read_from\<close>: read until the socket would block; \<open>False\<close> when the connection is to be closed.\<close>

function read_from ::
  "CommandRegistry \<Rightarrow> (nat \<Rightarrow> clock) \<Rightarrow> socket \<Rightarrow> Connection \<Rightarrow> CommandContext \<Rightarrow> nat
     \<Rightarrow> bool \<times> socket \<times> Connection \<times> CommandContext \<times> nat" where
  "read_from reg clocks so conn ctx i =
     (case sock_read so of
        (Bytes bs, so1) \<Rightarrow>
          if bs = [] then (False, so1, conn, ctx, i)
          else (case parser_append (co_parser conn) bs of (st, p) \<Rightarrow>
            (let conn1 = conn\<lparr>co_parser := p\<rparr> in
             if \<not> ok_status st then
               (True, so1, push_reply conn1 (error (''protocol error: '' @ message st)) True, ctx, i)
             else (case drain_commands reg clocks conn1 ctx i of (more_input, conn2, ctx2, j) \<Rightarrow>
               if \<not> more_input then (True, so1, conn2, ctx2, j)
               else read_from reg clocks so1 conn2 ctx2 j)))
      | (Read_Again, so1) \<Rightarrow> (True, so1, conn, ctx, i)
      | (Read_Intr, so1) \<Rightarrow> read_from reg clocks so1 conn ctx i
      | (Read_Fail, so1) \<Rightarrow> (False, so1, conn, ctx, i))"
  by pat_completeness auto
termination
  by (relation "measure (\<lambda>(_, _, so, _, _, _). input_size (so_in so))")
     (simp_all add: sock_read_progress [OF sym])

declare read_from.simps [simp del]

text \<open>\<open>write_to\<close>: write until the buffer is empty or the socket would block.\<close>

function write_to :: "socket \<Rightarrow> Connection \<Rightarrow> bool \<times> socket \<times> Connection" where
  "write_to so conn =
     (if co_write_buffer conn = [] then (\<not> co_close_after_write conn, so, conn)
      else case sock_write so (co_write_buffer conn) of
          (Takes n, so1) \<Rightarrow>
            if n > 0 then write_to so1 (conn\<lparr>co_write_buffer := drop n (co_write_buffer conn)\<rparr>)
            else (False, so1, conn)
        | (Write_Again, so1) \<Rightarrow> (True, so1, conn)
        | (Write_Intr, so1) \<Rightarrow> write_to so1 conn
        | (Write_Fail, so1) \<Rightarrow> (False, so1, conn))"
  by pat_completeness auto
termination
  by (relation "measure (\<lambda>(so, _). length (so_out so))") (simp_all add: sock_write_progress [OF sym])

declare write_to.simps [simp del]


section \<open>Events\<close>

text \<open>
  The bits of an event that the code looks at: an error, input, room for output, and that the peer
  has hung up.  For \<open>poll\<close> the first stands for \<open>POLLERR\<close> and \<open>POLLNVAL\<close> and the last for \<open>POLLHUP\<close>, for
  \<open>epoll\<close> the last stands for \<open>EPOLLHUP\<close> and \<open>EPOLLRDHUP\<close>.
\<close>

record event_mask =
  ev_err :: bool
  ev_in :: bool
  ev_out :: bool
  ev_hup :: bool

text \<open>The body of the loop of \<open>loop_epoll\<close> for a connection; the first result is \<open>should_close\<close>.\<close>

definition epoll_event ::
  "CommandRegistry \<Rightarrow> (nat \<Rightarrow> clock) \<Rightarrow> event_mask \<Rightarrow> socket \<Rightarrow> Connection \<Rightarrow> CommandContext \<Rightarrow> nat
     \<Rightarrow> bool \<times> socket \<times> Connection \<times> CommandContext \<times> nat" where
  "epoll_event reg clocks ev so conn ctx i =
     (let close0 = ev_err ev in
      case (if \<not> close0 \<and> ev_in ev then
              (case read_from reg clocks so conn ctx i of (alive, rest) \<Rightarrow> (\<not> alive, rest))
            else (close0, so, conn, ctx, i)) of (close1, so1, conn1, ctx1, j) \<Rightarrow>
        case (if \<not> close1 \<and> ev_out ev then
                (case write_to so1 conn1 of (alive, so2, conn2) \<Rightarrow> (\<not> alive, so2, conn2))
              else (close1, so1, conn1)) of (close2, so2, conn2) \<Rightarrow>
          (close2 \<or> ev_hup ev \<and> co_write_buffer conn2 = [], so2, conn2, ctx1, j))"

text \<open>The same for \<open>loop_poll\<close>, with its early continues.\<close>

definition poll_event ::
  "CommandRegistry \<Rightarrow> (nat \<Rightarrow> clock) \<Rightarrow> event_mask \<Rightarrow> socket \<Rightarrow> Connection \<Rightarrow> CommandContext \<Rightarrow> nat
     \<Rightarrow> bool \<times> socket \<times> Connection \<times> CommandContext \<times> nat" where
  "poll_event reg clocks ev so conn ctx i =
     (if ev_err ev then (True, so, conn, ctx, i)
      else case (if ev_in ev then read_from reg clocks so conn ctx i else (True, so, conn, ctx, i)) of
          (alive1, so1, conn1, ctx1, j) \<Rightarrow>
            if \<not> alive1 then (True, so1, conn1, ctx1, j)
            else case (if ev_out ev then write_to so1 conn1 else (True, so1, conn1)) of
                (alive2, so2, conn2) \<Rightarrow>
                  if \<not> alive2 then (True, so2, conn2, ctx1, j)
                  else (ev_hup ev \<and> co_write_buffer conn2 = [], so2, conn2, ctx1, j))"

lemma poll_event_epoll: "poll_event reg clocks ev so conn ctx i = epoll_event reg clocks ev so conn ctx i"
  by (auto simp: poll_event_def epoll_event_def Let_def split: prod.splits if_splits)

lemmas [evals] = read_size_def sock_read_def sock_write_def mk_connection_def push_reply_def drain_commands.simps
  read_from.simps write_to.simps epoll_event_def

end
