(* ===== verification/Tcp_Server.thy ===== *)
theory Tcp_Server
  imports Net
begin

text \<open>
  The workers and the acceptor of \<open>src/net/tcp_server.cpp\<close>.  A worker owns the connections handed to
  it; one round of its loop handles the events of one \<open>epoll_wait\<close>.  The outcome of a call that can
  fail is the next one of a script, an empty script letting it succeed; closing a descriptor, whose
  result the code ignores, only marks its socket closed.
\<close>


section \<open>State\<close>

text \<open>
  What the threads share: the command context, the sockets, and how many commands ran so far.
  \<open>wd_script\<close> are the outcomes of the coming calls, \<open>Some\<close> with the text of the error.
\<close>

record World =
  wd_ctx :: CommandContext
  wd_sockets :: "nat \<Rightarrow> socket"
  wd_executed :: nat
  wd_script :: "string option list"

text \<open>
  \<open>wk_wakeup\<close> is the read end of the pipe with the number of bytes in it, \<open>wk_interest\<close> what is
  registered with \<open>epoll\<close>: the descriptors, each with whether room for output is asked for, and
  \<open>wk_closing\<close> the local \<open>close_list\<close> of a round.
\<close>

record Worker =
  wk_id :: nat
  wk_stopping :: bool
  wk_running :: bool
  wk_wakeup :: "(nat \<times> nat) option"
  wk_epoll :: bool
  wk_interest :: "(nat \<times> bool) list"
  wk_pending :: "(nat \<times> string) list"
  wk_connections :: "(nat \<times> Connection) list"
  wk_closing :: "nat list"

definition mk_worker :: "nat \<Rightarrow> Worker" where
  "mk_worker i =
     \<lparr>wk_id = i, wk_stopping = False, wk_running = False, wk_wakeup = None, wk_epoll = False,
      wk_interest = [], wk_pending = [], wk_connections = [], wk_closing = []\<rparr>"

definition net_call :: "World \<Rightarrow> string option \<times> World" where
  "net_call wd =
     (case wd_script wd of [] \<Rightarrow> (None, wd) | e # rest \<Rightarrow> (e, wd\<lparr>wd_script := rest\<rparr>))"

definition on_metrics :: "(Metrics \<Rightarrow> Metrics) \<Rightarrow> World \<Rightarrow> World" where
  "on_metrics f wd = wd\<lparr>wd_ctx := (wd_ctx wd)\<lparr>cx_metrics := f (cx_metrics (wd_ctx wd))\<rparr>\<rparr>"

definition close_socket :: "nat \<Rightarrow> World \<Rightarrow> World" where
  "close_socket fd wd = wd\<lparr>wd_sockets := (wd_sockets wd)(fd := (wd_sockets wd fd)\<lparr>so_open := False\<rparr>)\<rparr>"

definition open_socket :: "nat \<Rightarrow> World \<Rightarrow> World" where
  "open_socket fd wd = wd\<lparr>wd_sockets := (wd_sockets wd)(fd := \<lparr>so_in = [], so_out = [], so_sent = [], so_open = True\<rparr>)\<rparr>"

definition set_nonblocking :: "World \<Rightarrow> status \<times> World" where
  "set_nonblocking wd =
     (case net_call wd of
        (Some e, wd1) \<Rightarrow> (io_error (''fcntl(F_GETFL): '' @ e), wd1)
      | (None, wd1) \<Rightarrow>
          (case net_call wd1 of
             (Some e, wd2) \<Rightarrow> (io_error (''fcntl(F_SETFL): '' @ e), wd2)
           | (None, wd2) \<Rightarrow> (status_ok, wd2)))"


section \<open>Workers\<close>

text \<open>\<open>start\<close>; \<open>fd\<close> is the read end that \<open>pipe\<close> returns.\<close>

definition worker_start :: "nat \<Rightarrow> Worker \<Rightarrow> World \<Rightarrow> status \<times> Worker \<times> World" where
  "worker_start fd wk wd =
     (case net_call wd of
        (Some e, wd1) \<Rightarrow> (io_error (''pipe: '' @ e), wk, wd1)
      | (None, wd1) \<Rightarrow>
          (case set_nonblocking wd1 of (st, wd2) \<Rightarrow>
             if \<not> ok_status st then (st, wk\<lparr>wk_wakeup := None\<rparr>, wd2)
             else case set_nonblocking wd2 of (st, wd3) \<Rightarrow>
               if \<not> ok_status st then (st, wk\<lparr>wk_wakeup := None\<rparr>, wd3)
               else case net_call wd3 of
                   (Some e, wd4) \<Rightarrow> (io_error (''epoll_create1: '' @ e), wk\<lparr>wk_wakeup := None\<rparr>, wd4)
                 | (None, wd4) \<Rightarrow>
                     (case net_call wd4 of
                        (Some e, wd5) \<Rightarrow>
                          (io_error (''epoll_ctl wakeup: '' @ e), wk\<lparr>wk_wakeup := None, wk_epoll := False\<rparr>, wd5)
                      | (None, wd5) \<Rightarrow>
                          (status_ok, wk\<lparr>wk_wakeup := Some (fd, 0), wk_epoll := True, wk_stopping := False,
                                         wk_running := True\<rparr>, wd5))))"

definition wake :: "Worker \<Rightarrow> Worker" where
  "wake wk = (case wk_wakeup wk of None \<Rightarrow> wk | Some (fd, n) \<Rightarrow> wk\<lparr>wk_wakeup := Some (fd, n + 1)\<rparr>)"

definition drain_wakeup :: "Worker \<Rightarrow> Worker" where
  "drain_wakeup wk = wk\<lparr>wk_wakeup := map_option (\<lambda>(fd, n). (fd, 0)) (wk_wakeup wk)\<rparr>"

definition add_connection :: "nat \<Rightarrow> string \<Rightarrow> Worker \<Rightarrow> Worker" where
  "add_connection fd peer wk = wake (wk\<lparr>wk_pending := wk_pending wk @ [(fd, peer)]\<rparr>)"

definition register_connection :: "nat \<Rightarrow> Worker \<Rightarrow> World \<Rightarrow> bool \<times> Worker \<times> World" where
  "register_connection fd wk wd =
     (if \<not> wk_epoll wk then (True, wk, wd)
      else case net_call wd of
          (Some e, wd1) \<Rightarrow> (False, wk, wd1)
        | (None, wd1) \<Rightarrow> (True, wk\<lparr>wk_interest := AList.update fd False (wk_interest wk)\<rparr>, wd1))"

definition unregister_connection :: "nat \<Rightarrow> Worker \<Rightarrow> Worker" where
  "unregister_connection fd wk =
     (if wk_epoll wk then wk\<lparr>wk_interest := AList.delete fd (wk_interest wk)\<rparr> else wk)"

definition update_connection_interest :: "Connection \<Rightarrow> Worker \<Rightarrow> World \<Rightarrow> Worker \<times> World" where
  "update_connection_interest conn wk wd =
     (if \<not> wk_epoll wk then (wk, wd)
      else case net_call wd of
          (Some e, wd1) \<Rightarrow> (wk, wd1)
        | (None, wd1) \<Rightarrow>
            (wk\<lparr>wk_interest := AList.update (co_fd conn) (co_write_buffer conn \<noteq> []) (wk_interest wk)\<rparr>, wd1))"

text \<open>The loop of \<open>install_pending\<close> over the connections taken from the queue.\<close>

fun install_list :: "(nat \<times> string) list \<Rightarrow> Worker \<Rightarrow> World \<Rightarrow> Worker \<times> World" where
  "install_list [] wk wd = (wk, wd)"
| "install_list ((fd, peer) # rest) wk wd =
     (if map_of (wk_connections wk) fd \<noteq> None then install_list rest wk (close_socket fd wd)
      else
        (let conn = mk_connection fd peer (protocol (cx_config (wd_ctx wd))) in
         case register_connection fd (wk\<lparr>wk_connections := AList.update fd conn (wk_connections wk)\<rparr>) wd of
           (registered, wk1, wd1) \<Rightarrow>
             if \<not> registered then
               install_list rest (wk1\<lparr>wk_connections := AList.delete fd (wk_connections wk1)\<rparr>) (close_socket fd wd1)
             else install_list rest wk1 (on_metrics connection_opened wd1)))"

definition install_pending :: "Worker \<Rightarrow> World \<Rightarrow> Worker \<times> World" where
  "install_pending wk wd = install_list (wk_pending wk) (wk\<lparr>wk_pending := []\<rparr>) wd"

definition close_connection :: "nat \<Rightarrow> Worker \<Rightarrow> World \<Rightarrow> Worker \<times> World" where
  "close_connection fd wk wd =
     (case map_of (wk_connections wk) fd of
        None \<Rightarrow> (wk, wd)
      | Some conn \<Rightarrow>
          (let wk1 = unregister_connection fd wk in
           (wk1\<lparr>wk_connections := AList.delete fd (wk_connections wk1)\<rparr>,
            on_metrics connection_closed (close_socket (co_fd conn) wd))))"

fun close_list :: "nat list \<Rightarrow> Worker \<Rightarrow> World \<Rightarrow> Worker \<times> World" where
  "close_list [] wk wd = (wk, wd)"
| "close_list (fd # fds) wk wd = (case close_connection fd wk wd of (wk1, wd1) \<Rightarrow> close_list fds wk1 wd1)"

definition close_all_connections :: "Worker \<Rightarrow> World \<Rightarrow> Worker \<times> World" where
  "close_all_connections wk wd =
     (wk\<lparr>wk_connections := []\<rparr>,
      fold (\<lambda>(fd, conn) w. on_metrics connection_closed (close_socket (co_fd conn) w)) (wk_connections wk) wd)"

text \<open>One event of a round; a connection to be closed stays until the end of the round.\<close>

definition worker_event ::
  "CommandRegistry \<Rightarrow> (nat \<Rightarrow> clock) \<Rightarrow> nat \<times> event_mask \<Rightarrow> Worker \<times> World \<Rightarrow> Worker \<times> World" where
  "worker_event reg clocks e x =
     (case (e, x) of ((fd, ev), (wk, wd)) \<Rightarrow>
        if map_option fst (wk_wakeup wk) = Some fd then install_pending (drain_wakeup wk) wd
        else case map_of (wk_connections wk) fd of
            None \<Rightarrow> (wk, wd)
          | Some conn \<Rightarrow>
              (case epoll_event reg clocks ev (wd_sockets wd (co_fd conn)) conn (wd_ctx wd) (wd_executed wd) of
                 (should_close, so, conn1, ctx1, n) \<Rightarrow>
                   (let wk1 = wk\<lparr>wk_connections := AList.update fd conn1 (wk_connections wk)\<rparr>;
                        wd1 = wd\<lparr>wd_ctx := ctx1, wd_sockets := (wd_sockets wd)(co_fd conn := so), wd_executed := n\<rparr>
                    in if should_close then (wk1\<lparr>wk_closing := wk_closing wk @ [fd]\<rparr>, wd1)
                       else update_connection_interest conn1 wk1 wd1)))"

definition end_round :: "Worker \<Rightarrow> World \<Rightarrow> Worker \<times> World" where
  "end_round wk wd = close_list (wk_closing wk) (wk\<lparr>wk_closing := []\<rparr>) wd"

definition epoll_round ::
  "CommandRegistry \<Rightarrow> (nat \<Rightarrow> clock) \<Rightarrow> (nat \<times> event_mask) list \<Rightarrow> Worker \<Rightarrow> World \<Rightarrow> Worker \<times> World" where
  "epoll_round reg clocks events wk wd =
     (case fold (worker_event reg clocks) events (wk\<lparr>wk_closing := []\<rparr>, wd) of (wk1, wd1) \<Rightarrow> end_round wk1 wd1)"

text \<open>
  The loop of a worker over what its calls of \<open>epoll_wait\<close> return; the first component of a round
  is whether the loop then sees \<open>stopping_\<close> set.  The first result is whether the loop has ended.
\<close>

datatype wait_result = Wait_Intr | Wait_Error string | Ready "(nat \<times> event_mask) list"

fun loop_epoll ::
  "CommandRegistry \<Rightarrow> (nat \<Rightarrow> clock) \<Rightarrow> (bool \<times> wait_result) list \<Rightarrow> Worker \<Rightarrow> World \<Rightarrow> bool \<times> Worker \<times> World" where
  "loop_epoll reg clocks [] wk wd = (False, wk, wd)"
| "loop_epoll reg clocks ((stop_seen, res) # rounds) wk wd =
     (if stop_seen then (True, close_all_connections wk wd)
      else case res of
          Wait_Intr \<Rightarrow> loop_epoll reg clocks rounds wk wd
        | Wait_Error e \<Rightarrow> loop_epoll reg clocks rounds wk wd
        | Ready events \<Rightarrow>
            if events = [] then loop_epoll reg clocks rounds wk wd
            else (case epoll_round reg clocks events wk wd of (wk1, wd1) \<Rightarrow> loop_epoll reg clocks rounds wk1 wd1))"

text \<open>
  The loop of the builds without \<open>epoll\<close>.  The descriptors given to \<open>poll\<close> are those of the connections,
  each with whether room for output is asked for; \<open>wakeup\<close> is whether the pipe has input.
\<close>

definition poll_fds :: "Worker \<Rightarrow> (nat \<times> bool) list" where
  "poll_fds wk = map (\<lambda>(fd, conn). (fd, co_write_buffer conn \<noteq> [])) (wk_connections wk)"

definition poll_connection ::
  "CommandRegistry \<Rightarrow> (nat \<Rightarrow> clock) \<Rightarrow> nat \<times> event_mask \<Rightarrow> Worker \<times> World \<Rightarrow> Worker \<times> World" where
  "poll_connection reg clocks e x =
     (case (e, x) of ((fd, ev), (wk, wd)) \<Rightarrow>
        case map_of (wk_connections wk) fd of
          None \<Rightarrow> (wk, wd)
        | Some conn \<Rightarrow>
            (case poll_event reg clocks ev (wd_sockets wd (co_fd conn)) conn (wd_ctx wd) (wd_executed wd) of
               (should_close, so, conn1, ctx1, n) \<Rightarrow>
                 (wk\<lparr>wk_connections := AList.update fd conn1 (wk_connections wk),
                     wk_closing := (if should_close then wk_closing wk @ [fd] else wk_closing wk)\<rparr>,
                  wd\<lparr>wd_ctx := ctx1, wd_sockets := (wd_sockets wd)(co_fd conn := so), wd_executed := n\<rparr>)))"

definition poll_round ::
  "CommandRegistry \<Rightarrow> (nat \<Rightarrow> clock) \<Rightarrow> bool \<Rightarrow> (nat \<times> event_mask) list \<Rightarrow> Worker \<Rightarrow> World \<Rightarrow> Worker \<times> World" where
  "poll_round reg clocks wakeup revents wk wd =
     (case (if wakeup then install_pending (drain_wakeup wk) wd else (wk, wd)) of (wk1, wd1) \<Rightarrow>
        case fold (poll_connection reg clocks) revents (wk1\<lparr>wk_closing := []\<rparr>, wd1) of (wk2, wd2) \<Rightarrow> end_round wk2 wd2)"

fun loop_poll ::
  "CommandRegistry \<Rightarrow> (nat \<Rightarrow> clock) \<Rightarrow> (bool \<times> bool \<times> wait_result) list \<Rightarrow> Worker \<Rightarrow> World \<Rightarrow> bool \<times> Worker \<times> World" where
  "loop_poll reg clocks [] wk wd = (False, wk, wd)"
| "loop_poll reg clocks ((stop_seen, wakeup, res) # rounds) wk wd =
     (if stop_seen then (True, close_all_connections wk wd)
      else case res of
          Wait_Intr \<Rightarrow> loop_poll reg clocks rounds wk wd
        | Wait_Error e \<Rightarrow> loop_poll reg clocks rounds wk wd
        | Ready revents \<Rightarrow>
            if \<not> wakeup \<and> revents = [] then loop_poll reg clocks rounds wk wd
            else (case poll_round reg clocks wakeup revents wk wd of (wk1, wd1) \<Rightarrow> loop_poll reg clocks rounds wk1 wd1))"

text \<open>
  \<open>stop\<close>: the thread is joined, so its loop has ended; the descriptors are closed then.
\<close>

definition worker_stop :: "Worker \<Rightarrow> World \<Rightarrow> Worker \<times> World" where
  "worker_stop wk wd =
     (let wk0 = wake (wk\<lparr>wk_stopping := True\<rparr>) in
      case (if wk_running wk0 then close_all_connections wk0 wd else (wk0, wd)) of (wk1, wd1) \<Rightarrow>
        (wk1\<lparr>wk_running := False, wk_epoll := False, wk_interest := [], wk_wakeup := None\<rparr>, wd1))"


section \<open>The acceptor\<close>

text \<open>An address as \<open>inet_ntop\<close> prints it, with the port; \<open>None\<close> when it cannot be printed.\<close>

definition peer_string :: "(nat \<times> nat \<times> nat \<times> nat) option \<Rightarrow> nat \<Rightarrow> string" where
  "peer_string addr p =
     (case addr of
        None \<Rightarrow> ''unknown''
      | Some (a, b, c, d) \<Rightarrow>
          nat_to_string a @ ''.'' @ nat_to_string b @ ''.'' @ nat_to_string c @ ''.'' @ nat_to_string d
          @ '':'' @ nat_to_string p)"

datatype accept_event = Accepted nat "(nat \<times> nat \<times> nat \<times> nat) option" nat | Accept_Again | Accept_Intr | Accept_Fail string

record TcpServer =
  ts_stopping :: bool
  ts_listening :: bool
  ts_workers :: "Worker list"
  ts_next_worker :: nat

definition mk_tcp_server :: TcpServer where
  "mk_tcp_server = \<lparr>ts_stopping = False, ts_listening = False, ts_workers = [], ts_next_worker = 0\<rparr>"

text \<open>
  The callback of \<open>SHUTDOWN\<close> calls \<open>request_stop\<close>: the command leaves its mark in the context.
\<close>

definition should_stop :: "bool \<Rightarrow> TcpServer \<Rightarrow> World \<Rightarrow> bool" where
  "should_stop external_stop ts wd \<longleftrightarrow> ts_stopping ts \<or> cx_shutdown_requested (wd_ctx wd) \<or> external_stop"

definition request_stop :: "TcpServer \<Rightarrow> TcpServer" where
  "request_stop ts = ts\<lparr>ts_stopping := True\<rparr>"

text \<open>An accepted connection is a new socket.  The first result of \<open>accept_ready\<close> is what is left for later calls of \<open>accept\<close>.\<close>

fun accept_ready :: "accept_event list \<Rightarrow> TcpServer \<Rightarrow> World \<Rightarrow> accept_event list \<times> TcpServer \<times> World" where
  "accept_ready [] ts wd = ([], ts, wd)"
| "accept_ready (Accepted fd addr p # es) ts wd =
     (case set_nonblocking (open_socket fd wd) of (st, wd1) \<Rightarrow>
        if \<not> ok_status st then accept_ready es ts (close_socket fd wd1)
        else if m_connected_clients (cx_metrics (wd_ctx wd1)) \<ge> max_clients (server (cx_config (wd_ctx wd1)))
                \<or> ts_workers ts = [] then accept_ready es ts (close_socket fd wd1)
        else
          (let w = ts_next_worker ts mod length (ts_workers ts) in
           accept_ready es
             (ts\<lparr>ts_workers := (ts_workers ts)[w := add_connection fd (peer_string addr p) (ts_workers ts ! w)],
                 ts_next_worker := (ts_next_worker ts + 1) mod 2 ^ 64\<rparr>) wd1))"
| "accept_ready (Accept_Again # es) ts wd = (es, ts, wd)"
| "accept_ready (Accept_Intr # es) ts wd = (es, ts, wd)"
| "accept_ready (Accept_Fail e # es) ts wd = (es, ts, wd)"

text \<open>
  \<open>inet_pton\<close> for IPv4: four decimal numbers up to 255 without leading zeros, separated by dots.
\<close>

definition split_dots :: "string \<Rightarrow> string list" where
  "split_dots s = foldr (\<lambda>c parts. if c = CHR ''.'' then [] # parts else (c # hd parts) # tl parts) s [[]]"

definition octet_ok :: "string \<Rightarrow> bool" where
  "octet_ok s \<longleftrightarrow> s \<noteq> [] \<and> length s \<le> 3 \<and> (\<forall>c\<in>set s. is_digit c) \<and> (hd s = CHR ''0'' \<longrightarrow> length s = 1)
     \<and> foldl (\<lambda>n c. 10 * n + digit_val c) 0 s \<le> 255"

definition inet_pton_ok :: "string \<Rightarrow> bool" where
  "inet_pton_ok s \<longleftrightarrow> length (split_dots s) = 4 \<and> (\<forall>p\<in>set (split_dots s). octet_ok p)"

definition setup_listener :: "TcpServer \<Rightarrow> World \<Rightarrow> status \<times> TcpServer \<times> World" where
  "setup_listener ts wd =
     (case net_call wd of
        (Some e, wd1) \<Rightarrow> (io_error (''socket: '' @ e), ts\<lparr>ts_listening := False\<rparr>, wd1)
      | (None, wd1) \<Rightarrow>
          (case set_nonblocking (snd (net_call wd1)) of (st, wd2) \<Rightarrow>
             if \<not> ok_status st then (st, ts\<lparr>ts_listening := True\<rparr>, wd2)
             else if \<not> inet_pton_ok (host (server (cx_config (wd_ctx wd2)))) then
               (invalid_argument ''server.host must be an IPv4 address for the MVP'', ts\<lparr>ts_listening := False\<rparr>, wd2)
             else case net_call wd2 of
                 (Some e, wd3) \<Rightarrow> (io_error (''bind: '' @ e), ts\<lparr>ts_listening := False\<rparr>, wd3)
               | (None, wd3) \<Rightarrow>
                   (case net_call wd3 of
                      (Some e, wd4) \<Rightarrow> (io_error (''listen: '' @ e), ts\<lparr>ts_listening := False\<rparr>, wd4)
                    | (None, wd4) \<Rightarrow> (status_ok, ts\<lparr>ts_listening := True\<rparr>, wd4))))"

fun stop_workers :: "Worker list \<Rightarrow> World \<Rightarrow> Worker list \<times> World" where
  "stop_workers [] wd = ([], wd)"
| "stop_workers (wk # wks) wd =
     (case worker_stop wk wd of (wk1, wd1) \<Rightarrow> case stop_workers wks wd1 of (wks1, wd2) \<Rightarrow> (wk1 # wks1, wd2))"

text \<open>Starting the workers; \<open>pipes i\<close> is the read end of the pipe of worker \<open>i\<close>.\<close>

fun start_workers :: "(nat \<Rightarrow> nat) \<Rightarrow> nat list \<Rightarrow> TcpServer \<Rightarrow> World \<Rightarrow> status \<times> TcpServer \<times> World" where
  "start_workers pipes [] ts wd = (status_ok, ts, wd)"
| "start_workers pipes (i # is) ts wd =
     (case worker_start (pipes i) (mk_worker i) wd of (st, wk, wd1) \<Rightarrow>
        if \<not> ok_status st then
          (case stop_workers (ts_workers (request_stop ts)) wd1 of (wks, wd2) \<Rightarrow>
             (st, (request_stop ts)\<lparr>ts_workers := wks, ts_listening := False\<rparr>, wd2))
        else start_workers pipes is (ts\<lparr>ts_workers := ts_workers ts @ [wk]\<rparr>) wd1)"

text \<open>\<open>TcpServer::run\<close> before and after the accept loop.\<close>

definition tcp_begin :: "(nat \<Rightarrow> nat) \<Rightarrow> World \<Rightarrow> status \<times> TcpServer \<times> World" where
  "tcp_begin pipes wd =
     (case setup_listener mk_tcp_server wd of (st, ts, wd1) \<Rightarrow>
        if \<not> ok_status st then (st, ts, wd1)
        else start_workers pipes [0..<workers (server (cx_config (wd_ctx wd1)))] ts wd1)"

definition tcp_end :: "TcpServer \<Rightarrow> World \<Rightarrow> TcpServer \<times> World" where
  "tcp_end ts wd =
     (case stop_workers (ts_workers (request_stop ts)) wd of (wks, wd1) \<Rightarrow>
        ((request_stop ts)\<lparr>ts_workers := [], ts_listening := False\<rparr>, wd1))"

text \<open>
  The accept loop over what its calls of \<open>epoll_wait\<close> return; the first component of a round is
  whether the loop then sees a stop request from outside.  \<open>None\<close> is that the loop goes on.
\<close>

datatype accept_wait = Accept_Wait_Intr | Accept_Wait_Error string | Accept_Ready nat

fun accept_times :: "nat \<Rightarrow> accept_event list \<Rightarrow> TcpServer \<Rightarrow> World \<Rightarrow> accept_event list \<times> TcpServer \<times> World" where
  "accept_times 0 es ts wd = (es, ts, wd)"
| "accept_times (Suc n) es ts wd = (case accept_ready es ts wd of (es1, ts1, wd1) \<Rightarrow> accept_times n es1 ts1 wd1)"

fun accept_rounds ::
  "(bool \<times> accept_wait) list \<Rightarrow> accept_event list \<Rightarrow> TcpServer \<Rightarrow> World \<Rightarrow> status option \<times> TcpServer \<times> World" where
  "accept_rounds [] es ts wd = (None, ts, wd)"
| "accept_rounds ((external_stop, res) # rounds) es ts wd =
     (if should_stop external_stop ts wd then (Some status_ok, ts, wd)
      else case res of
          Accept_Wait_Intr \<Rightarrow> accept_rounds rounds es ts wd
        | Accept_Wait_Error e \<Rightarrow> (Some (io_error (''accept epoll_wait failed: '' @ e)), ts, wd)
        | Accept_Ready n \<Rightarrow>
            (case accept_times n es ts wd of (es1, ts1, wd1) \<Rightarrow> accept_rounds rounds es1 ts1 wd1))"

definition accept_loop ::
  "(bool \<times> accept_wait) list \<Rightarrow> accept_event list \<Rightarrow> TcpServer \<Rightarrow> World \<Rightarrow> status option \<times> TcpServer \<times> World" where
  "accept_loop rounds es ts wd =
     (case net_call wd of
        (Some e, wd1) \<Rightarrow> (Some (io_error (''accept epoll_create1: '' @ e)), ts, wd1)
      | (None, wd1) \<Rightarrow>
          (case net_call wd1 of
             (Some e, wd2) \<Rightarrow> (Some (io_error (''accept epoll_ctl: '' @ e)), ts, wd2)
           | (None, wd2) \<Rightarrow> accept_rounds rounds es ts wd2))"

text \<open>The accept loop of the build without \<open>epoll\<close>; \<open>Accept_Ready n\<close> with \<open>n > 0\<close> is that \<open>POLLIN\<close> is set.\<close>

fun accept_loop_poll ::
  "(bool \<times> accept_wait) list \<Rightarrow> accept_event list \<Rightarrow> TcpServer \<Rightarrow> World \<Rightarrow> status option \<times> TcpServer \<times> World" where
  "accept_loop_poll [] es ts wd = (None, ts, wd)"
| "accept_loop_poll ((external_stop, res) # rounds) es ts wd =
     (if should_stop external_stop ts wd then (Some status_ok, ts, wd)
      else case res of
          Accept_Wait_Intr \<Rightarrow> accept_loop_poll rounds es ts wd
        | Accept_Wait_Error e \<Rightarrow> (Some (io_error (''accept poll failed: '' @ e)), ts, wd)
        | Accept_Ready n \<Rightarrow>
            (if n > 0 then case accept_ready es ts wd of (es1, ts1, wd1) \<Rightarrow> accept_loop_poll rounds es1 ts1 wd1
             else accept_loop_poll rounds es ts wd))"

fun plain_wait :: "accept_wait \<Rightarrow> bool" where
  "plain_wait (Accept_Ready n) = (n \<le> 1)"
| "plain_wait (Accept_Wait_Error e) = False"
| "plain_wait Accept_Wait_Intr = True"

lemma accept_loops_agree:
  "\<forall>r\<in>set rounds. plain_wait (snd r) \<Longrightarrow> accept_loop_poll rounds es ts wd = accept_rounds rounds es ts wd"
proof (induction rounds arbitrary: es ts wd)
  case (Cons r rounds)
  obtain stop_seen res where r: "r = (stop_seen, res)" by (cases r)
  show ?case
  proof (cases res)
    case (Accept_Ready n)
    then have "n = 0 \<or> n = Suc 0" using Cons.prems r by auto
    with Cons r Accept_Ready show ?thesis by (auto split: prod.split)
  qed (use Cons r in auto)
qed simp

lemmas [evals] = mk_worker_def net_call_def on_metrics_def open_socket_def close_socket_def set_nonblocking_def worker_start_def
  wake_def drain_wakeup_def add_connection_def register_connection_def unregister_connection_def
  update_connection_interest_def install_pending_def close_connection_def close_all_connections_def worker_event_def
  end_round_def epoll_round_def worker_stop_def peer_string_def mk_tcp_server_def should_stop_def request_stop_def split_dots_def
  octet_ok_def inet_pton_ok_def setup_listener_def tcp_begin_def tcp_end_def accept_loop_def
  poll_fds_def poll_connection_def poll_round_def

end
