(* ===== verification/Server_Loop.thy ===== *)
theory Server_Loop
  imports Tcp_Server
begin

text \<open>
  The server of \<open>src/server/server.cpp\<close> and its threads.  \<open>system_step\<close> interleaves the acceptor,
  the workers, the expiration thread, the background sync of the log, and what the network does.
  A step of a worker handles one event of a round or the end of the round; the commands of one
  event run without an interruption by another worker.
\<close>


section \<open>Expiration thread\<close>

record Server =
  sv_stopping :: bool
  sv_expiring :: bool

definition server_request_stop :: "Server \<Rightarrow> Server" where
  "server_request_stop sv = sv\<lparr>sv_stopping := True\<rparr>"

definition start_expiration_loop :: "Config \<Rightarrow> Server \<Rightarrow> Server" where
  "start_expiration_loop config sv =
     (if \<not> active_enabled (expiration config) then sv else sv\<lparr>sv_expiring := True\<rparr>)"

text \<open>One pass of the loop, after its sleep, at the time \<open>now\<close>.\<close>

definition expiration_round :: "time_point \<Rightarrow> CommandContext \<Rightarrow> CommandContext" where
  "expiration_round now ctx =
     ctx\<lparr>cx_storage :=
       snd (storage_active_expire (cx_storage ctx) now (sample_per_shard (expiration (cx_config ctx))))\<rparr>"

text \<open>The loop; a pass is whether \<open>stopping_\<close> is then seen set, and the time after the sleep.\<close>

fun expiration_loop :: "(bool \<times> time_point) list \<Rightarrow> CommandContext \<Rightarrow> bool \<times> CommandContext" where
  "expiration_loop [] ctx = (False, ctx)"
| "expiration_loop ((stop_seen, now) # passes) ctx =
     (if stop_seen then (True, ctx) else expiration_loop passes (expiration_round now ctx))"

definition stop_expiration_loop :: "Server \<Rightarrow> Server" where
  "stop_expiration_loop sv = sv\<lparr>sv_stopping := True, sv_expiring := False\<rparr>"


section \<open>The running system\<close>

record system =
  sys_server :: Server
  sys_tcp :: TcpServer
  sys_world :: World

text \<open>\<open>Server::run\<close> up to the accept loop, and after it.\<close>

definition run_begin :: "(nat \<Rightarrow> nat) \<Rightarrow> World \<Rightarrow> status \<times> system" where
  "run_begin pipes wd =
     (let sv = start_expiration_loop (cx_config (wd_ctx wd)) \<lparr>sv_stopping = False, sv_expiring = False\<rparr> in
      case tcp_begin pipes wd of (st, ts, wd1) \<Rightarrow> (st, \<lparr>sys_server = sv, sys_tcp = ts, sys_world = wd1\<rparr>))"

definition run_end :: "system \<Rightarrow> system" where
  "run_end sys =
     (case tcp_end (sys_tcp sys) (sys_world sys) of (ts, wd) \<Rightarrow>
        \<lparr>sys_server = stop_expiration_loop (server_request_stop (sys_server sys)), sys_tcp = ts, sys_world = wd\<rparr>)"

definition set_worker :: "nat \<Rightarrow> Worker \<times> World \<Rightarrow> system \<Rightarrow> system" where
  "set_worker w x sys =
     sys\<lparr>sys_tcp := (sys_tcp sys)\<lparr>ts_workers := (ts_workers (sys_tcp sys))[w := fst x]\<rparr>, sys_world := snd x\<rparr>"

abbreviation worker_at :: "system \<Rightarrow> nat \<Rightarrow> Worker" where
  "worker_at sys w \<equiv> ts_workers (sys_tcp sys) ! w"

text \<open>The network delivers input and makes room for output; it neither opens nor closes sockets.\<close>

definition network_moves :: "(nat \<Rightarrow> socket) \<Rightarrow> (nat \<Rightarrow> socket) \<Rightarrow> bool" where
  "network_moves sockets sockets' \<longleftrightarrow>
     (\<forall>fd. so_open (sockets' fd) = so_open (sockets fd) \<and> so_sent (sockets' fd) = so_sent (sockets fd))"

text \<open>
  The steps.  \<open>accept\<close> never returns a descriptor that is open.  When a worker sees \<open>stopping_\<close> set, it
  closes its connections and ends (\<open>worker_stop\<close>).
\<close>

inductive system_step :: "(nat \<Rightarrow> clock) \<Rightarrow> system \<Rightarrow> system \<Rightarrow> bool" for clocks where
  accepting: "\<not> should_stop False (sys_tcp sys) (sys_world sys) \<Longrightarrow> \<not> so_open (wd_sockets (sys_world sys) fd) \<Longrightarrow>
    accept_ready [Accepted fd addr p] (sys_tcp sys) (sys_world sys) = (rest, ts, wd) \<Longrightarrow>
    system_step clocks sys (sys\<lparr>sys_tcp := ts, sys_world := wd\<rparr>)"
| working: "w < length (ts_workers (sys_tcp sys)) \<Longrightarrow> wk_running (worker_at sys w) \<Longrightarrow>
    system_step clocks sys (set_worker w (worker_event registry clocks e (worker_at sys w, sys_world sys)) sys)"
| ending_round: "w < length (ts_workers (sys_tcp sys)) \<Longrightarrow> wk_running (worker_at sys w) \<Longrightarrow>
    system_step clocks sys (set_worker w (end_round (worker_at sys w) (sys_world sys)) sys)"
| ending_worker: "w < length (ts_workers (sys_tcp sys)) \<Longrightarrow> wk_running (worker_at sys w) \<Longrightarrow> wk_closing (worker_at sys w) = [] \<Longrightarrow>
    ts_stopping (sys_tcp sys) \<Longrightarrow>
    system_step clocks sys (set_worker w (worker_stop (worker_at sys w) (sys_world sys)) sys)"
| expiring: "sv_expiring (sys_server sys) \<Longrightarrow> \<not> sv_stopping (sys_server sys) \<Longrightarrow>
    system_step clocks sys (sys\<lparr>sys_world := (sys_world sys)\<lparr>wd_ctx := expiration_round now (wd_ctx (sys_world sys))\<rparr>\<rparr>)"
| syncing: "cx_aof (wd_ctx (sys_world sys)) = Some aof \<Longrightarrow> ao_sync_thread aof \<Longrightarrow>
    sync_round aof (cx_os (wd_ctx (sys_world sys))) = (aof', s) \<Longrightarrow>
    system_step clocks sys
      (sys\<lparr>sys_world := (sys_world sys)\<lparr>wd_ctx := (wd_ctx (sys_world sys))\<lparr>cx_aof := Some aof', cx_os := s\<rparr>\<rparr>\<rparr>)"
| network: "network_moves (wd_sockets (sys_world sys)) sockets \<Longrightarrow>
    system_step clocks sys (sys\<lparr>sys_world := (sys_world sys)\<lparr>wd_sockets := sockets\<rparr>\<rparr>)"
| stopping: "system_step clocks sys
    (sys\<lparr>sys_tcp := request_stop (sys_tcp sys), sys_server := server_request_stop (sys_server sys)\<rparr>)"

text \<open>The states of a server that was started on \<open>wd\<close>.\<close>

inductive running :: "(nat \<Rightarrow> clock) \<Rightarrow> (nat \<Rightarrow> nat) \<Rightarrow> World \<Rightarrow> system \<Rightarrow> bool" for clocks pipes wd where
  started: "run_begin pipes wd = (st, sys) \<Longrightarrow> ok_status st \<Longrightarrow> running clocks pipes wd sys"
| stepped: "running clocks pipes wd sys \<Longrightarrow> system_step clocks sys sys' \<Longrightarrow> running clocks pipes wd sys'"

lemmas [evals] = server_request_stop_def start_expiration_loop_def expiration_round_def stop_expiration_loop_def
  run_begin_def run_end_def set_worker_def

end
