(* ===== verification/Net_Props.thy ===== *)
theory Net_Props
  imports Net Command_Inv Aof_Props
begin

text \<open>
  Properties of a connection: the replies are those of the commands in the order sent, however the
  bytes arrive; no byte of a reply is lost, repeated or reordered on its way to the socket; and the
  output buffer of a connection that is not to be closed is bounded.
\<close>


section \<open>Evaluation\<close>

lemma split_words_eval:
  "split_words [] = []"
  "split_words (c # cs) =
     (let rest = dropWhile isspace (c # cs);
          word = takeWhile (\<lambda>c. \<not> isspace c) rest;
          next = dropWhile (\<lambda>c. \<not> isspace c) rest
      in if word \<noteq> [] then word # split_words next else split_words next)"
  by (simp_all add: split_words.simps [of "[]"] split_words.simps [of "c # cs"])

lemmas parser_evals = parser_append_def next_command_def next_value_def is_resp_prefix_def parse_inline_def find_crlf_def
  discard_def split_words_eval mk_parser_def parser_options_from_config_def


section \<open>Commands in order\<close>

text \<open>The reference: the commands of a client one after the other, each counted and executed.\<close>

fun serve :: "(nat \<Rightarrow> clock) \<Rightarrow> string list list \<Rightarrow> CommandContext \<Rightarrow> nat \<Rightarrow> CommandResult list \<times> CommandContext" where
  "serve clocks [] ctx i = ([], ctx)"
| "serve clocks (c # cs) ctx i =
     (case execute registry (ctx\<lparr>cx_metrics := command_processed (cx_metrics ctx)\<rparr>) (clocks i) c of (r, ctx1) \<Rightarrow>
        case serve clocks cs ctx1 (i + 1) of (rs, ctx2) \<Rightarrow> (r # rs, ctx2))"

definition replies :: "CommandResult list \<Rightarrow> string" where
  "replies rs = concat (map cr_response rs)"

lemma replies_simps [simp]: "replies [] = []" "replies (r # rs) = cr_response r @ replies rs"
    "replies (rs @ rs') = replies rs @ replies rs'"
  by (simp_all add: replies_def)

text \<open>The connection stays open, and its output within the limit.\<close>

definition stays_open :: "CommandResult list \<Rightarrow> bool" where
  "stays_open rs \<longleftrightarrow> (\<forall>r\<in>set rs. \<not> cr_close_after_write r)"

definition answered :: "Connection \<Rightarrow> string \<Rightarrow> string \<Rightarrow> Connection" where
  "answered conn rest out =
     conn\<lparr>co_parser := (co_parser conn)\<lparr>buffer := rest\<rparr>, co_write_buffer := co_write_buffer conn @ out\<rparr>"

lemma serve_append:
  assumes "serve clocks (cs @ ds) ctx i = (rs, ctx')"
  obtains rs1 ctx1 rs2 where "serve clocks cs ctx i = (rs1, ctx1)" "serve clocks ds ctx1 (i + length cs) = (rs2, ctx')"
    "rs = rs1 @ rs2"
  using assms
proof (induction cs arbitrary: ctx i rs thesis)
  case Nil
  then show ?case by simp
next
  case (Cons c cs)
  obtain r ctx1 where ex: "execute registry (ctx\<lparr>cx_metrics := command_processed (cx_metrics ctx)\<rparr>) (clocks i) c = (r, ctx1)"
    by (cases "execute registry (ctx\<lparr>cx_metrics := command_processed (cx_metrics ctx)\<rparr>) (clocks i) c")
  obtain rs0 where rest: "serve clocks (cs @ ds) ctx1 (i + 1) = (rs0, ctx')" and rs: "rs = r # rs0"
    using Cons.prems(2) ex by (auto split: prod.splits)
  obtain rs1 ctx2 rs2 where parts: "serve clocks cs ctx1 (i + 1) = (rs1, ctx2)"
      "serve clocks ds ctx2 (i + 1 + length cs) = (rs2, ctx')" "rs0 = rs1 @ rs2"
    by (rule Cons.IH [OF _ rest])
  show ?case
    by (rule Cons.prems(1) [of "r # rs1" ctx2 rs2]) (use parts ex rs in \<open>simp_all\<close>)
qed

lemma counted_execute:
  assumes "storage_inv (cx_storage ctx)"
    and "execute registry (ctx\<lparr>cx_metrics := command_processed (cx_metrics ctx)\<rparr>) clk c = (r, ctx1)"
  shows "handled ctx ctx1"
proof -
  have "handled (ctx\<lparr>cx_metrics := command_processed (cx_metrics ctx)\<rparr>) ctx1"
    by (rule commands_table.dispatch_handled [OF _ assms(2)]) (simp add: assms(1))
  then show ?thesis by (simp add: handled_def same_server_def)
qed

lemma handled_inv: "handled ctx ctx1 \<Longrightarrow> storage_inv (cx_storage ctx1)"
  by (simp add: handled_def keeps_def)

lemma handled_config: "handled ctx ctx1 \<Longrightarrow> cx_config ctx1 = cx_config ctx"
  by (simp add: handled_def same_server_def)

lemma serve_handled:
  assumes "storage_inv (cx_storage ctx)" and "serve clocks cs ctx i = (rs, ctx')"
  shows "handled ctx ctx'"
  using assms
proof (induction cs arbitrary: ctx i rs)
  case Nil
  then show ?case by (simp add: handled_refl)
next
  case (Cons c cs)
  obtain r ctx1 where ex: "execute registry (ctx\<lparr>cx_metrics := command_processed (cx_metrics ctx)\<rparr>) (clocks i) c = (r, ctx1)"
    by (cases "execute registry (ctx\<lparr>cx_metrics := command_processed (cx_metrics ctx)\<rparr>) (clocks i) c")
  note one = counted_execute [OF Cons.prems(1) ex]
  obtain rs0 where "serve clocks cs ctx1 (i + 1) = (rs0, ctx')"
    using Cons.prems(2) ex by (auto split: prod.splits)
  from handled_trans [OF one Cons.IH [OF handled_inv [OF one] this]] show ?case .
qed

lemma drain_serves:
  assumes "storage_inv (cx_storage ctx)"
    and "decode_all (command_step (options (co_parser conn))) (buffer (co_parser conn)) = (cs, None, rest)"
    and "serve clocks cs ctx i = (rs, ctx')" and "stays_open rs"
    and "length (co_write_buffer conn) + length (replies rs) \<le> max_output_buffer_bytes (protocol (cx_config ctx))"
  shows "drain_commands registry clocks conn ctx i = (True, answered conn rest (replies rs), ctx', i + length cs)"
  using assms
proof (induction "length (buffer (co_parser conn))" arbitrary: conn ctx i cs rs rule: less_induct)
  case less
  obtain res p' where nx: "next_command (co_parser conn) = (res, p')" by (cases "next_command (co_parser conn)")
  note unfold = cmds.decode_all_unfold [of "options (co_parser conn)" "buffer (co_parser conn)",
      unfolded command_step_parser nx]
  show ?case
  proof (cases "cp_status res")
    case NeedMore
    with less.prems(2) unfold have "cs = []" "rest = buffer (co_parser conn)" by auto
    with NeedMore next_command_need_more [OF nx] less.prems(3) nx show ?thesis
      by (simp add: drain_commands.simps [of _ _ conn] answered_def)
  next
    case Parse_Error
    with less.prems(2) unfold show ?thesis by simp
  next
    case Parse_Ok
    let ?c = "args (cp_command res)"
    obtain cs' where d: "decode_all (command_step (options (co_parser conn))) (buffer p') = (cs', None, rest)"
      and cs: "cs = ?c # cs'"
      using less.prems(2) unfold Parse_Ok by (auto split: prod.splits)
    obtain r ctx1 where ex: "execute registry (ctx\<lparr>cx_metrics := command_processed (cx_metrics ctx)\<rparr>) (clocks i) ?c = (r, ctx1)"
      by (cases "execute registry (ctx\<lparr>cx_metrics := command_processed (cx_metrics ctx)\<rparr>) (clocks i) ?c")
    obtain rs' where sv: "serve clocks cs' ctx1 (i + 1) = (rs', ctx')" and rs: "rs = r # rs'"
      using less.prems(3) cs ex by (auto split: prod.splits)
    note one = counted_execute [OF less.prems(1) ex]
    let ?conn = "push_reply (conn\<lparr>co_parser := p'\<rparr>) (cr_response r) False"
    have keep: "\<not> cr_close_after_write r" "stays_open rs'" using less.prems(4) rs by (auto simp: stays_open_def)
    have "drain_commands registry clocks ?conn ctx1 (i + 1) =
        (True, answered ?conn rest (replies rs'), ctx', i + 1 + length cs')"
    proof (rule less.hyps)
      show "length (buffer (co_parser ?conn)) < length (buffer (co_parser conn))"
        using next_command_less [OF nx [symmetric] Parse_Ok] by (simp add: push_reply_def)
      show "decode_all (command_step (options (co_parser ?conn))) (buffer (co_parser ?conn)) = (cs', None, rest)"
        using d next_command_options [OF nx] by (simp add: push_reply_def)
    qed (use handled_inv [OF one] handled_config [OF one] sv keep less.prems(5) rs in \<open>simp_all add: push_reply_def\<close>)
    moreover have "answered ?conn rest (replies rs') = answered conn rest (replies rs)"
      using next_command_options [OF nx] by (simp add: answered_def push_reply_def rs)
    ultimately show ?thesis
      using nx Parse_Ok ex keep(1) less.prems(5) rs cs handled_config [OF one]
      by (simp add: drain_commands.simps [of _ _ conn] push_reply_def)
  qed
qed

text \<open>Each chunk, with what is left over of the earlier ones, fits the request buffer.\<close>

fun chunks_fit :: "parser_options \<Rightarrow> string \<Rightarrow> string list \<Rightarrow> bool" where
  "chunks_fit opts b [] \<longleftrightarrow> True"
| "chunks_fit opts b (c # cs) \<longleftrightarrow>
     length b + length c \<le> opt_max_request_bytes opts \<and> chunks_fit opts (snd (snd (decode_all (command_step opts) (b @ c)))) cs"

definition readable :: "string \<Rightarrow> bool" where
  "readable c \<longleftrightarrow> c \<noteq> [] \<and> length c \<le> read_size"

lemma chunk_split:
  assumes "length b + length c \<le> opt_max_request_bytes opts"
    and "decode_all (command_step opts) (b @ c @ x) = (cs, None, rest)"
  obtains cs1 r1 cs2 where "decode_all (command_step opts) (b @ c) = (cs1, None, r1)"
    "decode_all (command_step opts) (r1 @ x) = (cs2, None, rest)" "cs = cs1 @ cs2"
proof -
  have w: "within_request opts (b @ c)" using assms(1) by (simp add: within_request_def)
  obtain cs1 e1 r1 where one: "decode_all (command_step opts) (b @ c) = (cs1, e1, r1)"
    by (cases "decode_all (command_step opts) (b @ c)")
  have e1: "e1 = None"
    using cmds.decode_error_final [OF w, of cs1 _ r1 x] one assms(2) by (cases e1) auto
  obtain cs2 e2 r2 where two: "decode_all (command_step opts) (r1 @ x) = (cs2, e2, r2)"
    by (cases "decode_all (command_step opts) (r1 @ x)")
  from cmds.decode_chunks [OF w one [unfolded e1] two] assms(2) have "cs = cs1 @ cs2" "e2 = None" "r2 = rest" by simp_all
  with that one e1 two show thesis by simp
qed

lemma sock_read_chunk:
  "so_in so = Bytes c # es \<Longrightarrow> readable c \<Longrightarrow> sock_read so = (Bytes c, so\<lparr>so_in := es\<rparr>)"
  by (simp add: sock_read_def readable_def)

lemma parser_append_fits:
  "length (buffer p) + length bs \<le> opt_max_request_bytes (options p) \<Longrightarrow>
     parser_append p bs = (status_ok, p\<lparr>buffer := buffer p @ bs\<rparr>)"
  by (auto simp: parser_append_def)

lemma answered_answered: "answered (answered conn r1 out1) r2 out2 = answered conn r2 (out1 @ out2)"
  by (simp add: answered_def)

lemma answered_self: "answered conn (buffer (co_parser conn)) [] = conn"
  by (simp add: answered_def)

lemma answered_simps [simp]:
  "buffer (co_parser (answered conn r out)) = r" "options (co_parser (answered conn r out)) = options (co_parser conn)"
  "co_write_buffer (answered conn r out) = co_write_buffer conn @ out"
  "co_close_after_write (answered conn r out) = co_close_after_write conn" "co_fd (answered conn r out) = co_fd conn"
  by (simp_all add: answered_def)

text \<open>
  Reading chunks serves the commands of the whole stream; \<open>after\<close> is what the socket delivers then.
\<close>

lemma read_serves:
  assumes "storage_inv (cx_storage ctx)" and "so_in so = map Bytes chunks @ after" and "\<forall>c\<in>set chunks. readable c"
    and "chunks_fit (options (co_parser conn)) (buffer (co_parser conn)) chunks"
    and "decode_all (command_step (options (co_parser conn))) (buffer (co_parser conn)) = ([], None, buffer (co_parser conn))"
    and "decode_all (command_step (options (co_parser conn))) (buffer (co_parser conn) @ concat chunks) = (cs, None, rest)"
    and "serve clocks cs ctx i = (rs, ctx')" and "stays_open rs"
    and "length (co_write_buffer conn) + length (replies rs) \<le> max_output_buffer_bytes (protocol (cx_config ctx))"
  shows "read_from registry clocks so conn ctx i =
    read_from registry clocks (so\<lparr>so_in := after\<rparr>) (answered conn rest (replies rs)) ctx' (i + length cs)"
  using assms
proof (induction chunks arbitrary: so conn ctx i cs rs)
  case Nil
  from Nil.prems(5,6) have "cs = []" "rest = buffer (co_parser conn)" by simp_all
  moreover have "so\<lparr>so_in := after\<rparr> = so" using Nil.prems(2) by simp
  ultimately show ?case using Nil.prems(7) by (simp add: answered_self)
next
  case (Cons c chunks)
  let ?opts = "options (co_parser conn)" and ?b = "buffer (co_parser conn)"
  have room: "length ?b + length c \<le> opt_max_request_bytes ?opts" using Cons.prems(4) by simp
  obtain cs1 r1 cs2 where parts: "decode_all (command_step ?opts) (?b @ c) = (cs1, None, r1)"
      "decode_all (command_step ?opts) (r1 @ concat chunks) = (cs2, None, rest)" "cs = cs1 @ cs2"
    using chunk_split [OF room] Cons.prems(6) by (metis concat.simps(2))
  obtain rs1 ctx1 rs2 where sv: "serve clocks cs1 ctx i = (rs1, ctx1)" "serve clocks cs2 ctx1 (i + length cs1) = (rs2, ctx')"
      "rs = rs1 @ rs2"
    using serve_append [of clocks cs1 cs2 ctx i rs ctx'] Cons.prems(7) parts(3) by metis
  note hd1 = serve_handled [OF Cons.prems(1) sv(1)]
  have still: "decode_all (command_step ?opts) r1 = ([], None, r1)"
    by (rule cmds.decode_rest_again [OF parts(1)])
  let ?conn0 = "conn\<lparr>co_parser := (co_parser conn)\<lparr>buffer := ?b @ c\<rparr>\<rparr>"
  have drained: "drain_commands registry clocks ?conn0 ctx i = (True, answered conn r1 (replies rs1), ctx1, i + length cs1)"
    using drain_serves [OF Cons.prems(1), of ?conn0 cs1 r1 clocks i rs1 ctx1] parts(1) sv Cons.prems(8,9)
    by (auto simp: stays_open_def answered_def)
  have "read_from registry clocks so conn ctx i =
      read_from registry clocks (so\<lparr>so_in := map Bytes chunks @ after\<rparr>) (answered conn r1 (replies rs1)) ctx1 (i + length cs1)"
    using sock_read_chunk [of so c "map Bytes chunks @ after"] Cons.prems(2,3) parser_append_fits [OF room] drained
    by (simp add: read_from.simps [of _ _ so] readable_def)
  also have "\<dots> = read_from registry clocks (so\<lparr>so_in := after\<rparr>) (answered (answered conn r1 (replies rs1)) rest (replies rs2))
      ctx' (i + length cs1 + length cs2)"
    by (subst Cons.IH [of ctx1 _ _ cs2 "i + length cs1" rs2])
       (use hd1 Cons.prems parts sv still in \<open>simp_all add: handled_inv handled_config stays_open_def\<close>)
  finally show ?case by (simp add: answered_answered parts(3) sv(3) add.assoc)
qed

text \<open>
  C11. A connection answers its commands in order, however their bytes are cut into reads: when a
  client's chunks together with the bytes already buffered decode to the commands \<open>cs\<close>, one call of
  \<open>read_from\<close> runs exactly \<open>cs\<close>, in order and each once, appends their replies in that order to
  the output buffer, keeps the incomplete rest for later and leaves the connection open.\<close>

theorem read_answers_in_order:
  assumes "storage_inv (cx_storage ctx)" and "so_in so = map Bytes chunks" and "\<forall>c\<in>set chunks. readable c"
    and "chunks_fit (options (co_parser conn)) (buffer (co_parser conn)) chunks"
    and "decode_all (command_step (options (co_parser conn))) (buffer (co_parser conn)) = ([], None, buffer (co_parser conn))"
    and "decode_all (command_step (options (co_parser conn))) (buffer (co_parser conn) @ concat chunks) = (cs, None, rest)"
    and "serve clocks cs ctx i = (rs, ctx')" and "stays_open rs"
    and "length (co_write_buffer conn) + length (replies rs) \<le> max_output_buffer_bytes (protocol (cx_config ctx))"
  shows "read_from registry clocks so conn ctx i =
    (True, so\<lparr>so_in := []\<rparr>, answered conn rest (replies rs), ctx', i + length cs)"
  using read_serves [OF assms(1) _ assms(3-9), of so "[]"] assms(2)
  by (simp add: read_from.simps [of _ _ "so\<lparr>so_in := []\<rparr>"] sock_read_def)


definition example_connection :: Connection where
  "example_connection = mk_connection 7 ''peer''
     \<lparr>max_request_bytes = 64, max_array_elements = 4, max_key_size = 16, max_value_size = 16, max_output_buffer_bytes = 64\<rparr>"

lemmas [evals] = example_connection_def

theorem read_answers_in_order_witness:
  "\<exists>ctx'. read_from registry (\<lambda>_ _. 0) \<lparr>so_in = [Bytes ''PI'', Bytes (''NG'' @ crlf @ ''ECHO'')], so_out = [], so_sent = [], so_open = True\<rparr>
     example_connection example_context 0 =
   (True, \<lparr>so_in = [], so_out = [], so_sent = [], so_open = True\<rparr>,
    answered example_connection ''ECHO'' (''+PONG'' @ crlf), ctx', 1)"
proof -
  let ?conn = "example_connection" and ?cs = "[[''PING'']]"
  let ?so = "\<lparr>so_in = [Bytes ''PI'', Bytes (''NG'' @ crlf @ ''ECHO'')], so_out = [], so_sent = [], so_open = True\<rparr>"
  have dec: "decode_all (command_step (options (co_parser ?conn))) ''PI'' = ([], None, ''PI'')"
    "decode_all (command_step (options (co_parser ?conn))) (''PING'' @ crlf @ ''ECHO'') = (?cs, None, ''ECHO'')"
    by code_simp+
  have nil: "decode_all (command_step opts) [] = ([], None, [])" for opts
    by (simp add: decode_all_def)
  obtain rs ctx' where sv: "serve (\<lambda>_ _. 0) ?cs example_context 0 = (rs, ctx')"
    by (cases "serve (\<lambda>_ _. 0) ?cs example_context 0")
  have "case serve (\<lambda>_ _. 0) ?cs example_context 0 of (rs, ctx') \<Rightarrow> replies rs = ''+PONG'' @ crlf \<and> stays_open rs"
    by (simp add: evals Let_def stays_open_def)
  with sv have r: "replies rs = ''+PONG'' @ crlf" "stays_open rs" by simp_all
  have conn: "buffer (co_parser ?conn) = []" "co_write_buffer ?conn = []"
      "10 \<le> opt_max_request_bytes (options (co_parser ?conn))"
      "7 \<le> max_output_buffer_bytes (protocol (cx_config example_context))"
    by (simp_all add: evals parser_evals)
  have chunks: "readable ''PI''" "readable (''NG'' @ crlf @ ''ECHO'')"
    by (simp_all add: readable_def read_size_def crlf_def)
  have "read_from registry (\<lambda>_ _. 0) ?so ?conn example_context 0 =
      (True, ?so\<lparr>so_in := []\<rparr>, answered ?conn ''ECHO'' (replies rs), ctx', 0 + length ?cs)"
    by (rule read_answers_in_order [OF example_context_inv, where chunks = "[''PI'', ''NG'' @ crlf @ ''ECHO'']"])
       (use dec nil sv r conn chunks in \<open>simp_all add: crlf_def\<close>)
  with r show ?thesis by simp
qed


section \<open>Output\<close>

text \<open>How many bytes a socket takes before a call of \<open>write\<close> fails or would block.\<close>

fun capacity :: "write_event list \<Rightarrow> nat" where
  "capacity [] = 0"
| "capacity (Takes n # es) = (if n = 0 then 0 else n + capacity es)"
| "capacity (Write_Intr # es) = capacity es"
| "capacity (Write_Again # es) = 0"
| "capacity (Write_Fail # es) = 0"

lemma write_to_outs:
  assumes "so_out so = es" and "write_to so conn = (alive, so', conn')"
  shows "so_sent so' = so_sent so @ take (capacity es) (co_write_buffer conn) \<and>
    conn' = conn\<lparr>co_write_buffer := drop (capacity es) (co_write_buffer conn)\<rparr> \<and>
    so_in so' = so_in so \<and> so_open so' = so_open so \<and> length (so_out so') \<le> length es \<and>
    (length (co_write_buffer conn) \<le> capacity es \<longrightarrow> alive = (\<not> co_close_after_write conn))"
  using assms
proof (induction es arbitrary: so conn)
  case Nil
  then show ?case by (auto simp: write_to.simps [of so] sock_write_def split: if_splits)
next
  case (Cons e es)
  show ?case
  proof (cases "co_write_buffer conn = []")
    case True
    with Cons.prems show ?thesis by (auto simp: write_to.simps [of so])
  next
    case False
    show ?thesis
    proof (cases e)
      case (Takes n)
      show ?thesis
      proof (cases "n = 0")
        case True
        with False Takes Cons.prems show ?thesis by (auto simp: write_to.simps [of so] sock_write_def)
      next
        case n: False
        let ?wb = "co_write_buffer conn"
        let ?so = "so\<lparr>so_out := es, so_sent := so_sent so @ take n ?wb\<rparr>" and ?conn = "conn\<lparr>co_write_buffer := drop n ?wb\<rparr>"
        have "write_to ?so ?conn = (alive, so', conn')"
          using False Takes n Cons.prems by (simp add: write_to.simps [of so] sock_write_def min_def split: if_splits)
        from Cons.IH [OF _ this] Takes n show ?thesis by (simp add: take_add add.commute le_diff_conv)
      qed
    next
      case Write_Intr
      have "write_to (so\<lparr>so_out := es\<rparr>) conn = (alive, so', conn')"
        using False Write_Intr Cons.prems by (simp add: write_to.simps [of so] sock_write_def)
      from Cons.IH [OF _ this] Write_Intr show ?thesis by simp
    qed (use False Cons.prems in \<open>auto simp: write_to.simps [of so] sock_write_def\<close>)
  qed
qed

lemmas write_to_capacity = write_to_outs [OF refl]

lemma write_gives_up:
  assumes "write_to so conn = (alive, so', conn')" and "\<not> alive"
  shows "co_close_after_write conn' \<and> co_write_buffer conn' = [] \<or> Write_Fail \<in> set (so_out so) \<or> Takes 0 \<in> set (so_out so)"
  using assms
proof (induction so conn rule: write_to.induct)
  case (1 so conn)
  show ?case
  proof (cases "so_out so")
    case Nil
    with 1 show ?thesis by (auto simp: write_to.simps [of so] sock_write_def split: if_splits)
  next
    case (Cons e es)
    with 1 show ?thesis
      by (cases e) (auto simp: write_to.simps [of so] sock_write_def min_def split: if_splits)
  qed
qed

text \<open>
  C15. Sending conserves the output: what the peer has received followed by what is still buffered is
  the same before and after \<open>write_to\<close>, whatever sizes the kernel takes and whatever calls fail;
  and the connection is given up only after an error of the socket or when everything is sent and
  it was to be closed then.\<close>

theorem write_conserves_output:
  assumes "write_to so conn = (alive, so', conn')"
  shows "so_sent so' @ co_write_buffer conn' = so_sent so @ co_write_buffer conn \<and>
    (\<not> alive \<longrightarrow> co_close_after_write conn' \<and> co_write_buffer conn' = [] \<or> Write_Fail \<in> set (so_out so) \<or> Takes 0 \<in> set (so_out so))"
  using write_gives_up [OF assms] write_to_capacity [OF assms] by auto

definition example_socket :: socket where
  "example_socket = \<lparr>so_in = [], so_out = [Takes 2, Write_Intr, Write_Again, Takes 9], so_sent = ''+A'', so_open = True\<rparr>"

lemmas [evals] = example_socket_def

theorem write_conserves_output_witness:
  "case write_to example_socket (example_connection\<lparr>co_write_buffer := ''+OK''\<rparr>) of
     (alive, so', conn') \<Rightarrow> so_sent so' = ''+A+O'' \<and> so_sent so' @ co_write_buffer conn' = ''+A+OK''"
proof -
  obtain alive so' conn' where w: "write_to example_socket (example_connection\<lparr>co_write_buffer := ''+OK''\<rparr>) = (alive, so', conn')"
    by (cases "write_to example_socket (example_connection\<lparr>co_write_buffer := ''+OK''\<rparr>)")
  have "so_sent (fst (snd (write_to example_socket (example_connection\<lparr>co_write_buffer := ''+OK''\<rparr>)))) = ''+A+O''"
    by (simp add: evals)
  with w write_conserves_output [OF w] show ?thesis by (simp add: example_socket_def)
qed


section \<open>What reading keeps\<close>

text \<open>The output limit of a connection that is not to be closed, and what never changes.\<close>

definition request_bounded :: "Connection \<Rightarrow> bool" where
  "request_bounded conn \<longleftrightarrow> length (buffer (co_parser conn)) \<le> opt_max_request_bytes (options (co_parser conn))"

definition within_output :: "CommandContext \<Rightarrow> Connection \<Rightarrow> Connection \<Rightarrow> bool" where
  "within_output ctx conn conn' \<longleftrightarrow> co_fd conn' = co_fd conn \<and> co_peer conn' = co_peer conn \<and>
     options (co_parser conn') = options (co_parser conn) \<and> (co_close_after_write conn \<longrightarrow> co_close_after_write conn') \<and>
     (request_bounded conn \<longrightarrow> request_bounded conn') \<and>
     (\<not> co_close_after_write conn' \<longrightarrow>
        length (co_write_buffer conn') \<le> max (length (co_write_buffer conn)) (max_output_buffer_bytes (protocol (cx_config ctx))))"

lemma within_output_trans:
  "within_output ctx a b \<Longrightarrow> within_output ctx b c \<Longrightarrow> within_output ctx a c"
  by (auto simp: within_output_def)

lemma within_output_config:
  "handled ctx ctx1 \<Longrightarrow> within_output ctx1 a b \<longleftrightarrow> within_output ctx a b"
  by (simp add: within_output_def handled_config)

lemma drain_keeps:
  assumes "storage_inv (cx_storage ctx)" and "drain_commands registry clocks conn ctx i = (again, conn', ctx', j)"
  shows "handled ctx ctx' \<and> within_output ctx conn conn' \<and> i \<le> j"
  using assms
proof (induction "length (buffer (co_parser conn))" arbitrary: conn ctx i rule: less_induct)
  case less
  obtain res p' where nx: "next_command (co_parser conn) = (res, p')" by (cases "next_command (co_parser conn)")
  have opts: "options p' = options (co_parser conn)" "length (buffer p') \<le> length (buffer (co_parser conn))"
    using next_command_options [OF nx] next_command_shrinks [OF nx] by auto
  show ?case
  proof (cases "cp_status res")
    case NeedMore
    with less.prems nx opts show ?thesis
      by (auto simp: drain_commands.simps [of _ _ conn] handled_refl within_output_def request_bounded_def)
  next
    case Parse_Error
    with less.prems nx opts show ?thesis
      by (auto simp: drain_commands.simps [of _ _ conn] handled_refl within_output_def request_bounded_def push_reply_def)
  next
    case Parse_Ok
    let ?c = "args (cp_command res)"
    obtain r ctx1 where ex: "execute registry (ctx\<lparr>cx_metrics := command_processed (cx_metrics ctx)\<rparr>) (clocks i) ?c = (r, ctx1)"
      by (cases "execute registry (ctx\<lparr>cx_metrics := command_processed (cx_metrics ctx)\<rparr>) (clocks i) ?c")
    note one = counted_execute [OF less.prems(1) ex]
    let ?conn = "push_reply (conn\<lparr>co_parser := p'\<rparr>) (cr_response r) (cr_close_after_write r)"
    show ?thesis
    proof (cases "cr_close_after_write r \<or> length (co_write_buffer ?conn) > max_output_buffer_bytes (protocol (cx_config ctx))")
      case True
      with less.prems nx opts Parse_Ok ex one handled_config [OF one] show ?thesis
        by (auto simp: drain_commands.simps [of _ _ conn] within_output_def request_bounded_def push_reply_def Let_def split: if_splits)
    next
      case False
      have step: "within_output ctx conn ?conn" using False opts by (simp add: within_output_def request_bounded_def push_reply_def)
      have rest: "drain_commands registry clocks ?conn ctx1 (i + 1) = (again, conn', ctx', j)"
        using less.prems(2) nx Parse_Ok ex False handled_config [OF one]
        by (auto simp: drain_commands.simps [of _ _ conn] Let_def push_reply_def)
      have "length (buffer (co_parser ?conn)) < length (buffer (co_parser conn))"
        using next_command_less [OF nx [symmetric] Parse_Ok] by (simp add: push_reply_def)
      note IH = less.hyps [OF this handled_inv [OF one] rest, unfolded within_output_config [OF one]]
      from IH handled_trans [OF one] within_output_trans [OF step] show ?thesis by simp
    qed
  qed
qed

lemma sock_read_frame:
  "sock_read so = (e, so') \<Longrightarrow> so_sent so' = so_sent so \<and> so_open so' = so_open so \<and> so_out so' = so_out so"
  by (auto simp: sock_read_def split: list.splits read_event.splits if_splits)

lemma read_keeps:
  assumes "storage_inv (cx_storage ctx)" and "read_from registry clocks so conn ctx i = (alive, so', conn', ctx', j)"
  shows "handled ctx ctx' \<and> within_output ctx conn conn' \<and> i \<le> j \<and> so_sent so' = so_sent so \<and> so_open so' = so_open so"
  using assms
proof (induction "input_size (so_in so)" arbitrary: so conn ctx i rule: less_induct)
  case less
  have self: "handled ctx ctx" "within_output ctx conn conn" for conn
    using less.prems(1) by (simp_all add: handled_refl within_output_def)
  obtain e so1 where rd: "sock_read so = (e, so1)" by (cases "sock_read so")
  note same = sock_read_frame [OF rd]
  show ?case
  proof (cases e)
    case (Bytes bs)
    obtain st p where ap: "parser_append (co_parser conn) bs = (st, p)" by (cases "parser_append (co_parser conn) bs")
    then have opts: "options p = options (co_parser conn)" "request_bounded conn \<longrightarrow> request_bounded (conn\<lparr>co_parser := p\<rparr>)"
      by (auto simp: parser_append_def request_bounded_def split: if_splits)
    let ?conn = "conn\<lparr>co_parser := p\<rparr>"
    obtain again conn2 ctx2 k where dr: "drain_commands registry clocks ?conn ctx i = (again, conn2, ctx2, k)"
      by (cases "drain_commands registry clocks ?conn ctx i")
    have step: "within_output ctx conn ?conn" using opts by (simp add: within_output_def)
    note d = drain_keeps [OF less.prems(1) dr]
    note unfold = less.prems(2) [unfolded read_from.simps [of _ _ so] rd Bytes prod.case read_event.case ap Let_def dr]
    consider "bs = []" | "bs \<noteq> []" "\<not> ok_status st" | "bs \<noteq> []" "ok_status st" "\<not> again" | "bs \<noteq> []" "ok_status st" "again"
      by blast
    then show ?thesis
    proof cases
      case 1
      with unfold same self show ?thesis by auto
    next
      case 2
      with unfold opts same self(1) show ?thesis by (auto simp: push_reply_def within_output_def request_bounded_def)
    next
      case 3
      with unfold same d within_output_trans [OF step] show ?thesis by auto
    next
      case 4
      have rest: "read_from registry clocks so1 conn2 ctx2 k = (alive, so', conn', ctx', j)"
        using unfold 4 by simp
      have "input_size (so_in so1) < input_size (so_in so)" using rd Bytes sock_read_progress(1) by blast
      note IH = less.hyps [OF this handled_inv [OF d [THEN conjunct1]] rest]
      with within_output_config [OF d [THEN conjunct1]] have "within_output ctx conn2 conn'" by simp
      with d within_output_trans [OF step] have "within_output ctx conn conn'" by (blast intro: within_output_trans)
      with IH d same handled_trans [of ctx ctx2 ctx'] show ?thesis by simp
    qed
  next
    case Read_Intr
    have "input_size (so_in so1) < input_size (so_in so)" using rd Read_Intr sock_read_progress(2) by blast
    from less.hyps [OF this less.prems(1)] less.prems(2) Read_Intr rd same show ?thesis
      by (simp add: read_from.simps [of _ _ so])
  qed (use less.prems(2) rd same self in \<open>auto simp: read_from.simps [of _ _ so]\<close>)
qed


section \<open>Protocol errors\<close>

text \<open>
  A connection whose buffer begins with something malformed stays that way: the parser keeps the
  bytes.  Each event that reads a chunk then adds one more error to the output, and no limit applies,
  so the output of a connection that is to be closed grows as long as the peer sends and does not read.
\<close>

definition malformed :: "Connection \<Rightarrow> bool" where
  "malformed conn \<longleftrightarrow> request_bounded conn \<and> vp_status (fst (next_value (co_parser conn))) = Parse_Error"

lemma read_malformed:
  assumes "malformed conn" and "readable c" and "so_in so = Bytes c # es"
  shows "\<exists>conn' m. read_from registry clocks so conn ctx i = (True, so\<lparr>so_in := es\<rparr>, conn', ctx, i) \<and>
    co_write_buffer conn' = co_write_buffer conn @ error m \<and> co_close_after_write conn' \<and> malformed conn'"
proof -
  let ?p = "co_parser conn"
  obtain v p1 where nv: "next_value ?p = (v, p1)" by fastforce
  have bad: "vp_status v = Parse_Error" "length (buffer ?p) \<le> opt_max_request_bytes (options ?p)"
    using assms(1) nv by (simp_all add: malformed_def request_bounded_def)
  have p1: "p1 = ?p" using next_value_not_ok [OF nv] bad by simp
  have c: "c \<noteq> []" using assms(2) by (simp add: readable_def)
  show ?thesis
  proof (cases "length (buffer ?p) + length c \<le> opt_max_request_bytes (options ?p)")
    case True
    let ?q = "?p\<lparr>buffer := buffer ?p @ c\<rparr>"
    have nq: "next_value ?q = (v, ?q)" using next_value_extend [OF bad(2) nv, of c] bad(1) p1 by simp
    from next_command_value(2) [OF this bad(1)] parser_append_fits [OF True] sock_read_chunk [OF assms(3,2)] c nq bad True show ?thesis
      by (auto simp: read_from.simps [of _ _ so] drain_commands.simps [of _ _ "conn\<lparr>co_parser := ?q\<rparr>"] push_reply_def malformed_def
          request_bounded_def)
  next
    case False
    then have full: "parser_append ?p c = (resource_exhausted ''request buffer exceeded limit'', ?p)" by (auto simp: parser_append_def)
    have "\<not> ok_status (resource_exhausted ''request buffer exceeded limit'')" by (simp add: evals)
    with full sock_read_chunk [OF assms(3,2)] c nv bad show ?thesis
      by (auto simp: read_from.simps [of _ _ so] push_reply_def malformed_def request_bounded_def)
  qed
qed

definition read_event_of :: "(nat \<Rightarrow> clock) \<Rightarrow> CommandContext \<Rightarrow> nat \<Rightarrow> string \<Rightarrow> Connection \<Rightarrow> Connection" where
  "read_event_of clocks ctx i c conn =
     fst (snd (snd (read_from registry clocks \<lparr>so_in = [Bytes c], so_out = [], so_sent = [], so_open = True\<rparr> conn ctx i)))"

lemma closing_output_unbounded:
  assumes "malformed conn" and "\<forall>c\<in>set chunks. readable c"
  shows "length (co_write_buffer conn) + length chunks \<le> length (co_write_buffer (fold (read_event_of clocks ctx i) chunks conn))"
  using assms
proof (induction chunks arbitrary: conn)
  case (Cons c chunks)
  obtain conn' m where step: "read_event_of clocks ctx i c conn = conn'" "co_write_buffer conn' = co_write_buffer conn @ error m" "malformed conn'"
    using read_malformed [OF Cons.prems(1), of c "\<lparr>so_in = [Bytes c], so_out = [], so_sent = [], so_open = True\<rparr>" "[]" clocks ctx i]
      Cons.prems(2) by (auto simp: read_event_of_def)
  have "error m \<noteq> []" by (simp add: error_def)
  with Cons.IH [OF step(3)] Cons.prems(2) step show ?case by (cases "error m") auto
qed simp

end
