(* ===== verification/Server_Inv.thy ===== *)
theory Server_Inv
  imports Server_Loop Net_Props
begin

text \<open>
  The invariant of the running server: who owns which descriptor, how many clients are counted, what
  is registered with \<open>epoll\<close>, and the bounds of every connection.  The locale \<open>worker_operation\<close> is what
  the system relies on in an operation of one worker; it is interpreted on the steps of a worker.
\<close>


section \<open>Association lists\<close>

lemma update_fresh: "k \<notin> set (map fst al) \<Longrightarrow> AList.update k v al = al @ [(k, v)]"
  by (induction al) auto

lemma delete_fresh: "k \<notin> set (map fst al) \<Longrightarrow> AList.delete k al = al"
  by (induction al) (auto simp: AList.delete_eq)

lemma delete_snoc: "k \<notin> set (map fst al) \<Longrightarrow> AList.delete k (al @ [(k, v)]) = al"
  by (simp add: AList.delete_eq) (force simp: filter_id_conv)

lemma map_of_none: "map_of al k = None \<longleftrightarrow> k \<notin> set (map fst al)"
  by (simp add: map_of_eq_None_iff)

lemma length_delete:
  assumes "distinct (map fst al)" and "map_of al k = Some v"
  shows "length al = length (AList.delete k al) + 1"
  using assms
proof (induction al)
  case (Cons x al)
  show ?case
  proof (cases "fst x = k")
    case True
    with Cons.prems(1) have "AList.delete k (x # al) = al" using delete_fresh [of k al] by (cases x) simp
    then show ?thesis by simp
  qed (use Cons in \<open>cases x, auto\<close>)
qed simp

lemma update_known:
  assumes "k \<in> set (map fst al)"
  shows "map fst (AList.update k v al) = map fst al" and "length (AList.update k v al) = length al"
proof -
  show keys: "map fst (AList.update k v al) = map fst al" using assms by (simp add: AList.update_keys)
  show "length (AList.update k v al) = length al" using arg_cong [OF keys, of length] by simp
qed

lemma in_update: "(j, y) \<in> set (AList.update k v al) \<Longrightarrow> j = k \<and> y = v \<or> (j, y) \<in> set al"
  by (induction al) (auto split: if_splits)

lemma delete_dom: "fst ` set (AList.delete k al) = fst ` set al - {k}"
  by (force simp: AList.delete_eq)

lemma update_dom: "fst ` set (AList.update k v al) = insert k (fst ` set al)"
  by (induction al) auto

lemma in_delete: "x \<in> set (AList.delete k al) \<longleftrightarrow> x \<in> set al \<and> fst x \<noteq> k"
  by (auto simp: AList.delete_eq)


section \<open>The invariant of a worker\<close>

text \<open>The output has a bound only as long as the connection is not to be closed after it.\<close>

definition connection_ok :: "Config \<Rightarrow> Connection \<Rightarrow> bool" where
  "connection_ok config conn \<longleftrightarrow>
     options (co_parser conn) = parser_options_from_config (protocol config) \<and> request_bounded conn \<and>
     (\<not> co_close_after_write conn \<longrightarrow> length (co_write_buffer conn) \<le> max_output_buffer_bytes (protocol config))"

text \<open>What \<open>epoll\<close> watches, but for connections of \<open>X\<close>: input always, output when there is some.\<close>

definition watched_but :: "nat set \<Rightarrow> Worker \<Rightarrow> bool" where
  "watched_but X wk \<longleftrightarrow> (wk_epoll wk \<longrightarrow>
     (\<forall>fd conn. map_of (wk_connections wk) fd = Some conn \<longrightarrow>
        fd \<in> X \<or> map_of (wk_interest wk) fd = Some (co_write_buffer conn \<noteq> [])))"

definition worker_inv :: "Config \<Rightarrow> Worker \<Rightarrow> bool" where
  "worker_inv config wk \<longleftrightarrow>
     (\<forall>(fd, conn) \<in> set (wk_connections wk). co_fd conn = fd \<and> connection_ok config conn) \<and>
     (wk_epoll wk \<longrightarrow> set (map fst (wk_interest wk)) = set (map fst (wk_connections wk))) \<and>
     (wk_running wk \<or> wk_connections wk = [])"

definition worker_fds :: "Worker \<Rightarrow> nat list" where
  "worker_fds wk = map fst (wk_pending wk) @ map fst (wk_connections wk)"

definition open_fds :: "World \<Rightarrow> nat set" where
  "open_fds wd = {fd. so_open (wd_sockets wd fd)}"

text \<open>
  A worker beside others that own the descriptors \<open>F\<close> and serve \<open>n\<close> clients.  \<open>calm\<close> is that no call
  of the network code fails.
\<close>

definition owned_but :: "nat set \<Rightarrow> bool \<Rightarrow> Config \<Rightarrow> nat set \<Rightarrow> nat \<Rightarrow> Worker \<Rightarrow> World \<Rightarrow> bool" where
  "owned_but X calm config F n wk wd \<longleftrightarrow>
     worker_inv config wk \<and> distinct (worker_fds wk) \<and> F \<inter> set (worker_fds wk) = {} \<and>
     open_fds wd = F \<union> set (worker_fds wk) \<and> storage_inv (cx_storage (wd_ctx wd)) \<and> cx_config (wd_ctx wd) = config \<and>
     m_connected_clients (cx_metrics (wd_ctx wd)) = n + length (wk_connections wk) \<and>
     (calm \<longrightarrow> wd_script wd = [] \<and> watched_but X wk)"

definition owned :: "bool \<Rightarrow> Config \<Rightarrow> nat set \<Rightarrow> nat \<Rightarrow> Worker \<Rightarrow> World \<Rightarrow> bool" where
  "owned calm config F n wk wd \<longleftrightarrow> owned_but (set (wk_closing wk)) calm config F n wk wd"

lemma open_fds_simps [simp]:
  "open_fds (close_socket fd wd) = open_fds wd - {fd}" "open_fds (open_socket fd wd) = insert fd (open_fds wd)"
  "open_fds (on_metrics f wd) = open_fds wd" "open_fds (wd\<lparr>wd_script := sc\<rparr>) = open_fds wd"
  "open_fds (wd\<lparr>wd_ctx := ctx\<rparr>) = open_fds wd"
  by (auto simp: open_fds_def close_socket_def open_socket_def on_metrics_def split: if_splits)

lemma world_simps [simp]:
  "wd_ctx (close_socket fd wd) = wd_ctx wd" "wd_script (close_socket fd wd) = wd_script wd"
  "wd_ctx (open_socket fd wd) = wd_ctx wd" "wd_script (open_socket fd wd) = wd_script wd"
  "wd_script (on_metrics f wd) = wd_script wd" "wd_ctx (on_metrics f wd) = (wd_ctx wd)\<lparr>cx_metrics := f (cx_metrics (wd_ctx wd))\<rparr>"
  by (simp_all add: close_socket_def open_socket_def on_metrics_def)

lemma net_call_keeps:
  assumes "net_call wd = (e, wd')"
  shows "wd_ctx wd' = wd_ctx wd" "wd_sockets wd' = wd_sockets wd" "open_fds wd' = open_fds wd"
    "wd_executed wd' = wd_executed wd" "wd_script wd = [] \<Longrightarrow> e = None \<and> wd' = wd"
  using assms by (auto simp: net_call_def split: list.splits)

definition only_script :: "World \<Rightarrow> World \<Rightarrow> bool" where
  "only_script wd wd' \<longleftrightarrow> (\<exists>sc. wd' = wd\<lparr>wd_script := sc\<rparr>) \<and> (wd_script wd = [] \<longrightarrow> wd' = wd)"

lemma only_script_refl: "only_script wd wd"
  unfolding only_script_def by (auto intro: exI [of _ "wd_script wd"])

lemma only_script_trans: "only_script a b \<Longrightarrow> only_script b c \<Longrightarrow> only_script a c"
  by (auto simp: only_script_def)

lemma net_call_script: "net_call wd = (e, wd') \<Longrightarrow> only_script wd wd'"
  using only_script_refl [of wd] by (auto simp: net_call_def only_script_def split: list.splits)

lemma set_nonblocking_script:
  assumes "set_nonblocking wd = (st, wd')"
  shows "only_script wd wd'"
proof -
  obtain e1 wd1 where c1: "net_call wd = (e1, wd1)" by (cases "net_call wd")
  obtain e2 wd2 where c2: "net_call wd1 = (e2, wd2)" by (cases "net_call wd1")
  have "wd' = wd1 \<or> wd' = wd2" using assms c1 c2 by (auto simp: set_nonblocking_def split: option.splits)
  with only_script_trans [OF net_call_script [OF c1] net_call_script [OF c2]] net_call_script [OF c1]
  show ?thesis by blast
qed

lemma set_nonblocking_keeps:
  assumes "set_nonblocking wd = (st, wd')"
  shows "wd_ctx wd' = wd_ctx wd" "open_fds wd' = open_fds wd" "wd_script wd = [] \<Longrightarrow> wd_script wd' = []"
  using set_nonblocking_script [OF assms] by (auto simp: only_script_def)


section \<open>Operations of a worker\<close>

lemma close_connection_owned:
  assumes "owned_but X calm config F n wk wd" and "close_connection fd wk wd = (wk', wd')"
  shows "owned_but (X - {fd}) calm config F n wk' wd'"
proof (cases "map_of (wk_connections wk) fd")
  case None
  with assms show ?thesis by (auto simp: close_connection_def owned_but_def watched_but_def)
next
  case (Some conn)
  have inv: "worker_inv config wk" "distinct (worker_fds wk)" using assms(1) by (simp_all add: owned_but_def)
  have fd: "co_fd conn = fd" using inv(1) map_of_SomeD [OF Some] by (auto simp: worker_inv_def)
  let ?del = "AList.delete fd (wk_connections wk)"
  have wk': "wk' = (unregister_connection fd wk)\<lparr>wk_connections := ?del\<rparr>"
    and wd': "wd' = on_metrics connection_closed (close_socket fd wd)"
    using assms(2) Some fd by (auto simp: close_connection_def unregister_connection_def Let_def)
  have keys: "set (map fst ?del) = set (map fst (wk_connections wk)) - {fd}"
    by (simp add: AList.delete_keys)
  have "distinct (map fst (wk_connections wk))" "fd \<notin> set (map fst (wk_pending wk))"
    using inv(2) map_of_SomeD [OF Some] by (force simp: worker_fds_def)+
  then have count: "length (wk_connections wk) = length ?del + 1" and own: "distinct (worker_fds wk')"
      "set (worker_fds wk') = set (worker_fds wk) - {fd}"
    using length_delete [OF _ Some] inv(2) keys wk'
    by (auto simp: worker_fds_def unregister_connection_def AList.delete_keys distinct_removeAll)
  have "worker_inv config wk'"
    using inv(1) wk' keys by (auto simp: worker_inv_def unregister_connection_def in_delete delete_dom)
  moreover have "watched_but X wk \<longrightarrow> watched_but (X - {fd}) wk'"
    using wk' by (auto simp: watched_but_def unregister_connection_def AList.delete_conv')
  moreover have mem: "fd \<in> set (worker_fds wk)" using map_of_SomeD [OF Some] by (force simp: worker_fds_def)
  moreover have "F \<inter> set (worker_fds wk') = {}" "open_fds wd' = F \<union> set (worker_fds wk')"
    using assms(1) own wd' mem by (auto simp: owned_but_def)
  ultimately show ?thesis
    using assms(1) wd' wk' count own by (auto simp: owned_but_def connection_counts unregister_connection_def)
qed

lemma close_list_owned:
  assumes "owned_but X calm config F n wk wd" and "X \<subseteq> set fds" and "close_list fds wk wd = (wk', wd')"
  shows "owned_but {} calm config F n wk' wd' \<and> wk_closing wk' = wk_closing wk"
  using assms
proof (induction fds arbitrary: X wk wd)
  case (Cons fd fds)
  obtain wk1 wd1 where c: "close_connection fd wk wd = (wk1, wd1)" by (cases "close_connection fd wk wd")
  have "wk_closing wk1 = wk_closing wk"
    using c by (auto simp: close_connection_def unregister_connection_def Let_def split: option.splits if_splits)
  with Cons.IH [OF close_connection_owned [OF Cons.prems(1) c]] Cons.prems(2,3) c show ?case by auto
qed auto

lemma end_round_owned:
  assumes "owned calm config F n wk wd" and "end_round wk wd = (wk', wd')"
  shows "owned calm config F n wk' wd'"
proof -
  have "owned_but (set (wk_closing wk)) calm config F n (wk\<lparr>wk_closing := []\<rparr>) wd"
    using assms(1) by (simp add: owned_def owned_but_def worker_inv_def watched_but_def worker_fds_def)
  from close_list_owned [OF this subset_refl assms(2) [unfolded end_round_def]] show ?thesis by (simp add: owned_def)
qed

lemma watched_mono: "watched_but X wk \<Longrightarrow> X \<subseteq> Y \<Longrightarrow> watched_but Y wk"
  by (auto simp: watched_but_def)

lemma new_connection_ok: "connection_ok config (mk_connection fd peer (protocol config))"
  by (simp add: connection_ok_def mk_connection_def mk_parser_def request_bounded_def)

text \<open>Installing one connection, which no one else owns.\<close>

lemma install_one:
  assumes "owned_but X calm config F n (wk\<lparr>wk_pending := (fd, peer) # ps\<rparr>) wd" and "wk_pending wk = []" and "wk_running wk"
  shows "\<exists>wk1 wd1. install_list ((fd, peer) # ps) wk wd = install_list ps wk1 wd1 \<and>
    owned_but X calm config F n (wk1\<lparr>wk_pending := ps\<rparr>) wd1 \<and> wk_pending wk1 = [] \<and> wk_closing wk1 = wk_closing wk \<and> wk_running wk1"
proof -
  let ?cs = "wk_connections wk" and ?conn = "mk_connection fd peer (protocol config)"
  have fresh: "fd \<notin> set (map fst ?cs)" and config: "cx_config (wd_ctx wd) = config"
    using assms(1) by (auto simp: owned_but_def worker_fds_def)
  let ?wk = "wk\<lparr>wk_connections := ?cs @ [(fd, ?conn)]\<rparr>"
  obtain registered wk1 wd1 where reg: "register_connection fd ?wk wd = (registered, wk1, wd1)"
    by (cases "register_connection fd ?wk wd")
  have unfold: "install_list ((fd, peer) # ps) wk wd =
      (if \<not> registered then install_list ps (wk1\<lparr>wk_connections := AList.delete fd (wk_connections wk1)\<rparr>) (close_socket fd wd1)
       else install_list ps wk1 (on_metrics connection_opened wd1))"
    using fresh config reg by (simp add: update_fresh map_of_none Let_def)
  show ?thesis
  proof (cases registered)
    case False
    with reg obtain e where e: "net_call wd = (Some e, wd1)" and wk1: "wk1 = ?wk"
      by (auto simp: register_connection_def split: if_splits prod.splits option.splits)
    note kept = net_call_keeps [OF e]
    have "wk1\<lparr>wk_connections := AList.delete fd (wk_connections wk1)\<rparr> = wk"
      using wk1 delete_snoc [OF fresh] by simp
    moreover have "owned_but X calm config F n (wk\<lparr>wk_pending := ps\<rparr>) (close_socket fd wd1)"
      using assms(1) kept by (auto simp: owned_but_def worker_inv_def watched_but_def worker_fds_def)
    ultimately show ?thesis using unfold False assms(2,3) by metis
  next
    case True
    from reg True have wk1: "wk1 = ?wk\<lparr>wk_interest := (if wk_epoll wk then AList.update fd False (wk_interest wk) else wk_interest wk)\<rparr>"
      by (auto simp: register_connection_def split: if_splits prod.splits option.splits)
    obtain e wd2 where nc: "net_call wd = (e, wd2)" by (cases "net_call wd")
    from reg nc have "wd1 = wd \<or> wd1 = wd2" by (auto simp: register_connection_def split: if_splits option.splits)
    with net_call_keeps [OF nc]
    have kept: "wd_ctx wd1 = wd_ctx wd" "open_fds wd1 = open_fds wd" "wd_script wd = [] \<Longrightarrow> wd_script wd1 = []" by auto
    have "worker_inv config (wk1\<lparr>wk_pending := ps\<rparr>)"
      using assms(1,3) wk1 new_connection_ok [of config fd peer]
      by (auto simp: owned_but_def worker_inv_def update_dom mk_connection_def)
    moreover have "watched_but X (wk\<lparr>wk_pending := (fd, peer) # ps\<rparr>) \<longrightarrow> watched_but X (wk1\<lparr>wk_pending := ps\<rparr>)"
      using wk1 fresh [folded map_of_none] by (auto simp: watched_but_def update_conv' map_add_def mk_connection_def split: if_splits option.splits)
    ultimately have "owned_but X calm config F n (wk1\<lparr>wk_pending := ps\<rparr>) (on_metrics connection_opened wd1)"
      using assms(1) wk1 kept by (auto simp: owned_but_def worker_fds_def connection_counts)
    moreover have "wk_pending wk1 = []" "wk_closing wk1 = wk_closing wk" "wk_running wk1" using wk1 assms(2,3) by simp_all
    ultimately show ?thesis using unfold True by metis
  qed
qed

lemma install_list_owned:
  assumes "owned_but X calm config F n (wk\<lparr>wk_pending := ps\<rparr>) wd" and "wk_pending wk = []" and "wk_running wk"
    and "install_list ps wk wd = (wk', wd')"
  shows "owned_but X calm config F n wk' wd' \<and> wk_closing wk' = wk_closing wk"
  using assms
proof (induction ps arbitrary: wk wd)
  case (Cons p ps)
  obtain fd peer where p: "p = (fd, peer)" by (cases p)
  obtain wk1 wd1 where one: "install_list (p # ps) wk wd = install_list ps wk1 wd1"
      "owned_but X calm config F n (wk1\<lparr>wk_pending := ps\<rparr>) wd1" "wk_pending wk1 = []" "wk_running wk1" "wk_closing wk1 = wk_closing wk"
    using install_one [where wk = wk and fd = fd and peer = peer and ps = ps and wd = wd] Cons.prems(1-3) p by blast
  from Cons.IH [OF one(2-4)] one(1,5) Cons.prems(4) show ?case by simp
next
  case Nil
  have "wk\<lparr>wk_pending := []\<rparr> = wk" using Nil.prems(2) by simp
  with Nil.prems show ?case by simp
qed

lemma install_pending_owned:
  assumes "owned calm config F n wk wd" and "wk_running wk" and "install_pending (drain_wakeup wk) wd = (wk', wd')"
  shows "owned calm config F n wk' wd'"
proof -
  let ?wk = "(drain_wakeup wk)\<lparr>wk_pending := []\<rparr>"
  have "owned_but (set (wk_closing wk)) calm config F n (?wk\<lparr>wk_pending := wk_pending wk\<rparr>) wd"
    using assms(1) by (simp add: owned_def owned_but_def worker_inv_def watched_but_def worker_fds_def drain_wakeup_def)
  from install_list_owned [OF this] assms(2,3) show ?thesis
    by (simp add: owned_def install_pending_def drain_wakeup_def)
qed

lemma epoll_event_keeps:
  assumes "storage_inv (cx_storage ctx)" and "epoll_event registry clocks ev so conn ctx i = (close, so', conn', ctx', j)"
  shows "handled ctx ctx'" and "co_fd conn' = co_fd conn" and "so_open so' = so_open so"
    and "connection_ok (cx_config ctx) conn \<Longrightarrow> connection_ok (cx_config ctx) conn'"
proof -
  obtain alive1 so1 conn1 ctx1 k where rd: "read_from registry clocks so conn ctx i = (alive1, so1, conn1, ctx1, k)"
    by (cases "read_from registry clocks so conn ctx i")
  let ?reads = "\<not> ev_err ev \<and> ev_in ev"
  define so2 conn2 ctx2 where mid: "so2 = (if ?reads then so1 else so)" "conn2 = (if ?reads then conn1 else conn)"
    "ctx2 = (if ?reads then ctx1 else ctx)"
  have first: "so2 = so \<and> conn2 = conn \<and> ctx2 = ctx \<or> so2 = so1 \<and> conn2 = conn1 \<and> ctx2 = ctx1"
    by (simp add: mid)
  have last: "so' = so2 \<and> conn' = conn2 \<or> snd (write_to so2 conn2) = (so', conn')" "ctx' = ctx2"
    using assms(2) rd mid by (auto simp: epoll_event_def Let_def split: if_splits prod.splits)
  note r = read_keeps [OF assms(1) rd]
  have one: "handled ctx ctx2" "co_fd conn2 = co_fd conn" "so_open so2 = so_open so"
    "connection_ok (cx_config ctx) conn \<Longrightarrow> connection_ok (cx_config ctx) conn2"
    using first r handled_refl [OF assms(1)] by (auto simp: within_output_def connection_ok_def)
  have two: "co_fd conn' = co_fd conn2 \<and> so_open so' = so_open so2 \<and> (connection_ok c conn2 \<longrightarrow> connection_ok c conn')" for c
  proof (cases "so' = so2 \<and> conn' = conn2")
    case False
    with last have "write_to so2 conn2 = (fst (write_to so2 conn2), so', conn')" by (metis prod.collapse)
    from write_to_capacity [OF this] show ?thesis by (auto simp: connection_ok_def request_bounded_def)
  qed simp
  show "handled ctx ctx'" "co_fd conn' = co_fd conn" "so_open so' = so_open so"
    "connection_ok (cx_config ctx) conn \<Longrightarrow> connection_ok (cx_config ctx) conn'"
    using one two last(2) by auto
qed

text \<open>A connection with a new state, watched again or about to be closed.\<close>

lemma update_connection_owned:
  fixes j :: nat
  assumes "owned calm config F n wk wd" and "map_of (wk_connections wk) fd = Some conn"
    and "co_fd conn' = fd" and "connection_ok config conn'" and "handled (wd_ctx wd) ctx'" and "so_open so = so_open (wd_sockets wd fd)"
  defines "wk1 \<equiv> wk\<lparr>wk_connections := AList.update fd conn' (wk_connections wk)\<rparr>"
    and "wd1 \<equiv> wd\<lparr>wd_ctx := ctx', wd_sockets := (wd_sockets wd)(fd := so), wd_executed := j\<rparr>"
  shows "owned calm config F n (wk1\<lparr>wk_closing := wk_closing wk @ [fd]\<rparr>) wd1"
    and "update_connection_interest conn' wk1 wd1 = (wk', wd') \<Longrightarrow> owned calm config F n wk' wd'"
proof -
  have mem: "fd \<in> set (map fst (wk_connections wk))" using map_of_SomeD [OF assms(2)] by force
  have open_same: "open_fds wd1 = open_fds wd" using assms(6) by (auto simp: open_fds_def wd1_def)
  have ctx: "storage_inv (cx_storage ctx')" "cx_config ctx' = cx_config (wd_ctx wd)"
      "m_connected_clients (cx_metrics ctx') = m_connected_clients (cx_metrics (wd_ctx wd))"
    using assms(5) by (simp_all add: handled_def keeps_def same_server_def)
  have inv: "worker_inv config wk1"
    using assms(1,3,4) mem by (auto simp: owned_def owned_but_def worker_inv_def wk1_def update_dom dest!: in_update)
  have fds: "worker_fds wk1 = worker_fds wk" "length (wk_connections wk1) = length (wk_connections wk)"
    using update_known [OF mem] by (simp_all add: worker_fds_def wk1_def)
  have base: "owned_but (insert fd (set (wk_closing wk))) calm config F n wk1 wd1"
    using assms(1) inv fds open_same ctx
    by (auto simp: owned_def owned_but_def wd1_def wk1_def watched_but_def update_conv')
  then show "owned calm config F n (wk1\<lparr>wk_closing := wk_closing wk @ [fd]\<rparr>) wd1"
    by (simp add: owned_def owned_but_def worker_inv_def watched_but_def worker_fds_def)
  assume up: "update_connection_interest conn' wk1 wd1 = (wk', wd')"
  obtain e wd2 where nc: "net_call wd1 = (e, wd2)" by (cases "net_call wd1")
  note kept = net_call_keeps [OF nc]
  consider "\<not> wk_epoll wk" "wk' = wk1" "wd' = wd1" | "wk_epoll wk" "wk' = wk1" "wd' = wd2" "e \<noteq> None"
    | "wk_epoll wk" "wk' = wk1\<lparr>wk_interest := AList.update fd (co_write_buffer conn' \<noteq> []) (wk_interest wk)\<rparr>" "wd' = wd2"
    using up nc assms(3) by (auto simp: update_connection_interest_def wk1_def split: if_splits option.splits)
  then show "owned calm config F n wk' wd'"
  proof cases
    case 1
    with base show ?thesis by (auto simp: owned_def owned_but_def watched_but_def wk1_def)
  next
    case 2
    with base kept show ?thesis by (auto simp: owned_def owned_but_def)
  next
    case 3
    have "worker_inv config wk'"
      using inv 3(1,2) mem by (auto simp: worker_inv_def update_dom wk1_def)
    moreover have "watched_but (insert fd (set (wk_closing wk))) wk1 \<longrightarrow> watched_but (set (wk_closing wk)) wk'"
      using 3(1,2) by (auto simp: watched_but_def update_conv' wk1_def)
    ultimately show ?thesis
      using base kept 3(2,3) by (auto simp: owned_def owned_but_def worker_fds_def wk1_def)
  qed
qed

lemma worker_event_owned:
  assumes "owned calm config F n wk wd" and "wk_running wk" and "worker_event registry clocks e (wk, wd) = (wk', wd')"
  shows "owned calm config F n wk' wd'"
proof -
  obtain fd ev where e: "e = (fd, ev)" by (cases e)
  show ?thesis
  proof (cases "map_option fst (wk_wakeup wk) = Some fd")
    case True
    with assms(3) e have "install_pending (drain_wakeup wk) wd = (wk', wd')" by (simp add: worker_event_def)
    with install_pending_owned [OF assms(1,2)] show ?thesis by blast
  next
    case other: False
    show ?thesis
    proof (cases "map_of (wk_connections wk) fd")
      case None
      with assms other e show ?thesis by (simp add: worker_event_def)
    next
      case (Some conn)
      obtain close so conn' ctx' j where ev:
        "epoll_event registry clocks ev (wd_sockets wd (co_fd conn)) conn (wd_ctx wd) (wd_executed wd) = (close, so, conn', ctx', j)"
        by (cases "epoll_event registry clocks ev (wd_sockets wd (co_fd conn)) conn (wd_ctx wd) (wd_executed wd)")
      have st: "storage_inv (cx_storage (wd_ctx wd))" "cx_config (wd_ctx wd) = config" "co_fd conn = fd" "connection_ok config conn"
        using assms(1) map_of_SomeD [OF Some] by (auto simp: owned_def owned_but_def worker_inv_def)
      note kept = epoll_event_keeps [OF st(1) ev]
      have "co_fd conn' = fd" "connection_ok config conn'" "so_open so = so_open (wd_sockets wd fd)"
        using kept st by simp_all
      note up = update_connection_owned [OF assms(1) Some this(1,2) kept(1) this(3)]
      from up(1) [of j] up(2) [of j] assms(3) e other Some ev st(3) show ?thesis
        by (auto simp: worker_event_def Let_def split: if_splits)
    qed
  qed
qed

definition close_client :: "nat \<times> Connection \<Rightarrow> World \<Rightarrow> World" where
  "close_client x wd = on_metrics connection_closed (close_socket (co_fd (snd x)) wd)"

lemma close_clients:
  fixes cs :: "(nat \<times> Connection) list" and wd :: World
  defines "wd' \<equiv> fold close_client cs wd"
  shows "open_fds wd' = open_fds wd - set (map (co_fd \<circ> snd) cs)" and "wd_script wd' = wd_script wd"
    and "cx_storage (wd_ctx wd') = cx_storage (wd_ctx wd)" and "cx_config (wd_ctx wd') = cx_config (wd_ctx wd)"
    and "m_connected_clients (cx_metrics (wd_ctx wd')) = m_connected_clients (cx_metrics (wd_ctx wd)) - length cs"
  unfolding wd'_def by (induction cs arbitrary: wd) (auto simp: close_client_def connection_counts)

lemma close_all_fold:
  "close_all_connections wk wd = (wk\<lparr>wk_connections := []\<rparr>, fold close_client (wk_connections wk) wd)"
  by (simp add: close_all_connections_def close_client_def [abs_def] case_prod_unfold)

lemma worker_stop_owned:
  assumes "owned calm config F n wk wd" and "worker_stop wk wd = (wk', wd')"
  shows "owned calm config F n wk' wd'"
proof (cases "wk_running wk")
  case False
  have "wk_connections wk' = wk_connections wk" "wk_pending wk' = wk_pending wk" "wk_closing wk' = wk_closing wk"
      "\<not> wk_epoll wk'" "wd' = wd"
    using assms(2) False by (auto simp: worker_stop_def wake_def Let_def split: option.splits)
  with assms(1) False show ?thesis
    by (simp add: owned_def owned_but_def worker_inv_def watched_but_def worker_fds_def Int_Un_distrib)
next
  case True
  have "worker_inv config wk" using assms(1) by (simp add: owned_def owned_but_def)
  then have keys: "map (co_fd \<circ> snd) (wk_connections wk) = map fst (wk_connections wk)"
    by (auto simp: worker_inv_def)
  have "wk_connections wk' = []" "wk_pending wk' = wk_pending wk" "wk_closing wk' = wk_closing wk" "\<not> wk_epoll wk'"
      "wd' = fold close_client (wk_connections wk) wd"
    using assms(2) True by (auto simp: worker_stop_def wake_def close_all_fold Let_def split: option.splits)
  moreover note close_clients [of "wk_connections wk" wd, unfolded keys]
  moreover have "F \<union> set (worker_fds wk) - set (map fst (wk_connections wk)) = F \<union> set (map fst (wk_pending wk))"
    using assms(1) by (auto simp: owned_def owned_but_def worker_fds_def)
  ultimately show ?thesis
    using assms(1) by (simp add: owned_def owned_but_def worker_inv_def watched_but_def worker_fds_def Int_Un_distrib)
qed


section \<open>The invariant of the system\<close>

definition clients :: "Worker list \<Rightarrow> nat" where
  "clients ws = sum_list (map (\<lambda>wk. length (wk_connections wk)) ws)"

definition all_fds :: "Worker list \<Rightarrow> nat list" where
  "all_fds ws = concat (map worker_fds ws)"

definition workers_ok :: "bool \<Rightarrow> Config \<Rightarrow> Worker list \<Rightarrow> bool" where
  "workers_ok calm config ws \<longleftrightarrow>
     (\<forall>wk\<in>set ws. worker_inv config wk \<and> (calm \<longrightarrow> watched_but (set (wk_closing wk)) wk)) \<and> distinct (all_fds ws)"

definition sys_inv :: "bool \<Rightarrow> Config \<Rightarrow> system \<Rightarrow> bool" where
  "sys_inv calm config sys \<longleftrightarrow>
     workers_ok calm config (ts_workers (sys_tcp sys)) \<and>
     open_fds (sys_world sys) = set (all_fds (ts_workers (sys_tcp sys))) \<and>
     m_connected_clients (cx_metrics (wd_ctx (sys_world sys))) = clients (ts_workers (sys_tcp sys)) \<and>
     storage_inv (cx_storage (wd_ctx (sys_world sys))) \<and> cx_config (wd_ctx (sys_world sys)) = config \<and>
     (calm \<longrightarrow> wd_script (sys_world sys) = [])"

lemma all_fds_simps [simp]: "all_fds (a @ b) = all_fds a @ all_fds b" "all_fds (wk # b) = worker_fds wk @ all_fds b" "all_fds [] = []"
  and clients_simps [simp]: "clients (a @ b) = clients a + clients b"
    "clients (wk # b) = length (wk_connections wk) + clients b" "clients [] = 0"
  by (simp_all add: all_fds_def clients_def)

text \<open>The system from the point of view of one worker.\<close>

lemma sys_inv_split:
  assumes "ts_workers (sys_tcp sys) = a @ wk # b"
  shows "sys_inv calm config sys \<longleftrightarrow>
    owned calm config (set (all_fds (a @ b))) (clients (a @ b)) wk (sys_world sys) \<and> workers_ok calm config (a @ b)"
  using assms by (auto simp: sys_inv_def owned_def owned_but_def workers_ok_def)

locale worker_operation =
  fixes f :: "Worker \<Rightarrow> World \<Rightarrow> Worker \<times> World"
  assumes keeps_owned: "owned calm config F n wk wd \<Longrightarrow> wk_running wk \<Longrightarrow> f wk wd = (wk', wd') \<Longrightarrow> owned calm config F n wk' wd'"
begin

lemma keeps_system:
  assumes "sys_inv calm config sys" and "w < length (ts_workers (sys_tcp sys))" and "wk_running (worker_at sys w)"
  shows "sys_inv calm config (set_worker w (f (worker_at sys w) (sys_world sys)) sys)"
proof -
  let ?ws = "ts_workers (sys_tcp sys)"
  obtain wk' wd' where f: "f (?ws ! w) (sys_world sys) = (wk', wd')" by (cases "f (?ws ! w) (sys_world sys)")
  have split: "?ws = take w ?ws @ ?ws ! w # drop (Suc w) ?ws" using assms(2) by (rule id_take_nth_drop)
  have split': "ts_workers (sys_tcp (set_worker w (f (?ws ! w) (sys_world sys)) sys)) = take w ?ws @ wk' # drop (Suc w) ?ws"
    using assms(2) f by (simp add: set_worker_def upd_conv_take_nth_drop)
  from assms(1) [unfolded sys_inv_split [OF split]] keeps_owned [OF _ assms(3) f] f show ?thesis
    unfolding sys_inv_split [OF split'] by (auto simp: set_worker_def)
qed

end

interpretation event_op: worker_operation "\<lambda>wk wd. worker_event registry clocks e (wk, wd)" for clocks e
  by unfold_locales (rule worker_event_owned)

interpretation end_round_op: worker_operation end_round
  by unfold_locales (rule end_round_owned)

interpretation stop_op: worker_operation worker_stop
  by unfold_locales (rule worker_stop_owned)


section \<open>The other steps\<close>

lemma add_connection_fields:
  "wk_pending (add_connection fd peer wk) = wk_pending wk @ [(fd, peer)]"
  "wk_connections (add_connection fd peer wk) = wk_connections wk" "wk_interest (add_connection fd peer wk) = wk_interest wk"
  "wk_epoll (add_connection fd peer wk) = wk_epoll wk" "wk_closing (add_connection fd peer wk) = wk_closing wk"
  "wk_running (add_connection fd peer wk) = wk_running wk"
  by (simp_all add: add_connection_def wake_def split: option.split)

lemma add_connection_owned:
  assumes "owned calm config F n wk wd" and "fd \<notin> open_fds wd" and "open_fds wd' = insert fd (open_fds wd)"
    and "wd_ctx wd' = wd_ctx wd" and "wd_script wd = [] \<Longrightarrow> wd_script wd' = []"
  shows "owned calm config F n (add_connection fd peer wk) wd'"
  using assms by (auto simp: owned_def owned_but_def worker_inv_def watched_but_def worker_fds_def add_connection_fields)

lemma accept_keeps:
  assumes "sys_inv calm config sys" and "\<not> so_open (wd_sockets (sys_world sys) fd)"
    and "accept_ready [Accepted fd addr p] (sys_tcp sys) (sys_world sys) = (rest, ts, wd)"
  shows "sys_inv calm config (sys\<lparr>sys_tcp := ts, sys_world := wd\<rparr>)"
proof -
  let ?ts = "sys_tcp sys" and ?wd = "sys_world sys"
  obtain st wd1 where nb: "set_nonblocking (open_socket fd ?wd) = (st, wd1)" by (cases "set_nonblocking (open_socket fd ?wd)")
  note kept = set_nonblocking_keeps [OF nb]
  have fresh: "fd \<notin> open_fds ?wd" using assms(2) by (simp add: open_fds_def)
  let ?refused = "\<not> ok_status st \<or> m_connected_clients (cx_metrics (wd_ctx wd1)) \<ge> max_clients (server (cx_config (wd_ctx wd1)))
    \<or> ts_workers ?ts = []"
  let ?w = "ts_next_worker ?ts mod length (ts_workers ?ts)"
  show ?thesis
  proof (cases ?refused)
    case True
    with assms(3) nb have "ts = ?ts" "wd = close_socket fd wd1" by (auto split: if_splits)
    with assms(1) kept fresh show ?thesis by (simp add: sys_inv_def)
  next
    case False
    define w where "w = ?w"
    have 2: "w < length (ts_workers ?ts)" "wd = wd1"
        "ts_workers ts = (ts_workers ?ts)[w := add_connection fd (peer_string addr p) (ts_workers ?ts ! w)]"
      using assms(3) nb False by (simp_all add: w_def Let_def split: if_splits) auto
    let ?ws = "ts_workers ?ts"
    have split: "?ws = take w ?ws @ ?ws ! w # drop (Suc w) ?ws" using 2(1) by (rule id_take_nth_drop)
    have split': "ts_workers (sys_tcp (sys\<lparr>sys_tcp := ts, sys_world := wd\<rparr>)) =
        take w ?ws @ add_connection fd (peer_string addr p) (?ws ! w) # drop (Suc w) ?ws"
      using 2 by (simp add: upd_conv_take_nth_drop)
    from assms(1) [unfolded sys_inv_split [OF split]] kept fresh 2(2) show ?thesis
      unfolding sys_inv_split [OF split'] by (auto intro: add_connection_owned)
  qed
qed

lemma step_keeps:
  assumes "system_step clocks sys sys'" and "sys_inv calm config sys"
  shows "sys_inv calm config sys'"
  using assms
proof cases
  case (accepting fd addr p rest ts wd)
  with accept_keeps [OF assms(2)] show ?thesis by blast
next
  case (working w e)
  with event_op.keeps_system [OF assms(2)] show ?thesis by blast
next
  case (ending_round w)
  with end_round_op.keeps_system [OF assms(2)] show ?thesis by blast
next
  case (ending_worker w)
  with stop_op.keeps_system [OF assms(2)] show ?thesis by blast
next
  case (expiring now)
  with assms(2) storage_active_expire_spec(1) [OF _ prod.collapse [symmetric]] show ?thesis
    by (auto simp: sys_inv_def expiration_round_def keeps_def)
next
  case (syncing aof aof' s)
  with assms(2) show ?thesis by (simp add: sys_inv_def)
next
  case (network sockets)
  with assms(2) show ?thesis by (simp add: sys_inv_def open_fds_def network_moves_def)
next
  case stopping
  with assms(2) show ?thesis by (simp add: sys_inv_def request_stop_def)
qed


section \<open>The start\<close>

text \<open>A machine without connections.\<close>

definition idle :: "bool \<Rightarrow> Config \<Rightarrow> World \<Rightarrow> bool" where
  "idle calm config wd \<longleftrightarrow> open_fds wd = {} \<and> m_connected_clients (cx_metrics (wd_ctx wd)) = 0 \<and>
     storage_inv (cx_storage (wd_ctx wd)) \<and> cx_config (wd_ctx wd) = config \<and> (calm \<longrightarrow> wd_script wd = [])"

definition fresh_worker :: "Worker \<Rightarrow> bool" where
  "fresh_worker wk \<longleftrightarrow> wk_connections wk = [] \<and> wk_pending wk = [] \<and> wk_interest wk = [] \<and> wk_closing wk = []"

lemma only_script_idle: "only_script wd wd' \<Longrightarrow> idle calm config wd \<Longrightarrow> idle calm config wd'"
  by (auto simp: only_script_def idle_def)

lemma worker_start_fresh:
  assumes "worker_start fd wk wd = (st, wk', wd')" and "fresh_worker wk"
  shows "fresh_worker wk'" and "only_script wd wd'" and "ok_status st \<Longrightarrow> wk_running wk'"
proof -
  obtain e1 wd1 where c1: "net_call wd = (e1, wd1)" by (cases "net_call wd")
  obtain st2 wd2 where c2: "set_nonblocking wd1 = (st2, wd2)" by (cases "set_nonblocking wd1")
  obtain st3 wd3 where c3: "set_nonblocking wd2 = (st3, wd3)" by (cases "set_nonblocking wd2")
  obtain e4 wd4 where c4: "net_call wd3 = (e4, wd4)" by (cases "net_call wd3")
  obtain e5 wd5 where c5: "net_call wd4 = (e5, wd5)" by (cases "net_call wd4")
  note unfold = assms(1) [unfolded worker_start_def c1 c2 c3 c4 c5 prod.case]
  have "wd' \<in> {wd1, wd2, wd3, wd4, wd5}" using unfold by (auto split: option.splits if_splits)
  moreover have "only_script wd wd1" "only_script wd wd2" "only_script wd wd3" "only_script wd wd4" "only_script wd wd5"
    using net_call_script [OF c1] set_nonblocking_script [OF c2] set_nonblocking_script [OF c3] net_call_script [OF c4]
      net_call_script [OF c5] by (blast intro: only_script_trans)+
  ultimately show "only_script wd wd'" by auto
  show "fresh_worker wk'" "ok_status st \<Longrightarrow> wk_running wk'"
    using unfold assms(2) by (auto simp: fresh_worker_def split: option.splits if_splits)
qed

lemma mk_worker_fresh: "fresh_worker (mk_worker i)"
  by (simp add: fresh_worker_def mk_worker_def)

lemma start_workers_fresh:
  assumes "start_workers pipes is ts wd = (st, ts', wd')" and "ok_status st" and "\<forall>wk\<in>set (ts_workers ts). fresh_worker wk \<and> wk_running wk"
  shows "(\<forall>wk\<in>set (ts_workers ts'). fresh_worker wk \<and> wk_running wk) \<and> only_script wd wd'"
  using assms
proof (induction "is" arbitrary: ts wd)
  case Nil
  then show ?case by (simp add: only_script_refl)
next
  case (Cons i "is")
  obtain st1 wk wd1 where s: "worker_start (pipes i) (mk_worker i) wd = (st1, wk, wd1)"
    by (cases "worker_start (pipes i) (mk_worker i) wd")
  note one = worker_start_fresh [OF s mk_worker_fresh]
  have ok1: "ok_status st1" using Cons.prems(1,2) s by (auto split: if_splits prod.splits)
  have rest: "start_workers pipes is (ts\<lparr>ts_workers := ts_workers ts @ [wk]\<rparr>) wd1 = (st, ts', wd')"
    using Cons.prems(1) s ok1 by simp
  from Cons.IH [OF rest Cons.prems(2)] Cons.prems(3) one ok1 only_script_trans [OF one(2)] show ?case by auto
qed

lemma setup_listener_keeps:
  assumes "setup_listener ts wd = (st, ts', wd')"
  shows "ts_workers ts' = ts_workers ts \<and> only_script wd wd'"
proof -
  obtain e1 wd1 where c1: "net_call wd = (e1, wd1)" by (cases "net_call wd")
  obtain e2 wd2 where c2: "net_call wd1 = (e2, wd2)" by (cases "net_call wd1")
  obtain st3 wd3 where c3: "set_nonblocking wd2 = (st3, wd3)" by (cases "set_nonblocking wd2")
  obtain e4 wd4 where c4: "net_call wd3 = (e4, wd4)" by (cases "net_call wd3")
  obtain e5 wd5 where c5: "net_call wd4 = (e5, wd5)" by (cases "net_call wd4")
  note unfold = assms [unfolded setup_listener_def c1 prod.case c2 snd_conv c3 c4 c5]
  have "wd' \<in> {wd1, wd3, wd4, wd5}" "ts_workers ts' = ts_workers ts" using unfold by (auto split: option.splits if_splits)
  moreover have "only_script wd wd1" "only_script wd wd3" "only_script wd wd4" "only_script wd wd5"
    using net_call_script [OF c1] net_call_script [OF c2] set_nonblocking_script [OF c3] net_call_script [OF c4]
      net_call_script [OF c5] by (blast intro: only_script_trans)+
  ultimately show ?thesis by auto
qed

lemma fresh_workers_ok:
  assumes "\<forall>wk\<in>set ws. fresh_worker wk \<and> wk_running wk"
  shows "workers_ok calm config ws" and "all_fds ws = []" and "clients ws = 0"
  using assms by (induction ws)
    (auto simp: workers_ok_def fresh_worker_def worker_inv_def watched_but_def worker_fds_def)

lemma started_inv:
  assumes "run_begin pipes wd = (st, sys)" and "ok_status st" and "idle calm config wd"
  shows "sys_inv calm config sys"
proof -
  obtain st1 ts1 wd1 where b: "setup_listener mk_tcp_server wd = (st1, ts1, wd1)" by (cases "setup_listener mk_tcp_server wd")
  note l = setup_listener_keeps [OF b]
  obtain ts2 wd2 where t: "tcp_begin pipes wd = (st, ts2, wd2)" and sys: "sys_tcp sys = ts2" "sys_world sys = wd2"
    using assms(1) by (auto simp: run_begin_def Let_def split: prod.splits)
  have ok1: "ok_status st1" using t b assms(2) by (auto simp: tcp_begin_def split: if_splits)
  have go: "start_workers pipes [0..<workers (server (cx_config (wd_ctx wd1)))] ts1 wd1 = (st, ts2, wd2)"
    using t b ok1 by (simp add: tcp_begin_def)
  have none: "\<forall>wk\<in>set (ts_workers ts1). fresh_worker wk \<and> wk_running wk" using l by (simp add: mk_tcp_server_def)
  note f = start_workers_fresh [OF go assms(2) none]
  have "idle calm config wd2" using only_script_idle only_script_trans l f assms(3) by blast
  with f fresh_workers_ok [of "ts_workers ts2"] sys show ?thesis by (simp add: sys_inv_def idle_def)
qed

lemma running_inv:
  assumes "running clocks pipes wd sys" and "idle calm config wd"
  shows "sys_inv calm config sys"
  using assms by induction (blast intro: started_inv step_keeps)+

end
