(* ===== verification/Server_Props.thy ===== *)
theory Server_Props
  imports Server_Inv
begin

text \<open>
  Properties of the running server: its connections are accounted for, the buffers of connections that
  stay open are bounded, output is watched until it is sent and gets sent when the peer reads, and stopping closes the connections; and what a client session
  yields end to end.
\<close>


section \<open>An example\<close>

definition example_world :: World where
  "example_world =
     \<lparr>wd_ctx = example_context\<lparr>cx_config := default_config\<lparr>server := default_server\<lparr>workers := 1\<rparr>\<rparr>\<rparr>,
      wd_sockets = (\<lambda>_. \<lparr>so_in = [], so_out = [], so_sent = [], so_open = False\<rparr>), wd_executed = 0, wd_script = []\<rparr>"

definition accept_step :: "nat \<Rightarrow> system \<Rightarrow> system" where
  "accept_step fd sys =
     (case accept_ready [Accepted fd (Some (10, 0, 0, 1)) 5000] (sys_tcp sys) (sys_world sys) of
        (rest, ts, wd) \<Rightarrow> sys\<lparr>sys_tcp := ts, sys_world := wd\<rparr>)"

definition event_step :: "nat \<times> event_mask \<Rightarrow> system \<Rightarrow> system" where
  "event_step e sys = set_worker 0 (worker_event registry (\<lambda>_ _. 0) e (worker_at sys 0, sys_world sys)) sys"

definition arrive_step :: "nat \<Rightarrow> read_event list \<Rightarrow> write_event list \<Rightarrow> system \<Rightarrow> system" where
  "arrive_step fd ins outs sys =
     sys\<lparr>sys_world := (sys_world sys)\<lparr>wd_sockets := (wd_sockets (sys_world sys))
       (fd := (wd_sockets (sys_world sys) fd)\<lparr>so_in := ins, so_out := outs\<rparr>)\<rparr>\<rparr>"

abbreviation input_event :: event_mask where
  "input_event \<equiv> \<lparr>ev_err = False, ev_in = True, ev_out = False, ev_hup = False\<rparr>"

abbreviation output_event :: event_mask where
  "output_event \<equiv> \<lparr>ev_err = False, ev_in = False, ev_out = True, ev_hup = False\<rparr>"

lemmas [evals] = example_world_def accept_step_def event_step_def arrive_step_def

definition example_system :: system where
  "example_system = event_step (7, input_event) (arrive_step 7 [Bytes (''PING'' @ crlf)] []
     (event_step (3, input_event) (accept_step 7 (snd (run_begin (\<lambda>i. i + 3) example_world)))))"

lemma arrive_is_step: "system_step clocks sys (arrive_step fd ins outs sys)"
  unfolding arrive_step_def by (rule system_step.network) (simp add: network_moves_def)

lemma accept_is_step:
  "\<not> should_stop False (sys_tcp sys) (sys_world sys) \<Longrightarrow> \<not> so_open (wd_sockets (sys_world sys) fd) \<Longrightarrow>
     system_step clocks sys (accept_step fd sys)"
  unfolding accept_step_def
  by (cases "accept_ready [Accepted fd (Some (10, 0, 0, 1)) 5000] (sys_tcp sys) (sys_world sys)")
     (auto intro: system_step.accepting)

lemma event_is_step:
  "0 < length (ts_workers (sys_tcp sys)) \<Longrightarrow> wk_running (worker_at sys 0) \<Longrightarrow> system_step (\<lambda>_ _. 0) sys (event_step e sys)"
  unfolding event_step_def by (rule system_step.working)

lemma example_start: "ok_status (fst (run_begin (\<lambda>i. i + 3) example_world))"
  by (simp add: evals Let_def)

lemma example_running: "running (\<lambda>_ _. 0) (\<lambda>i. i + 3) example_world example_system"
  unfolding example_system_def
  by (rule running.stepped [OF running.stepped [OF running.stepped [OF running.stepped [OF
        running.started [OF prod.collapse [symmetric] example_start] accept_is_step] event_is_step] arrive_is_step] event_is_step])
     (simp_all add: evals Let_def)

lemma example_idle: "idle calm (cx_config (wd_ctx example_world)) example_world"
  using example_context_inv by (simp add: idle_def open_fds_def example_world_def) (simp add: evals)


section \<open>Connections\<close>

text \<open>
  C6. Connections are accounted for: however the acceptor, the workers and the other threads
  interleave, no two connections share a descriptor, a socket is open exactly when a connection owns
  it (in a worker or waiting for one), and \<open>connected_clients\<close> is the number of connections.\<close>

theorem connections_accounted:
  assumes "running clocks pipes wd sys" and "idle False config wd"
  shows "distinct (all_fds (ts_workers (sys_tcp sys))) \<and>
    {fd. so_open (wd_sockets (sys_world sys) fd)} = set (all_fds (ts_workers (sys_tcp sys))) \<and>
    m_connected_clients (cx_metrics (wd_ctx (sys_world sys))) = clients (ts_workers (sys_tcp sys))"
  using running_inv [OF assms] by (simp add: sys_inv_def workers_ok_def open_fds_def)

theorem connections_accounted_witness:
  "all_fds (ts_workers (sys_tcp example_system)) = [7] \<and> clients (ts_workers (sys_tcp example_system)) = 1 \<and>
   {fd. so_open (wd_sockets (sys_world example_system) fd)} = {7} \<and>
   m_connected_clients (cx_metrics (wd_ctx (sys_world example_system))) = 1"
proof -
  have "all_fds (ts_workers (sys_tcp example_system)) = [7] \<and> clients (ts_workers (sys_tcp example_system)) = 1"
    by (simp add: example_system_def worker_fds_def evals parser_evals Let_def)
  with connections_accounted [OF example_running example_idle] show ?thesis by simp
qed

text \<open>
  C16. What the server buffers for its connections: in every state of a running server the storage engine
  keeps its invariant (so the entries stay within the memory limit), each connection buffers at most
  \<open>max_request_bytes\<close> of input, and a connection that is not marked to be closed after its output
  buffers at most \<open>max_output_buffer_bytes\<close> of output.  A connection that is marked has no such bound:
  each further read on it can add an error reply (\<open>closing_output_unbounded\<close>).\<close>

theorem open_buffers_bounded:
  assumes "running clocks pipes wd sys" and "idle False config wd" and "wk \<in> set (ts_workers (sys_tcp sys))"
    and "(fd, conn) \<in> set (wk_connections wk)"
  shows "storage_inv (cx_storage (wd_ctx (sys_world sys))) \<and>
    length (buffer (co_parser conn)) \<le> max_request_bytes (protocol config) \<and>
    (\<not> co_close_after_write conn \<longrightarrow> length (co_write_buffer conn) \<le> max_output_buffer_bytes (protocol config))"
proof -
  note inv = running_inv [OF assms(1,2)]
  then have "worker_inv config wk" using assms(3) by (simp add: sys_inv_def workers_ok_def)
  with assms(4) have "connection_ok config conn" by (auto simp: worker_inv_def)
  with inv show ?thesis
    by (auto simp: sys_inv_def connection_ok_def request_bounded_def parser_options_from_config_def)
qed

theorem open_buffers_bounded_witness:
  "\<exists>conn. (7, conn) \<in> set (wk_connections (worker_at example_system 0)) \<and> length (co_write_buffer conn) \<le> 64 * 1024 * 1024"
proof -
  obtain conn where c: "wk_connections (worker_at example_system 0) = [(7, conn)]" and "\<not> co_close_after_write conn"
    "length (ts_workers (sys_tcp example_system)) = 1"
    by (simp add: example_system_def evals parser_evals Let_def)
  with open_buffers_bounded [OF example_running example_idle, of "worker_at example_system 0" 7 conn] show ?thesis
    by (simp add: evals)
qed

text \<open>
  C13. Output is never forgotten: when no call of \<open>epoll_ctl\<close> fails, a worker watches every one of its
  connections, and a connection with unsent output is watched for room for output, unless it is
  about to be closed in the current round.\<close>

theorem output_is_watched:
  assumes "running clocks pipes wd sys" and "idle True config wd" and "wk \<in> set (ts_workers (sys_tcp sys))"
    and "wk_epoll wk" and "map_of (wk_connections wk) fd = Some conn" and "fd \<notin> set (wk_closing wk)"
  shows "map_of (wk_interest wk) fd = Some (co_write_buffer conn \<noteq> [])"
  using running_inv [OF assms(1,2)] assms(3-6) by (auto simp: sys_inv_def workers_ok_def watched_but_def)

theorem output_is_watched_witness: "map_of (wk_interest (worker_at example_system 0)) 7 = Some True"
proof -
  have "\<exists>conn. map_of (wk_connections (worker_at example_system 0)) 7 = Some conn \<and> co_write_buffer conn = ''+PONG'' @ crlf"
    "wk_epoll (worker_at example_system 0)" "wk_closing (worker_at example_system 0) = []"
    "length (ts_workers (sys_tcp example_system)) = 1"
    by (simp_all add: example_system_def evals parser_evals Let_def)
  then show ?thesis
    using output_is_watched [OF example_running example_idle, of "worker_at example_system 0" 7] by auto
qed



section \<open>Rounds with one event\<close>

text \<open>A round with one event, for a connection that stays open.\<close>

lemma one_event_round:
  assumes "map_of (wk_connections wk) fd = Some conn" and "co_fd conn = fd" and "map_option fst (wk_wakeup wk) \<noteq> Some fd"
    and "epoll_event registry clocks ev (wd_sockets wd fd) conn (wd_ctx wd) (wd_executed wd) = (False, so, conn', ctx', j)"
  shows "\<exists>wk' wd'. epoll_round registry clocks [(fd, ev)] wk wd = (wk', wd') \<and> map_of (wk_connections wk') fd = Some conn' \<and>
    wk_wakeup wk' = wk_wakeup wk \<and> wd_ctx wd' = ctx' \<and> wd_sockets wd' = (wd_sockets wd)(fd := so) \<and> wd_executed wd' = j"
proof -
  let ?wk = "wk\<lparr>wk_closing := [], wk_connections := AList.update fd conn' (wk_connections wk)\<rparr>"
  let ?wd = "wd\<lparr>wd_ctx := ctx', wd_sockets := (wd_sockets wd)(fd := so), wd_executed := j\<rparr>"
  obtain wk' wd' where up: "update_connection_interest conn' ?wk ?wd = (wk', wd')" by (cases "update_connection_interest conn' ?wk ?wd")
  have ev: "worker_event registry clocks (fd, ev) (wk\<lparr>wk_closing := []\<rparr>, wd) = (wk', wd')"
    using assms up by (simp add: worker_event_def)
  obtain e wd2 where nc: "net_call ?wd = (e, wd2)" by (cases "net_call ?wd")
  have "wk_closing wk' = []" "wk_connections wk' = AList.update fd conn' (wk_connections wk)" "wk_wakeup wk' = wk_wakeup wk"
      "wd' = ?wd \<or> wd' = wd2"
    using up nc by (auto simp: update_connection_interest_def split: if_splits option.splits)
  with ev net_call_keeps [OF nc] show ?thesis
    by (auto simp: epoll_round_def end_round_def update_conv')
qed

text \<open>The same for a connection that is then to be closed, and for one that is closed.\<close>

lemma closing_event_round:
  assumes "map_of (wk_connections wk) fd = Some conn" and "co_fd conn = fd" and "map_option fst (wk_wakeup wk) \<noteq> Some fd"
    and "epoll_event registry clocks ev (wd_sockets wd fd) conn (wd_ctx wd) (wd_executed wd) = (True, so, conn', ctx', j)"
    and "co_fd conn' = fd"
  shows "\<exists>wk' wd'. epoll_round registry clocks [(fd, ev)] wk wd = (wk', wd') \<and> map_of (wk_connections wk') fd = None \<and>
    wk_wakeup wk' = wk_wakeup wk \<and> wd_ctx wd' = ctx'\<lparr>cx_metrics := connection_closed (cx_metrics ctx')\<rparr> \<and>
    wd_sockets wd' = (wd_sockets wd)(fd := so\<lparr>so_open := False\<rparr>) \<and> wd_executed wd' = j"
  using assms
  by (simp add: epoll_round_def worker_event_def end_round_def close_connection_def unregister_connection_def on_metrics_def
      close_socket_def Let_def update_conv' delete_conv' split: prod.splits)

lemma closed_event_round:
  assumes "map_of (wk_connections wk) fd = None" and "map_option fst (wk_wakeup wk) \<noteq> Some fd"
  shows "epoll_round registry clocks [(fd, ev)] wk wd = (wk\<lparr>wk_closing := []\<rparr>, wd)"
  using assms by (simp add: epoll_round_def worker_event_def end_round_def)


section \<open>Sending\<close>

text \<open>
  Successive rounds of a worker, in each of which the socket of \<open>fd\<close> has room for output; \<open>es\<close> is what its
  \<open>write\<close> calls do then.
\<close>

definition make_room :: "nat \<Rightarrow> write_event list \<Rightarrow> World \<Rightarrow> World" where
  "make_room fd es wd = wd\<lparr>wd_sockets := (wd_sockets wd)(fd := (wd_sockets wd fd)\<lparr>so_out := es\<rparr>)\<rparr>"

fun output_rounds :: "(nat \<Rightarrow> clock) \<Rightarrow> nat \<Rightarrow> write_event list list \<Rightarrow> Worker \<Rightarrow> World \<Rightarrow> Worker \<times> World" where
  "output_rounds clocks fd [] wk wd = (wk, wd)"
| "output_rounds clocks fd (es # rounds) wk wd =
     (case epoll_round registry clocks [(fd, output_event)] wk (make_room fd es wd) of (wk1, wd1) \<Rightarrow>
        output_rounds clocks fd rounds wk1 wd1)"

lemma output_rounds_closed:
  assumes "map_of (wk_connections wk) fd = None" and "map_option fst (wk_wakeup wk) \<noteq> Some fd"
    and "output_rounds clocks fd rounds wk wd = (wk', wd')"
  shows "map_of (wk_connections wk') fd = None \<and> so_sent (wd_sockets wd' fd) = so_sent (wd_sockets wd fd) \<and>
    so_open (wd_sockets wd' fd) = so_open (wd_sockets wd fd)"
  using assms
proof (induction rounds arbitrary: wk wd)
  case (Cons es rounds)
  have "output_rounds clocks fd rounds (wk\<lparr>wk_closing := []\<rparr>) (make_room fd es wd) = (wk', wd')"
    using Cons.prems(3) closed_event_round [OF Cons.prems(1,2)] by simp
  from Cons.IH [OF _ _ this] Cons.prems(1,2) show ?case by (simp add: make_room_def)
qed simp

definition peer_reads :: "write_event list \<Rightarrow> bool" where
  "peer_reads es \<longleftrightarrow> 0 < capacity es \<and> Write_Fail \<notin> set es \<and> Takes 0 \<notin> set es"

lemma output_round:
  assumes "map_of (wk_connections wk) fd = Some conn" and "co_fd conn = fd" and "map_option fst (wk_wakeup wk) \<noteq> Some fd"
    and "peer_reads es" and "co_write_buffer conn \<noteq> [] \<or> \<not> co_close_after_write conn"
    and "epoll_round registry clocks [(fd, output_event)] wk (make_room fd es wd) = (wk', wd')" and "rest = drop (capacity es) (co_write_buffer conn)"
  shows "wk_wakeup wk' = wk_wakeup wk \<and>
    so_sent (wd_sockets wd' fd) = so_sent (wd_sockets wd fd) @ take (capacity es) (co_write_buffer conn) \<and>
    map_of (wk_connections wk') fd = (if rest = [] \<and> co_close_after_write conn then None else Some (conn\<lparr>co_write_buffer := rest\<rparr>)) \<and>
    so_open (wd_sockets wd' fd) = (so_open (wd_sockets wd fd) \<and> \<not> (rest = [] \<and> co_close_after_write conn))"
proof -
  let ?wd = "make_room fd es wd"
  obtain alive so conn' where w: "write_to (wd_sockets ?wd fd) conn = (alive, so, conn')" by (cases "write_to (wd_sockets ?wd fd) conn")
  note one = write_to_capacity [OF w]
  have out: "so_out (wd_sockets ?wd fd) = es" "so_sent (wd_sockets ?wd fd) = so_sent (wd_sockets wd fd)"
      "so_open (wd_sockets ?wd fd) = so_open (wd_sockets wd fd)" by (simp_all add: make_room_def)
  have conn': "conn' = conn\<lparr>co_write_buffer := rest\<rparr>" using one out assms(7) by simp
  have alive: "alive \<longleftrightarrow> \<not> (rest = [] \<and> co_close_after_write conn)"
    using one write_gives_up [OF w] out assms(4,7) conn' by (auto simp: peer_reads_def)
  have ev: "epoll_event registry clocks output_event (wd_sockets ?wd fd) conn (wd_ctx ?wd) (wd_executed ?wd) =
      (\<not> alive, so, conn', wd_ctx ?wd, wd_executed ?wd)"
    using w by (simp add: epoll_event_def)
  show ?thesis
  proof (cases alive)
    case True
    have go: "epoll_event registry clocks output_event (wd_sockets ?wd fd) conn (wd_ctx ?wd) (wd_executed ?wd) =
        (False, so, conn', wd_ctx ?wd, wd_executed ?wd)" using ev True by simp
    from one_event_round [OF assms(1-3) go] assms(6) one out alive True conn' show ?thesis by auto
  next
    case False
    have stop: "epoll_event registry clocks output_event (wd_sockets ?wd fd) conn (wd_ctx ?wd) (wd_executed ?wd) =
        (True, so, conn', wd_ctx ?wd, wd_executed ?wd)" using ev False by simp
    have "co_fd conn' = fd" using conn' assms(2) by simp
    from closing_event_round [OF assms(1-3) stop this] assms(6) one out alive False conn' show ?thesis by auto
  qed
qed

text \<open>
  C14. The output gets sent: when the peer takes at least one byte in each of a number of rounds with room
  for output, no \<open>write\<close> fails, and there are as many rounds as bytes buffered, then all of them have
  been sent, in order.  The connection is then still there, with an empty buffer, unless it was
  to be closed after its output; in that case it has been closed.\<close>

theorem output_eventually_sent:
  assumes "map_of (wk_connections wk) fd = Some conn" and "co_fd conn = fd" and "map_option fst (wk_wakeup wk) \<noteq> Some fd"
    and "co_write_buffer conn \<noteq> []" and "\<forall>es\<in>set rounds. peer_reads es" and "length (co_write_buffer conn) \<le> length rounds"
    and "output_rounds clocks fd rounds wk wd = (wk', wd')"
  shows "so_sent (wd_sockets wd' fd) = so_sent (wd_sockets wd fd) @ co_write_buffer conn \<and>
    map_of (wk_connections wk') fd = (if co_close_after_write conn then None else Some (conn\<lparr>co_write_buffer := []\<rparr>)) \<and>
    so_open (wd_sockets wd' fd) = (so_open (wd_sockets wd fd) \<and> \<not> co_close_after_write conn)"
proof -
  have "?thesis" if "co_write_buffer conn \<noteq> [] \<or> \<not> co_close_after_write conn"
    using that assms(1-3,5-7)
  proof (induction rounds arbitrary: wk wd conn)
    case Nil
    then show ?case by (cases conn) auto
  next
    case (Cons es rounds)
    let ?rest = "drop (capacity es) (co_write_buffer conn)" and ?n = "capacity es"
    obtain wk1 wd1 where r: "epoll_round registry clocks [(fd, output_event)] wk (make_room fd es wd) = (wk1, wd1)"
      by (cases "epoll_round registry clocks [(fd, output_event)] wk (make_room fd es wd)")
    have later: "output_rounds clocks fd rounds wk1 wd1 = (wk', wd')" using Cons.prems(7) r by simp
    have reads: "peer_reads es" "\<forall>es\<in>set rounds. peer_reads es" using Cons.prems(5) by simp_all
    note one = output_round [OF Cons.prems(2-4) reads(1) Cons.prems(1) r refl]
    have wake: "map_option fst (wk_wakeup wk1) \<noteq> Some fd" using one Cons.prems(4) by simp
    have sent: "so_sent (wd_sockets wd fd) @ take ?n (co_write_buffer conn) @ ?rest = so_sent (wd_sockets wd fd) @ co_write_buffer conn"
      by simp
    show ?case
    proof (cases "?rest = [] \<and> co_close_after_write conn")
      case True
      then have "map_of (wk_connections wk1) fd = None" using one by simp
      from output_rounds_closed [OF this wake later] one True sent show ?thesis by simp
    next
      case False
      then have c1: "map_of (wk_connections wk1) fd = Some (conn\<lparr>co_write_buffer := ?rest\<rparr>)" using one by simp
      have "length (drop ?n (co_write_buffer conn)) \<le> length rounds"
        using Cons.prems(6) reads(1) by (auto simp: peer_reads_def)
      with Cons.IH [OF _ c1 _ wake reads(2) _ later] False Cons.prems(3) one sent show ?thesis by auto
    qed
  qed
  with assms(4) show ?thesis by blast
qed

theorem output_eventually_sent_witness:
  "so_sent (wd_sockets (snd (output_rounds (\<lambda>_ _. 0) 7 [[Takes 2], [Write_Intr, Takes 1], [Takes 9]]
      ((mk_worker 0)\<lparr>wk_epoll := True, wk_connections := [(7, (mk_connection 7 ''peer'' default_protocol)\<lparr>co_write_buffer := ''+OK''\<rparr>)]\<rparr>)
      example_world)) 7) = ''+OK''"
proof -
  let ?conn = "(mk_connection 7 ''peer'' default_protocol)\<lparr>co_write_buffer := ''+OK''\<rparr>"
  let ?wk = "(mk_worker 0)\<lparr>wk_epoll := True, wk_connections := [(7, ?conn)]\<rparr>"
  let ?rounds = "[[Takes 2], [Write_Intr, Takes 1], [Takes 9]]"
  have start: "map_of (wk_connections ?wk) 7 = Some ?conn" "co_fd ?conn = 7" "map_option fst (wk_wakeup ?wk) \<noteq> Some 7" "co_write_buffer ?conn \<noteq> []"
      "\<forall>es\<in>set ?rounds. peer_reads es" "length (co_write_buffer ?conn) \<le> length ?rounds" "so_sent (wd_sockets example_world 7) = []"
    by (simp_all add: mk_worker_def mk_connection_def peer_reads_def example_world_def)
  show ?thesis
    using output_eventually_sent [OF start(1-6) prod.collapse [symmetric], of "\<lambda>_ _. 0" example_world] start(7) by simp
qed


section \<open>Sessions\<close>

lemma input_event_serves:
  assumes "storage_inv (cx_storage ctx)" and "so_in so = map Bytes chunks" and "\<forall>c\<in>set chunks. readable c"
    and "options (co_parser conn) = opts" and "buffer (co_parser conn) = []" and "chunks_fit opts [] chunks"
    and "concat chunks = concat (map encode_command cs)" and "\<forall>c\<in>set cs. command_fits opts c"
    and "serve clocks cs ctx i = (rs, ctx')" and "stays_open rs"
    and "length (co_write_buffer conn) + length (replies rs) \<le> max_output_buffer_bytes (protocol (cx_config ctx))"
  shows "epoll_event registry clocks input_event so conn ctx i =
    (False, so\<lparr>so_in := []\<rparr>, answered conn [] (replies rs), ctx', i + length cs)"
proof -
  have nil: "decode_all (command_step opts) [] = ([], None, [])" by (simp add: decode_all_def)
  have dec: "decode_all (command_step opts) (concat chunks) = (cs, None, [])"
    using cmds.decode_encoded [OF assms(8), of "[]"] nil assms(7) by simp
  have "read_from registry clocks so conn ctx i = (True, so\<lparr>so_in := []\<rparr>, answered conn [] (replies rs), ctx', i + length cs)"
    using read_serves [OF assms(1) _ assms(3), of so "[]" conn cs "[]" clocks i rs ctx'] assms nil dec
    by (simp add: read_from.simps [of _ _ "so\<lparr>so_in := []\<rparr>"] sock_read_def)
  then show ?thesis by (simp add: epoll_event_def)
qed

lemma output_event_sends:
  assumes "length (co_write_buffer conn) \<le> capacity (so_out so)" and "\<not> co_close_after_write conn"
  shows "\<exists>so'. epoll_event registry clocks output_event so conn ctx i = (False, so', conn\<lparr>co_write_buffer := []\<rparr>, ctx, i) \<and>
    so_sent so' = so_sent so @ co_write_buffer conn \<and> so_in so' = so_in so"
proof -
  obtain alive so' conn' where w: "write_to so conn = (alive, so', conn')" by (cases "write_to so conn")
  from write_to_capacity [OF w] assms w show ?thesis by (auto simp: epoll_event_def)
qed

text \<open>
  C5. A session end to end: a client on a new connection sends commands that fit the limits, encoded
  and cut into reads in any way; the worker is told of the input and then of room for output.  Then
  the commands have run in order, each once, and the client has received exactly their replies, in
  order; the connection is as new.\<close>

theorem client_session:
  assumes "storage_inv (cx_storage (wd_ctx wd))" and "limits = protocol (cx_config (wd_ctx wd))"
    and "map_of (wk_connections wk) fd = Some (mk_connection fd peer limits)" and "map_option fst (wk_wakeup wk) \<noteq> Some fd"
    and "so_in (wd_sockets wd fd) = map Bytes chunks" and "\<forall>c\<in>set chunks. readable c"
    and "chunks_fit (parser_options_from_config limits) [] chunks"
    and "concat chunks = concat (map encode_command cs)" and "\<forall>c\<in>set cs. command_fits (parser_options_from_config limits) c"
    and "serve clocks cs (wd_ctx wd) (wd_executed wd) = (rs, ctx')" and "stays_open rs"
    and "length (replies rs) \<le> max_output_buffer_bytes limits" and "length (replies rs) \<le> capacity (so_out (wd_sockets wd fd))"
  shows "\<exists>wk' wd'. loop_epoll registry clocks [(False, Ready [(fd, input_event)]), (False, Ready [(fd, output_event)])] wk wd =
      (False, wk', wd') \<and>
    so_sent (wd_sockets wd' fd) = so_sent (wd_sockets wd fd) @ replies rs \<and> wd_ctx wd' = ctx' \<and>
    map_of (wk_connections wk') fd = Some (mk_connection fd peer limits)"
proof -
  let ?conn = "mk_connection fd peer limits" and ?so = "wd_sockets wd fd"
  have new: "options (co_parser ?conn) = parser_options_from_config limits" "buffer (co_parser ?conn) = []"
      "co_write_buffer ?conn = []" "co_fd ?conn = fd" "\<not> co_close_after_write ?conn"
    by (simp_all add: mk_connection_def mk_parser_def)
  let ?mid = "answered ?conn [] (replies rs)"
  have e1: "epoll_event registry clocks input_event ?so ?conn (wd_ctx wd) (wd_executed wd) =
      (False, ?so\<lparr>so_in := []\<rparr>, ?mid, ctx', wd_executed wd + length cs)"
    by (rule input_event_serves [OF assms(1,5,6) new(1,2) assms(7-11)]) (use new assms(2,12) in simp)
  obtain wk1 wd1 where r1: "epoll_round registry clocks [(fd, input_event)] wk wd = (wk1, wd1)"
      "map_of (wk_connections wk1) fd = Some ?mid" "wk_wakeup wk1 = wk_wakeup wk" "wd_ctx wd1 = ctx'"
      "wd_sockets wd1 = (wd_sockets wd)(fd := ?so\<lparr>so_in := []\<rparr>)"
    using one_event_round [OF assms(3) new(4) assms(4) e1] by blast
  obtain so2 where e2: "epoll_event registry clocks output_event (wd_sockets wd1 fd) ?mid (wd_ctx wd1) (wd_executed wd1) =
      (False, so2, ?mid\<lparr>co_write_buffer := []\<rparr>, wd_ctx wd1, wd_executed wd1)" "so_sent so2 = so_sent ?so @ replies rs"
    using output_event_sends [of ?mid "wd_sockets wd1 fd" clocks "wd_ctx wd1" "wd_executed wd1"] r1(5) new assms(13) by auto
  obtain wk2 wd2 where r2: "epoll_round registry clocks [(fd, output_event)] wk1 wd1 = (wk2, wd2)"
      "map_of (wk_connections wk2) fd = Some (?mid\<lparr>co_write_buffer := []\<rparr>)" "wd_ctx wd2 = ctx'" "wd_sockets wd2 fd = so2"
    using one_event_round [OF r1(2) _ _ e2(1)] new(4) assms(4) r1(3,4) by auto
  have "?mid\<lparr>co_write_buffer := []\<rparr> = ?conn" by (simp add: answered_def mk_connection_def mk_parser_def)
  with r1(1) r2 e2(2) show ?thesis by simp
qed

theorem client_session_witness:
  "\<exists>wk' wd'. loop_epoll registry (\<lambda>_ _. 0) [(False, Ready [(7, input_event)]), (False, Ready [(7, output_event)])]
      ((mk_worker 0)\<lparr>wk_epoll := True, wk_wakeup := Some (3, 0), wk_connections := [(7, mk_connection 7 ''peer'' default_protocol)]\<rparr>)
      (example_world\<lparr>wd_sockets := \<lambda>_. \<lparr>so_in = [Bytes (encode_command [''PING''])], so_out = [Takes 100], so_sent = [], so_open = True\<rparr>\<rparr>)
    = (False, wk', wd') \<and> so_sent (wd_sockets wd' 7) = ''+PONG'' @ crlf"
proof -
  let ?wk = "(mk_worker 0)\<lparr>wk_epoll := True, wk_wakeup := Some (3, 0), wk_connections := [(7, mk_connection 7 ''peer'' default_protocol)]\<rparr>"
  let ?wd = "example_world\<lparr>wd_sockets := \<lambda>_. \<lparr>so_in = [Bytes (encode_command [''PING''])], so_out = [Takes 100], so_sent = [], so_open = True\<rparr>\<rparr>"
  let ?serve = "serve (\<lambda>_ _. 0) [[''PING'']] (wd_ctx ?wd) (wd_executed ?wd)"
  obtain rs ctx' where sv: "?serve = (rs, ctx')" by (cases ?serve)
  have "case ?serve of (rs, ctx') \<Rightarrow> replies rs = ''+PONG'' @ crlf \<and> stays_open rs"
    by (simp add: evals Let_def stays_open_def)
  with sv have r: "replies rs = ''+PONG'' @ crlf" "stays_open rs" by simp_all
  have limits: "default_protocol = protocol (cx_config (wd_ctx ?wd))" by (simp add: evals)
  have ping: "length (encode_command [''PING'']) = 14" "command_fits (parser_options_from_config default_protocol) [''PING'']"
      "length (''+PONG'' @ crlf) = 7"
    by (simp_all add: command_fits_def evals parser_evals)
  have inv: "storage_inv (cx_storage (wd_ctx ?wd))" using example_context_inv by (simp add: example_world_def)
  have chunk: "readable (encode_command [''PING''])"
    unfolding readable_def read_size_def using ping(1) by auto
  have fit: "chunks_fit (parser_options_from_config default_protocol) [] [encode_command [''PING'']]"
    using ping(1) by (simp add: parser_options_from_config_def default_protocol_def)
  have out: "7 \<le> max_output_buffer_bytes default_protocol" by (simp add: default_protocol_def)
  show ?thesis
    using client_session [OF inv limits _ _ _ _ fit _ _ sv r(2), of ?wk 7 "''peer''"] r(1) ping chunk out
    by (auto simp: mk_worker_def simp del: loop_epoll.simps)
qed


section \<open>Stopping\<close>

definition connection_fds :: "Worker list \<Rightarrow> nat set" where
  "connection_fds ws = (\<Union>wk\<in>set ws. set (map fst (wk_connections wk)))"

definition pending_fds :: "Worker list \<Rightarrow> nat set" where
  "pending_fds ws = (\<Union>wk\<in>set ws. set (map fst (wk_pending wk)))"

lemma fds_Cons:
  "connection_fds (wk # ws) = set (map fst (wk_connections wk)) \<union> connection_fds ws"
  "pending_fds (wk # ws) = set (map fst (wk_pending wk)) \<union> pending_fds ws"
  by (simp_all add: connection_fds_def pending_fds_def)

lemma worker_stop_closes:
  assumes "worker_inv config wk" and "worker_stop wk wd = (wk', wd')"
  shows "open_fds wd' = open_fds wd - set (map fst (wk_connections wk)) \<and>
    m_connected_clients (cx_metrics (wd_ctx wd')) = m_connected_clients (cx_metrics (wd_ctx wd)) - length (wk_connections wk)"
proof -
  have keys: "map (co_fd \<circ> snd) (wk_connections wk) = map fst (wk_connections wk)" and idle: "wk_running wk \<or> wk_connections wk = []"
    using assms(1) by (auto simp: worker_inv_def)
  have "wd' = fold close_client (wk_connections wk) wd"
    using assms(2) idle by (auto simp: worker_stop_def wake_def close_all_fold Let_def split: option.splits if_splits)
  with close_clients [of "wk_connections wk" wd, unfolded keys] show ?thesis by simp
qed

lemma stop_workers_closes:
  assumes "\<forall>wk\<in>set ws. worker_inv config wk" and "stop_workers ws wd = (ws', wd')"
  shows "open_fds wd' = open_fds wd - connection_fds ws \<and>
    m_connected_clients (cx_metrics (wd_ctx wd')) = m_connected_clients (cx_metrics (wd_ctx wd)) - clients ws"
  using assms
proof (induction ws arbitrary: wd ws')
  case Nil
  then show ?case by (simp add: connection_fds_def)
next
  case (Cons wk ws)
  obtain wk1 wd1 where s: "worker_stop wk wd = (wk1, wd1)" by (cases "worker_stop wk wd")
  obtain ws1 wd2 where r: "stop_workers ws wd1 = (ws1, wd2)" by (cases "stop_workers ws wd1")
  have "wd2 = wd'" using Cons.prems(2) s r by simp
  with worker_stop_closes [OF _ s, of config] Cons.IH [of wd1 ws1] Cons.prems(1) r show ?case
    by (auto simp: connection_fds_def)
qed

text \<open>
  C36. Stopping closes every connection: after \<open>Server::run\<close> no client is counted and no worker is
  left, and the sockets of all connections are closed; the only sockets still open are those that were
  accepted and not yet taken over by their worker.\<close>

theorem stop_closes_connections:
  assumes "running clocks pipes wd sys" and "idle False config wd"
  shows "ts_workers (sys_tcp (run_end sys)) = [] \<and>
    m_connected_clients (cx_metrics (wd_ctx (sys_world (run_end sys)))) = 0 \<and>
    {fd. so_open (wd_sockets (sys_world (run_end sys)) fd)} = pending_fds (ts_workers (sys_tcp sys))"
proof -
  let ?ws = "ts_workers (sys_tcp sys)"
  note inv = running_inv [OF assms]
  obtain ws' wd' where s: "stop_workers ?ws (sys_world sys) = (ws', wd')" by (cases "stop_workers ?ws (sys_world sys)")
  have ok: "\<forall>wk\<in>set ?ws. worker_inv config wk" "distinct (all_fds ?ws)" using inv by (auto simp: sys_inv_def workers_ok_def)
  have parts: "set (all_fds ws) = connection_fds ws \<union> pending_fds ws" for ws
    by (auto simp: all_fds_def worker_fds_def connection_fds_def pending_fds_def)
  have "connection_fds ws \<inter> pending_fds ws = {}" if "distinct (all_fds ws)" for ws
    using that
  proof (induction ws)
    case (Cons wk ws)
    then have "connection_fds ws \<inter> pending_fds ws = {}" "set (worker_fds wk) \<inter> (connection_fds ws \<union> pending_fds ws) = {}"
        "fst ` set (wk_pending wk) \<inter> fst ` set (wk_connections wk) = {}"
      using parts [of ws] by (auto simp: worker_fds_def)
    then show ?case by (simp add: fds_Cons worker_fds_def) blast
  qed (simp add: connection_fds_def)
  with stop_workers_closes [OF ok(1) s] inv ok(2) parts [of ?ws] s show ?thesis
    by (auto simp: run_end_def tcp_end_def request_stop_def sys_inv_def open_fds_def)
qed

theorem stop_closes_connections_witness:
  "{fd. so_open (wd_sockets (sys_world (run_end example_system)) fd)} = {} \<and>
   m_connected_clients (cx_metrics (wd_ctx (sys_world (run_end example_system)))) = 0"
proof -
  have "pending_fds (ts_workers (sys_tcp example_system)) = {}"
    by (simp add: pending_fds_def example_system_def evals parser_evals Let_def)
  with stop_closes_connections [OF example_running example_idle] show ?thesis by simp
qed

end
