(* ===== verification/Server_Findings.thy ===== *)
theory Server_Findings
  imports Server_Props
begin

text \<open>
  The two event loops compared, how connections are spread over the workers, and behaviours of the
  server that its other code or its settings do not suggest.
\<close>


section \<open>Both event loops\<close>

text \<open>The same worker in a build without \<open>epoll\<close>, where nothing is registered.\<close>

definition without_epoll :: "Worker \<Rightarrow> Worker" where
  "without_epoll wk = wk\<lparr>wk_epoll := False, wk_interest := []\<rparr>"

lemma without_epoll_simps [simp]:
  "wk_connections (without_epoll wk) = wk_connections wk" "wk_pending (without_epoll wk) = wk_pending wk"
  "wk_closing (without_epoll wk) = wk_closing wk" "wk_wakeup (without_epoll wk) = wk_wakeup wk" "\<not> wk_epoll (without_epoll wk)"
  "without_epoll (wk\<lparr>wk_connections := cs\<rparr>) = (without_epoll wk)\<lparr>wk_connections := cs\<rparr>"
  "without_epoll (wk\<lparr>wk_interest := is\<rparr>) = without_epoll wk"
  "without_epoll (wk\<lparr>wk_closing := fds\<rparr>) = (without_epoll wk)\<lparr>wk_closing := fds\<rparr>"
  "without_epoll (wk\<lparr>wk_pending := ps\<rparr>) = (without_epoll wk)\<lparr>wk_pending := ps\<rparr>"
  "without_epoll (drain_wakeup wk) = drain_wakeup (without_epoll wk)"
  "without_epoll (wk\<lparr>wk_wakeup := w\<rparr>) = (without_epoll wk)\<lparr>wk_wakeup := w\<rparr>"
  by (simp_all add: without_epoll_def drain_wakeup_def)

text \<open>
  What is registered with \<open>epoll\<close> is what the other build would give to \<open>poll\<close>, but for the connections \<open>X\<close> that
  are to be closed at the end of the round.
\<close>

definition watches :: "nat set \<Rightarrow> Worker \<Rightarrow> bool" where
  "watches X wk \<longleftrightarrow> (\<forall>fd conn. map_of (wk_connections wk) fd = Some conn \<longrightarrow> co_fd conn = fd) \<and>
     (\<forall>fd. map_of (wk_interest wk) fd = None \<longleftrightarrow> map_of (wk_connections wk) fd = None) \<and>
     (\<forall>fd. fd \<notin> X \<longrightarrow> map_of (wk_interest wk) fd = map_of (poll_fds wk) fd)"

definition polled :: "nat \<Rightarrow> Worker \<Rightarrow> World \<Rightarrow> bool" where
  "polled pfd wk wd \<longleftrightarrow> wk_epoll wk \<and> map_option fst (wk_wakeup wk) = Some pfd \<and> wd_script wd = [] \<and> watches (set (wk_closing wk)) wk"

lemma map_of_poll_fds: "map_of (poll_fds wk) fd = map_option (\<lambda>conn. co_write_buffer conn \<noteq> []) (map_of (wk_connections wk) fd)"
  unfolding poll_fds_def by (induction "wk_connections wk" arbitrary: wk) (auto simp: map_of_map)

lemma watches_simps [simp]:
  "watches X (wk\<lparr>wk_closing := fds\<rparr>) = watches X wk" "watches X (wk\<lparr>wk_pending := ps\<rparr>) = watches X wk"
  "watches X (wk\<lparr>wk_wakeup := w\<rparr>) = watches X wk"
  by (simp_all add: watches_def poll_fds_def)

lemma drain_fd: "drain_commands reg clocks conn ctx i = (again, conn', ctx', j) \<Longrightarrow> co_fd conn' = co_fd conn"
proof (induction reg clocks conn ctx i rule: drain_commands.induct)
  case (1 reg clocks conn ctx i)
  obtain res p where n: "next_command (co_parser conn) = (res, p)" by (cases "next_command (co_parser conn)")
  obtain r ctx1 where e: "execute reg (ctx\<lparr>cx_metrics := command_processed (cx_metrics ctx)\<rparr>) (clocks i) (args (cp_command res)) = (r, ctx1)"
    by (cases "execute reg (ctx\<lparr>cx_metrics := command_processed (cx_metrics ctx)\<rparr>) (clocks i) (args (cp_command res))")
  show ?case
  proof (cases "cp_status res")
    case Parse_Ok
    let ?conn = "push_reply (conn\<lparr>co_parser := p\<rparr>) (cr_response r) (cr_close_after_write r)"
    note unfold = "1.prems" [unfolded drain_commands.simps [of _ _ conn] n prod.case Let_def Parse_Ok parse_status.case e]
    from unfold "1.IH" [OF n [symmetric] refl Parse_Ok e [symmetric] refl] show ?thesis
      by (auto simp: push_reply_def split: if_splits)
  qed (use "1.prems" n in \<open>auto simp: drain_commands.simps [of _ _ conn] push_reply_def\<close>)
qed

lemma read_fd: "read_from reg clocks so conn ctx i = (alive, so', conn', ctx', j) \<Longrightarrow> co_fd conn' = co_fd conn"
proof (induction reg clocks so conn ctx i rule: read_from.induct)
  case (1 reg clocks so conn ctx i)
  obtain e so1 where rd: "sock_read so = (e, so1)" by (cases "sock_read so")
  show ?case
  proof (cases e)
    case (Bytes bs)
    obtain st p where ap: "parser_append (co_parser conn) bs = (st, p)" by (cases "parser_append (co_parser conn) bs")
    obtain again conn2 ctx2 k where dr: "drain_commands reg clocks (conn\<lparr>co_parser := p\<rparr>) ctx i = (again, conn2, ctx2, k)"
      by (cases "drain_commands reg clocks (conn\<lparr>co_parser := p\<rparr>) ctx i")
    note unfold = "1.prems" [unfolded read_from.simps [of _ _ so] rd Bytes prod.case read_event.case ap Let_def dr]
    have next_read: "co_fd conn' = co_fd conn2" if "bs \<noteq> []" "ok_status st" "again" "read_from reg clocks so1 conn2 ctx2 k = (alive, so', conn', ctx', j)"
      using "1.IH"(1) [OF rd [symmetric] Bytes that(1) ap [symmetric] refl _ dr [symmetric]] that by blast
    show ?thesis using unfold drain_fd [OF dr] next_read by (auto simp: push_reply_def split: if_splits)
  next
    case Read_Intr
    with "1.IH"(2) [OF rd [symmetric] Read_Intr] "1.prems" rd show ?thesis by (simp add: read_from.simps [of _ _ so])
  qed (use "1.prems" rd in \<open>auto simp: read_from.simps [of _ _ so]\<close>)
qed

lemma epoll_event_fd:
  assumes "epoll_event reg clocks ev so conn ctx i = (close, so', conn', ctx', j)"
  shows "co_fd conn' = co_fd conn"
proof -
  obtain alive so1 conn1 ctx1 k where r: "read_from reg clocks so conn ctx i = (alive, so1, conn1, ctx1, k)"
    by (cases "read_from reg clocks so conn ctx i")
  have w: "co_fd c2 = co_fd c" if "write_to s c = (al, s2, c2)" for s c al s2 c2
    using write_to_capacity [OF that] by simp
  obtain al s2 c2 where w1: "write_to so1 conn1 = (al, s2, c2)" by (cases "write_to so1 conn1")
  obtain al' s2' c2' where w2: "write_to so conn = (al', s2', c2')" by (cases "write_to so conn")
  show ?thesis using assms r w1 w2 w [OF w1] w [OF w2] read_fd [OF r]
    by (auto simp: epoll_event_def Let_def split: if_splits)
qed

lemma watches_update:
  assumes "watches X wk" and "map_of (wk_connections wk) fd = Some conn" and "co_fd conn' = fd"
  shows "watches X (wk\<lparr>wk_connections := AList.update fd conn' (wk_connections wk),
      wk_interest := AList.update fd (co_write_buffer conn' \<noteq> []) (wk_interest wk)\<rparr>)"
    and "watches (insert fd X) (wk\<lparr>wk_connections := AList.update fd conn' (wk_connections wk)\<rparr>)"
  using assms by (auto simp: watches_def map_of_poll_fds update_conv')

lemma install_list_polled:
  assumes "polled pfd wk wd" and "install_list ps wk wd = (wk', wd')"
  shows "install_list ps (without_epoll wk) wd = (without_epoll wk', wd') \<and> polled pfd wk' wd' \<and> wk_closing wk' = wk_closing wk"
  using assms
proof (induction ps arbitrary: wk wd)
  case (Cons p ps)
  obtain fd peer where p: "p = (fd, peer)" by (cases p)
  let ?conn = "mk_connection fd peer (protocol (cx_config (wd_ctx wd)))"
  show ?case
  proof (cases "map_of (wk_connections wk) fd")
    case (Some conn)
    have "polled pfd wk (close_socket fd wd)" using Cons.prems(1) by (simp add: polled_def close_socket_def)
    from Cons.IH [OF this] Cons.prems(2) Some p show ?thesis by simp
  next
    case None
    let ?wk = "wk\<lparr>wk_connections := AList.update fd ?conn (wk_connections wk), wk_interest := AList.update fd False (wk_interest wk)\<rparr>"
    have "net_call wd = (None, wd)" using Cons.prems(1) by (simp add: polled_def net_call_def)
    then have run: "install_list ps ?wk (on_metrics connection_opened wd) = (wk', wd')"
      using Cons.prems None p by (simp add: register_connection_def polled_def Let_def)
    have "co_write_buffer ?conn = []" "co_fd ?conn = fd" by (simp_all add: mk_connection_def)
    then have "polled pfd ?wk (on_metrics connection_opened wd)"
      using Cons.prems(1) None by (auto simp: polled_def on_metrics_def watches_def map_of_poll_fds update_conv')
    from Cons.IH [OF this run] None p show ?thesis by (simp add: register_connection_def Let_def)
  qed
qed simp

lemma poll_connection_event:
  assumes "polled pfd wk wd" and "fd \<noteq> pfd" and "worker_event reg clocks (fd, ev) (wk, wd) = (wk', wd')"
  shows "poll_connection reg clocks (fd, ev) (without_epoll wk, wd) = (without_epoll wk', wd') \<and> polled pfd wk' wd'"
proof (cases "map_of (wk_connections wk) fd")
  case None
  with assms show ?thesis by (auto simp: worker_event_def poll_connection_def polled_def)
next
  case (Some conn)
  obtain close so conn1 ctx1 n where ev: "epoll_event reg clocks ev (wd_sockets wd (co_fd conn)) conn (wd_ctx wd) (wd_executed wd) = (close, so, conn1, ctx1, n)"
    by (cases "epoll_event reg clocks ev (wd_sockets wd (co_fd conn)) conn (wd_ctx wd) (wd_executed wd)")
  have w: "watches (set (wk_closing wk)) wk" and ep: "wk_epoll wk" "map_option fst (wk_wakeup wk) = Some pfd" "wd_script wd = []"
    using assms(1) by (simp_all add: polled_def)
  then have fd: "co_fd conn1 = fd" using epoll_event_fd [OF ev] Some by (simp add: watches_def)
  let ?wd = "wd\<lparr>wd_ctx := ctx1, wd_sockets := (wd_sockets wd)(co_fd conn := so), wd_executed := n\<rparr>"
  have calm: "net_call ?wd = (None, ?wd)" using ep(3) by (simp add: net_call_def)
  show ?thesis
  proof (cases close)
    case True
    with assms(2,3) ep Some ev have "wk' = wk\<lparr>wk_connections := AList.update fd conn1 (wk_connections wk), wk_closing := wk_closing wk @ [fd]\<rparr>"
        "wd' = ?wd" by (auto simp: worker_event_def Let_def)
    with True Some ev ep watches_update(2) [OF w Some fd] show ?thesis
      by (simp add: poll_connection_def poll_event_epoll polled_def)
  next
    case False
    with assms(2,3) ep Some ev fd calm have "wk' = wk\<lparr>wk_connections := AList.update fd conn1 (wk_connections wk),
        wk_interest := AList.update fd (co_write_buffer conn1 \<noteq> []) (wk_interest wk)\<rparr>" "wd' = ?wd"
      by (auto simp: worker_event_def update_connection_interest_def Let_def)
    with False Some ev ep watches_update(1) [OF w Some fd] show ?thesis
      by (simp add: poll_connection_def poll_event_epoll polled_def)
  qed
qed

lemma fold_poll:
  assumes "polled pfd wk wd" and "\<forall>e\<in>set evs. fst e \<noteq> pfd" and "fold (worker_event reg clocks) evs (wk, wd) = (wk', wd')"
  shows "fold (poll_connection reg clocks) evs (without_epoll wk, wd) = (without_epoll wk', wd') \<and> polled pfd wk' wd'"
  using assms
proof (induction evs arbitrary: wk wd)
  case (Cons e evs)
  obtain fd ev where e: "e = (fd, ev)" by (cases e)
  obtain wk1 wd1 where s: "worker_event reg clocks (fd, ev) (wk, wd) = (wk1, wd1)" by (cases "worker_event reg clocks (fd, ev) (wk, wd)")
  have "fd \<noteq> pfd" using Cons.prems(2) e by simp
  note one = poll_connection_event [OF Cons.prems(1) this s]
  from Cons.IH [OF one [THEN conjunct2]] Cons.prems(2,3) one s e show ?case by simp
qed simp

lemma close_list_polled:
  assumes "polled pfd (wk\<lparr>wk_closing := fds\<rparr>) wd" and "wk_closing wk = []" and "close_list fds wk wd = (wk', wd')"
  shows "close_list fds (without_epoll wk) wd = (without_epoll wk', wd') \<and> polled pfd wk' wd' \<and> wk_closing wk' = []"
  using assms
proof (induction fds arbitrary: wk wd)
  case Nil
  then show ?case by (simp add: polled_def)
next
  case (Cons fd fds)
  obtain wk1 wd1 where c: "close_connection fd wk wd = (wk1, wd1)" by (cases "close_connection fd wk wd")
  have w: "watches (insert fd (set fds)) wk" "wk_epoll wk" "map_option fst (wk_wakeup wk) = Some pfd" "wd_script wd = []"
    using Cons.prems(1) by (simp_all add: polled_def)
  have one: "close_connection fd (without_epoll wk) wd = (without_epoll wk1, wd1) \<and> polled pfd (wk1\<lparr>wk_closing := fds\<rparr>) wd1 \<and> wk_closing wk1 = []"
  proof (cases "map_of (wk_connections wk) fd")
    case None
    then have "watches (set fds) wk" using w(1) unfolding watches_def map_of_poll_fds by (metis insert_iff option.map_disc_iff)
    with None c w Cons.prems(2) show ?thesis by (simp add: close_connection_def polled_def)
  next
    case (Some conn)
    have "watches (set fds) (wk\<lparr>wk_interest := AList.delete fd (wk_interest wk), wk_connections := AList.delete fd (wk_connections wk)\<rparr>)"
      using w(1) by (auto simp: watches_def map_of_poll_fds delete_conv')
    with Some c w Cons.prems(2) show ?thesis
      by (auto simp: close_connection_def unregister_connection_def polled_def on_metrics_def close_socket_def Let_def)
  qed
  from Cons.IH [of wk1 wd1] one Cons.prems(3) c show ?case by simp
qed

definition with_wakeup :: "nat \<Rightarrow> bool \<Rightarrow> (nat \<times> event_mask) list \<Rightarrow> (nat \<times> event_mask) list" where
  "with_wakeup pfd wakeup evs = (if wakeup then [(pfd, input_event)] else []) @ evs"

lemma poll_round_epoll:
  assumes "polled pfd wk wd" and "wk_closing wk = []" and "\<forall>e\<in>set evs. fst e \<noteq> pfd"
    and "epoll_round reg clocks (with_wakeup pfd wakeup evs) wk wd = (wk', wd')"
  shows "poll_round reg clocks wakeup evs (without_epoll wk) wd = (without_epoll wk', wd') \<and> polled pfd wk' wd' \<and> wk_closing wk' = []"
proof -
  define x where "x = (if wakeup then install_pending (drain_wakeup wk) wd else (wk, wd))"
  obtain wk1 wd1 where x1: "x = (wk1, wd1)" by (cases x)
  have same: "wk\<lparr>wk_closing := []\<rparr> = wk" using assms(2) by simp
  have "polled pfd ((drain_wakeup wk)\<lparr>wk_pending := []\<rparr>) wd"
    using assms(1) by (cases "wk_wakeup wk") (auto simp: polled_def drain_wakeup_def)
  from install_list_polled [OF this] have p1: "(if wakeup then install_pending (drain_wakeup (without_epoll wk)) wd else (without_epoll wk, wd)) =
      (without_epoll wk1, wd1) \<and> polled pfd wk1 wd1 \<and> wk_closing wk1 = []"
    using x1 assms(1,2) by (simp add: x_def install_pending_def drain_wakeup_def split: if_splits)
  have "worker_event reg clocks (pfd, input_event) (wk, wd) = install_pending (drain_wakeup wk) wd"
    using assms(1) by (simp add: worker_event_def polled_def)
  then have start: "fold (worker_event reg clocks) (with_wakeup pfd wakeup evs) (wk\<lparr>wk_closing := []\<rparr>, wd) =
      fold (worker_event reg clocks) evs (wk1, wd1)"
    using x1 by (auto simp: with_wakeup_def x_def same split: if_splits)
  obtain wk2 wd2 where f: "fold (worker_event reg clocks) evs (wk1, wd1) = (wk2, wd2)"
    by (cases "fold (worker_event reg clocks) evs (wk1, wd1)")
  have p2: "fold (poll_connection reg clocks) evs (without_epoll wk1, wd1) = (without_epoll wk2, wd2) \<and> polled pfd wk2 wd2"
    using fold_poll [OF _ assms(3) f] p1 by blast
  have cl: "close_list (wk_closing wk2) (wk2\<lparr>wk_closing := []\<rparr>) wd2 = (wk', wd')"
    using assms(4) start f by (simp add: epoll_round_def end_round_def)
  have "wk1\<lparr>wk_closing := []\<rparr> = wk1" using p1 by simp
  then have eq: "(without_epoll wk1)\<lparr>wk_closing := []\<rparr> = without_epoll wk1" by (metis without_epoll_simps(8))
  have "fold (poll_connection reg clocks) evs ((without_epoll wk1)\<lparr>wk_closing := []\<rparr>, wd1) = (without_epoll wk2, wd2)"
    unfolding eq using p2 by blast
  with close_list_polled [OF _ _ cl, of pfd] p1 p2 show ?thesis
    by (simp add: poll_round_def end_round_def)
qed

fun as_epoll :: "nat \<Rightarrow> bool \<times> bool \<times> wait_result \<Rightarrow> bool \<times> wait_result" where
  "as_epoll pfd (stop_seen, wakeup, Ready evs) = (stop_seen, Ready (with_wakeup pfd wakeup evs))"
| "as_epoll pfd (stop_seen, wakeup, res) = (stop_seen, res)"

text \<open>
  C37. The builds with \<open>epoll\<close> and with \<open>poll\<close> behave alike.  Take a worker with an \<open>epoll\<close> instance, no call of
  \<open>epoll_ctl\<close> failing, and the same worker in a build without one.  Given the same readiness, with the
  wakeup pipe reported as an event of its own, \<open>loop_epoll\<close> and \<open>loop_poll\<close> leave the same connections, sockets,
  storage and metrics, and they end alike.  While they run, what the one has registered for each
  descriptor is what the other passes to \<open>poll\<close>.\<close>

theorem poll_loop_is_epoll_loop:
  assumes "polled pfd wk wd" and "wk_closing wk = []"
    and "\<forall>(stop_seen, wakeup, res)\<in>set rounds. \<forall>evs. res = Ready evs \<longrightarrow> (\<forall>e\<in>set evs. fst e \<noteq> pfd)"
    and "loop_epoll reg clocks (map (as_epoll pfd) rounds) wk wd = (ended, wk', wd')"
  shows "loop_poll reg clocks rounds (without_epoll wk) wd = (ended, without_epoll wk', wd') \<and>
    (\<not> ended \<longrightarrow> (\<forall>fd. map_of (wk_interest wk') fd = map_of (poll_fds (without_epoll wk')) fd))"
  using assms
proof (induction rounds arbitrary: wk wd)
  case Nil
  then show ?case by (auto simp: polled_def watches_def map_of_poll_fds)
next
  case (Cons r rounds)
  obtain stop_seen wakeup res where r: "r = (stop_seen, wakeup, res)" by (cases r)
  have later: "\<forall>(stop_seen, wakeup, res)\<in>set rounds. \<forall>evs. res = Ready evs \<longrightarrow> (\<forall>e\<in>set evs. fst e \<noteq> pfd)"
    using Cons.prems(3) by simp
  show ?case
  proof (cases "stop_seen \<or> \<not> wakeup \<and> res = Ready [] \<or> (\<forall>evs. res \<noteq> Ready evs)")
    case True
    show ?thesis
    proof (cases stop_seen)
      case True
      with Cons.prems(4) r show ?thesis by (cases res) (auto simp: close_all_connections_def)
    next
      case False
      with True have "\<not> wakeup \<and> res = Ready [] \<or> (\<forall>evs. res \<noteq> Ready evs)" by simp
      with False Cons.IH [OF Cons.prems(1,2) later] Cons.prems(4) r show ?thesis
        by (cases res) (auto simp: with_wakeup_def)
    qed
  next
    case False
    then obtain evs where evs: "res = Ready evs" "\<not> stop_seen" "wakeup \<or> evs \<noteq> []" by auto
    have fds: "\<forall>e\<in>set evs. fst e \<noteq> pfd" using Cons.prems(3) r evs by auto
    obtain wk1 wd1 where round: "epoll_round reg clocks (with_wakeup pfd wakeup evs) wk wd = (wk1, wd1)"
      by (cases "epoll_round reg clocks (with_wakeup pfd wakeup evs) wk wd")
    have "with_wakeup pfd wakeup evs \<noteq> []" using evs by (auto simp: with_wakeup_def)
    then have run: "loop_epoll reg clocks (map (as_epoll pfd) rounds) wk1 wd1 = (ended, wk', wd')"
      using Cons.prems(4) r evs round by simp
    note one = poll_round_epoll [OF Cons.prems(1,2) fds round]
    from Cons.IH [OF _ _ later run] one r evs show ?thesis by auto
  qed
qed

theorem poll_loop_is_epoll_loop_witness:
  "let wk = (mk_worker 0)\<lparr>wk_epoll := True, wk_wakeup := Some (3, 1), wk_pending := [(7, ''peer'')]\<rparr> in
   case loop_epoll registry (\<lambda>_ _. 0) [(False, Ready [(3, input_event), (7, input_event)])] wk example_world of
     (ended, wk', wd') \<Rightarrow>
       loop_poll registry (\<lambda>_ _. 0) [(False, True, Ready [(7, input_event)])] (without_epoll wk) example_world = (ended, without_epoll wk', wd')"
proof -
  let ?wk = "(mk_worker 0)\<lparr>wk_epoll := True, wk_wakeup := Some (3, 1), wk_pending := [(7, ''peer'')]\<rparr>"
  let ?rounds = "[(False, True, Ready [(7, input_event)])] :: (bool \<times> bool \<times> wait_result) list"
  have start: "polled 3 ?wk example_world" "wk_closing ?wk = []"
    by (simp_all add: polled_def watches_def poll_fds_def mk_worker_def example_world_def)
  have rounds: "\<forall>(stop_seen, wakeup, res)\<in>set ?rounds. \<forall>evs. res = Ready evs \<longrightarrow> (\<forall>e\<in>set evs. fst e \<noteq> 3)" by simp
  have evs: "map (as_epoll 3) ?rounds = [(False, Ready [(3, input_event), (7, input_event)])]" by (simp add: with_wakeup_def)
  show ?thesis
    using poll_loop_is_epoll_loop [OF start rounds, of registry "\<lambda>_ _. 0", unfolded evs]
    by (auto simp: Let_def simp del: loop_epoll.simps loop_poll.simps split: prod.split)
qed


section \<open>Accepting\<close>

type_synonym arrival = "nat \<times> (nat \<times> nat \<times> nat \<times> nat) option \<times> nat"

fun accepted :: "arrival \<Rightarrow> accept_event" where
  "accepted (fd, addr, p) = Accepted fd addr p"

fun pending_of :: "arrival \<Rightarrow> nat \<times> string" where
  "pending_of (fd, addr, p) = (fd, peer_string addr p)"

text \<open>
  C38. Connections are spread round robin: while there is room for more clients, the \<open>i\<close>-th of a burst of
  new connections is queued, in order, for worker \<open>(next + i) mod k\<close> of the \<open>k\<close> workers, and for no
  other.\<close>

theorem accept_round_robin:
  assumes "wd_script wd = []" and "m_connected_clients (cx_metrics (wd_ctx wd)) < max_clients (server (cx_config (wd_ctx wd)))"
    and "ts_next_worker ts + length cs < 2 ^ 64" and "w < length (ts_workers ts)"
    and "accept_ready (map accepted cs) ts wd = (rest, ts', wd')"
  shows "length (ts_workers ts') = length (ts_workers ts) \<and> ts_next_worker ts' = ts_next_worker ts + length cs \<and>
    wk_pending (ts_workers ts' ! w) = wk_pending (ts_workers ts ! w) @
      map pending_of (nths cs {i. (ts_next_worker ts + i) mod length (ts_workers ts) = w})"
  using assms
proof (induction cs arbitrary: ts wd)
  case (Cons c cs)
  obtain fd addr p where c: "c = (fd, addr, p)" by (cases c)
  let ?k = "length (ts_workers ts)" and ?n = "ts_next_worker ts"
  let ?v = "?n mod ?k"
  let ?ts = "ts\<lparr>ts_workers := (ts_workers ts)[?v := add_connection fd (peer_string addr p) (ts_workers ts ! ?v)], ts_next_worker := ?n + 1\<rparr>"
  have nb: "set_nonblocking (open_socket fd wd) = (status_ok, open_socket fd wd)"
    using Cons.prems(1) by (simp add: set_nonblocking_def net_call_def open_socket_def)
  have "ts_workers ts \<noteq> []" using Cons.prems(4) by auto
  with Cons.prems(2,3,5) c nb have next_step: "accept_ready (map accepted cs) ?ts (open_socket fd wd) = (rest, ts', wd')"
    by (simp add: Let_def)
  have IH: "length (ts_workers ts') = ?k \<and> ts_next_worker ts' = ?n + 1 + length cs \<and>
      wk_pending (ts_workers ts' ! w) = wk_pending (ts_workers ?ts ! w) @ map pending_of (nths cs {i. (?n + 1 + i) mod ?k = w})"
    using Cons.IH [OF _ _ _ _ next_step] Cons.prems by simp
  have "wk_pending (ts_workers ?ts ! w) = wk_pending (ts_workers ts ! w) @ (if ?v = w then [pending_of c] else [])"
    using Cons.prems(4) c by (auto simp: add_connection_fields nth_list_update)
  with IH show ?case by (simp add: nths_Cons)
qed simp

definition two_workers :: TcpServer where
  "two_workers = mk_tcp_server\<lparr>ts_workers := [mk_worker 0, mk_worker 1]\<rparr>"

theorem accept_round_robin_witness:
  "case accept_ready (map accepted [(7, None, 0), (8, None, 0), (9, None, 0)]) two_workers example_world of (rest, ts', wd') \<Rightarrow>
     map (\<lambda>wk. map fst (wk_pending wk)) (ts_workers ts') = [[7, 9], [8]]"
proof -
  let ?cs = "[(7, None, 0), (8, None, 0), (9, None, 0)] :: arrival list"
  obtain rest ts' wd' where ac: "accept_ready (map accepted ?cs) two_workers example_world = (rest, ts', wd')"
    by (cases "accept_ready (map accepted ?cs) two_workers example_world")
  have start: "wd_script example_world = []" "ts_next_worker two_workers = 0" "length (ts_workers two_workers) = 2"
      "m_connected_clients (cx_metrics (wd_ctx example_world)) < max_clients (server (cx_config (wd_ctx example_world)))"
      "wk_pending (ts_workers two_workers ! 0) = []" "wk_pending (ts_workers two_workers ! 1) = []"
    by (simp_all add: two_workers_def evals)
  have w: "length (ts_workers ts') = 2 \<and> map fst (wk_pending (ts_workers ts' ! 0)) = [7, 9]"
    using accept_round_robin [OF start(1,4) _ _ ac, of 0] start by (simp add: nths_Cons)
  have "map fst (wk_pending (ts_workers ts' ! 1)) = [8]"
    using accept_round_robin [OF start(1,4) _ _ ac, of 1] start by (simp add: nths_Cons)
  moreover obtain a b where "ts_workers ts' = [a, b]"
    using w by (cases "ts_workers ts'"; cases "tl (ts_workers ts')") (auto simp: length_Suc_conv)
  ultimately show ?thesis using w ac by simp
qed

definition full_world :: World where
  "full_world = example_world\<lparr>wd_ctx := (wd_ctx example_world)\<lparr>cx_config := default_config\<lparr>
     server := default_server\<lparr>workers := 1, max_clients := 1\<rparr>\<rparr>\<rparr>\<rparr>"

text \<open>
  C39. The limit on clients counts only connections that a worker has taken over: two clients that
  connect before the worker wakes up are both served by a server with \<open>max_clients\<close> 1.\<close>

theorem max_clients_exceeded:
  "let sys = event_step (3, input_event) (accept_step 8 (accept_step 7 (snd (run_begin (\<lambda>i. i + 3) full_world)))) in
   running (\<lambda>_ _. 0) (\<lambda>i. i + 3) full_world sys \<and>
   max_clients (server (cx_config (wd_ctx (sys_world sys)))) = 1 \<and> clients (ts_workers (sys_tcp sys)) = 2"
proof -
  let ?sys = "event_step (3, input_event) (accept_step 8 (accept_step 7 (snd (run_begin (\<lambda>i. i + 3) full_world))))"
  have start: "ok_status (fst (run_begin (\<lambda>i. i + 3) full_world))"
    by (simp add: full_world_def evals Let_def)
  have "running (\<lambda>_ _. 0) (\<lambda>i. i + 3) full_world ?sys"
    by (rule running.stepped [OF running.stepped [OF running.stepped [OF
          running.started [OF prod.collapse [symmetric] start] accept_is_step] accept_is_step] event_is_step])
       (simp_all add: full_world_def evals Let_def)
  moreover have "max_clients (server (cx_config (wd_ctx (sys_world ?sys)))) = 1 \<and> clients (ts_workers (sys_tcp ?sys)) = 2"
    by (simp add: full_world_def evals Let_def)
  ultimately show ?thesis by simp
qed

text \<open>
  C40. A client that sends its requests and then closes its sending side can get no reply.  Whenever the end
  of the stream follows the chunks that a worker is reading, the commands of these chunks run, and
  then the connection is closed with everything in its output buffer unsent, their replies and what
  was waiting before them, although the event may say that there is room for output.\<close>

theorem half_close_loses_replies:
  assumes "storage_inv (cx_storage (wd_ctx wd))" and "map_of (wk_connections wk) fd = Some conn" and "co_fd conn = fd"
    and "map_option fst (wk_wakeup wk) \<noteq> Some fd" and "so_in (wd_sockets wd fd) = map Bytes chunks @ [Bytes []]"
    and "\<forall>c\<in>set chunks. readable c" and "chunks_fit (options (co_parser conn)) (buffer (co_parser conn)) chunks"
    and "decode_all (command_step (options (co_parser conn))) (buffer (co_parser conn)) = ([], None, buffer (co_parser conn))"
    and "decode_all (command_step (options (co_parser conn))) (buffer (co_parser conn) @ concat chunks) = (cs, None, rest)"
    and "serve clocks cs (wd_ctx wd) (wd_executed wd) = (rs, ctx')" and "stays_open rs"
    and "length (co_write_buffer conn) + length (replies rs) \<le> max_output_buffer_bytes (protocol (cx_config (wd_ctx wd)))"
    and "ev_in ev" and "\<not> ev_err ev"
  shows "\<exists>wk' wd'. epoll_round registry clocks [(fd, ev)] wk wd = (wk', wd') \<and> map_of (wk_connections wk') fd = None \<and>
    so_sent (wd_sockets wd' fd) = so_sent (wd_sockets wd fd) \<and> \<not> so_open (wd_sockets wd' fd) \<and>
    wd_executed wd' = wd_executed wd + length cs \<and> wd_ctx wd' = ctx'\<lparr>cx_metrics := connection_closed (cx_metrics ctx')\<rparr>"
proof -
  let ?so = "wd_sockets wd fd" and ?conn = "answered conn rest (replies rs)"
  have "read_from registry clocks ?so conn (wd_ctx wd) (wd_executed wd) =
      (False, ?so\<lparr>so_in := []\<rparr>, ?conn, ctx', wd_executed wd + length cs)"
    using read_serves [OF assms(1,5-12)] by (simp add: read_from.simps [of _ _ "?so\<lparr>so_in := [Bytes []]\<rparr>"] sock_read_def)
  then have ev: "epoll_event registry clocks ev ?so conn (wd_ctx wd) (wd_executed wd) =
      (True, ?so\<lparr>so_in := []\<rparr>, ?conn, ctx', wd_executed wd + length cs)"
    using assms(13,14) by (simp add: epoll_event_def)
  have "co_fd ?conn = fd" using assms(3) by simp
  from closing_event_round [OF assms(2-4) ev this] show ?thesis by fastforce
qed

theorem half_close_loses_replies_witness:
  "case epoll_round registry (\<lambda>_ _. 0) [(7, \<lparr>ev_err = False, ev_in = True, ev_out = True, ev_hup = True\<rparr>)]
      ((mk_worker 0)\<lparr>wk_epoll := True, wk_wakeup := Some (3, 0), wk_connections := [(7, example_connection)]\<rparr>)
      (example_world\<lparr>wd_sockets := \<lambda>_. \<lparr>so_in = [Bytes (''PING'' @ crlf), Bytes []], so_out = [Takes 100], so_sent = [], so_open = True\<rparr>\<rparr>) of
     (wk', wd') \<Rightarrow> wd_executed wd' = 1 \<and> so_sent (wd_sockets wd' 7) = [] \<and> \<not> so_open (wd_sockets wd' 7)"
proof -
  let ?wk = "(mk_worker 0)\<lparr>wk_epoll := True, wk_wakeup := Some (3, 0), wk_connections := [(7, example_connection)]\<rparr>"
  let ?wd = "example_world\<lparr>wd_sockets := \<lambda>_. \<lparr>so_in = [Bytes (''PING'' @ crlf), Bytes []], so_out = [Takes 100], so_sent = [], so_open = True\<rparr>\<rparr>"
  let ?ev = "\<lparr>ev_err = False, ev_in = True, ev_out = True, ev_hup = True\<rparr>"
  let ?serve = "serve (\<lambda>_ _. 0) [[''PING'']] (wd_ctx ?wd) (wd_executed ?wd)"
  obtain rs ctx' where sv: "?serve = (rs, ctx')" by (cases ?serve)
  have "case ?serve of (rs, ctx') \<Rightarrow> replies rs = ''+PONG'' @ crlf \<and> stays_open rs"
    by (simp add: evals Let_def stays_open_def)
  with sv have r: "replies rs = ''+PONG'' @ crlf" "stays_open rs" by simp_all
  have inv: "storage_inv (cx_storage (wd_ctx ?wd))" using example_context_inv by (simp add: example_world_def)
  have conn: "buffer (co_parser example_connection) = []" "co_write_buffer example_connection = []" "co_fd example_connection = 7"
      "10 \<le> opt_max_request_bytes (options (co_parser example_connection))"
      "7 \<le> max_output_buffer_bytes (protocol (cx_config (wd_ctx ?wd)))"
    by (simp_all add: evals parser_evals)
  have dec: "decode_all (command_step (options (co_parser example_connection))) (''PING'' @ crlf) = ([[''PING'']], None, [])"
      "decode_all (command_step (options (co_parser example_connection))) [] = ([], None, [])"
    by code_simp+
  have chunk: "readable (''PING'' @ crlf)" by (simp add: readable_def read_size_def crlf_def)
  have len: "length (''PING'' @ crlf) = 6" "length (''+PONG'' @ crlf) = 7" by (simp_all add: crlf_def)
  have wk: "map_of (wk_connections ?wk) 7 = Some example_connection" "map_option fst (wk_wakeup ?wk) \<noteq> Some 7"
      "so_in (wd_sockets ?wd 7) = map Bytes [''PING'' @ crlf] @ [Bytes []]" "wd_executed ?wd = 0" "so_sent (wd_sockets ?wd 7) = []"
    by (simp_all add: example_world_def)
  have "\<exists>wk' wd'. epoll_round registry (\<lambda>_ _. 0) [(7, ?ev)] ?wk ?wd = (wk', wd') \<and> map_of (wk_connections wk') 7 = None \<and>
      so_sent (wd_sockets wd' 7) = so_sent (wd_sockets ?wd 7) \<and> \<not> so_open (wd_sockets wd' 7) \<and>
      wd_executed wd' = wd_executed ?wd + length [[''PING'']] \<and> wd_ctx wd' = ctx'\<lparr>cx_metrics := connection_closed (cx_metrics ctx')\<rparr>"
    by (rule half_close_loses_replies [OF inv wk(1) conn(3) wk(2,3) _ _ _ _ sv r(2), where rest = "[]"])
       (use r(1) conn dec chunk len in auto)
  then show ?thesis using wk(4,5) by auto
qed

end
