(* ===== verification/Log_Lines.thy ===== *)
theory Log_Lines
  imports Runtime
begin

text \<open>
  The lines that \<open>Logger::log\<close> of \<open>src/util/logger.cpp\<close> writes to \<open>stderr\<close>.  The clock is a number of
  nanoseconds since the epoch; \<open>gmtime_r\<close> and \<open>std::put_time\<close> are the Gregorian calendar in UTC and
  the format \<open>%Y-%m-%dT%H:%M:%S\<close>.
\<close>


section \<open>The calendar\<close>

definition leap_year :: "nat \<Rightarrow> bool" where
  "leap_year y \<longleftrightarrow> y mod 4 = 0 \<and> (y mod 100 \<noteq> 0 \<or> y mod 400 = 0)"

definition days_in_year :: "nat \<Rightarrow> nat" where
  "days_in_year y = (if leap_year y then 366 else 365)"

definition days_in_month :: "nat \<Rightarrow> nat \<Rightarrow> nat" where
  "days_in_month y m = [31, if leap_year y then 29 else 28, 31, 30, 31, 30, 31, 31, 30, 31, 30, 31] ! (m - 1)"

function split_year :: "nat \<Rightarrow> nat \<Rightarrow> nat \<times> nat" where
  "split_year y d = (if d < days_in_year y then (y, d) else split_year (y + 1) (d - days_in_year y))"
  by pat_completeness auto
termination
  by (relation "measure snd") (auto simp: days_in_year_def)

declare split_year.simps [simp del]

text \<open>The month of day \<open>d\<close> of a year, counted from \<open>m\<close> over the given months.\<close>

fun split_month :: "nat \<Rightarrow> nat list \<Rightarrow> nat \<Rightarrow> nat \<times> nat" where
  "split_month y [] d = (12, d)"
| "split_month y (m # ms) d = (if d < days_in_month y m then (m, d) else split_month y ms (d - days_in_month y m))"

record tm =
  tm_year :: nat
  tm_mon :: nat
  tm_mday :: nat
  tm_hour :: nat
  tm_min :: nat
  tm_sec :: nat

text \<open>\<open>gmtime_r\<close>, with the year and the month as they are printed.\<close>

definition gmtime :: "nat \<Rightarrow> tm" where
  "gmtime t =
     (case split_year 1970 (t div 86400) of (y, d) \<Rightarrow> case split_month y [1..<13] d of (m, d') \<Rightarrow>
        \<lparr>tm_year = y, tm_mon = m, tm_mday = d' + 1, tm_hour = t mod 86400 div 3600, tm_min = t mod 3600 div 60, tm_sec = t mod 60\<rparr>)"

text \<open>The seconds since the epoch of a date, as \<open>timegm\<close> counts them.\<close>

definition timegm :: "tm \<Rightarrow> nat" where
  "timegm x =
     (sum_list (map days_in_year [1970..<tm_year x]) + sum_list (map (days_in_month (tm_year x)) [1..<tm_mon x]) + (tm_mday x - 1)) * 86400
     + tm_hour x * 3600 + tm_min x * 60 + tm_sec x"

definition valid_tm :: "tm \<Rightarrow> bool" where
  "valid_tm x \<longleftrightarrow> 1970 \<le> tm_year x \<and> tm_mon x \<in> {1..12} \<and> tm_mday x \<in> {1..days_in_month (tm_year x) (tm_mon x)} \<and>
     tm_hour x < 24 \<and> tm_min x < 60 \<and> tm_sec x < 60"

lemma split_year_spec:
  "split_year y d = (y', d') \<Longrightarrow> y \<le> y' \<and> d' < days_in_year y' \<and> d = sum_list (map days_in_year [y..<y']) + d'"
proof (induction y d rule: split_year.induct)
  case (1 y d)
  show ?case
  proof (cases "d < days_in_year y")
    case True
    with "1.prems" show ?thesis by (simp add: split_year.simps [of y])
  next
    case False
    with "1.prems" have "split_year (y + 1) (d - days_in_year y) = (y', d')" by (simp add: split_year.simps [of y])
    from "1.IH" [OF False this] False show ?thesis by (auto simp: upt_conv_Cons [of y])
  qed
qed

lemma split_month_spec:
  assumes "split_month y [m..<13] d = (m', d')" and "1 \<le> m" and "m \<le> 12" and "d < sum_list (map (days_in_month y) [m..<13])"
  shows "m \<le> m' \<and> m' \<le> 12 \<and> d' < days_in_month y m' \<and> d = sum_list (map (days_in_month y) [m..<m']) + d'"
  using assms
proof (induction "12 - m" arbitrary: m d)
  case 0
  then have "m = 12" by simp
  with "0.prems" show ?case by (simp add: upt_rec split: if_splits)
next
  case (Suc n)
  then have m: "m < 12" by simp
  then have step: "[m..<13] = m # [Suc m..<13]" by (simp add: upt_conv_Cons)
  show ?case
  proof (cases "d < days_in_month y m")
    case True
    with Suc.prems(1) step m show ?thesis by simp
  next
    case False
    have "split_month y [Suc m..<13] (d - days_in_month y m) = (m', d')" using Suc.prems(1) step False by simp
    moreover have "d - days_in_month y m < sum_list (map (days_in_month y) [Suc m..<13])" using Suc.prems(4) step False by simp
    ultimately have "Suc m \<le> m' \<and> m' \<le> 12 \<and> d' < days_in_month y m' \<and>
        d - days_in_month y m = sum_list (map (days_in_month y) [Suc m..<m']) + d'"
      using Suc.hyps m by (intro Suc.hyps(1)) auto
    then show ?thesis using False by (auto simp: upt_conv_Cons [of m])
  qed
qed

lemma months_of_year: "sum_list (map (days_in_month y) [1..<13]) = days_in_year y"
  by (simp add: upt_rec [of 1] upt_rec days_in_month_def days_in_year_def)

text \<open>
  The time stamps of the log are right: \<open>gmtime\<close> yields a date and a time of day of the calendar
  for every number of seconds since the epoch, and it is the one with that number of seconds.\<close>

theorem log_time_is_calendar_time: "valid_tm (gmtime t) \<and> timegm (gmtime t) = t"
proof -
  obtain y d where y: "split_year 1970 (t div 86400) = (y, d)" by (cases "split_year 1970 (t div 86400)")
  obtain m d' where m: "split_month y [1..<13] d = (m, d')" by (cases "split_month y [1..<13] d")
  note ys = split_year_spec [OF y]
  then have "d < sum_list (map (days_in_month y) [1..<13])" unfolding months_of_year by blast
  note ms = split_month_spec [OF m _ _ this]
  have day: "t div 86400 = sum_list (map days_in_year [1970..<y]) + sum_list (map (days_in_month y) [1..<m]) + d'"
    using ys ms by simp
  have g: "gmtime t = \<lparr>tm_year = y, tm_mon = m, tm_mday = d' + 1, tm_hour = t mod 86400 div 3600, tm_min = t mod 3600 div 60, tm_sec = t mod 60\<rparr>"
    using y m by (simp add: gmtime_def)
  have "t mod 86400 div 3600 * 3600 + t mod 3600 div 60 * 60 + t mod 60 = t mod 86400"
    using mult_div_mod_eq [of 3600 "t mod 86400"] mult_div_mod_eq [of 60 "t mod 3600"] mod_mod_cancel [of 3600 86400 t]
      mod_mod_cancel [of 60 3600 t] by simp
  with day mult_div_mod_eq [of 86400 t] have "timegm (gmtime t) = t" by (simp add: timegm_def g)
  moreover have "valid_tm (gmtime t)"
    using ys ms by (simp add: valid_tm_def g) (simp add: less_mult_imp_div_less)
  ultimately show ?thesis by simp
qed


section \<open>Log lines\<close>

text \<open>A number with leading zeros up to a width.\<close>

definition padded :: "nat \<Rightarrow> nat \<Rightarrow> string" where
  "padded w n = replicate (w - length (nat_to_string n)) CHR ''0'' @ nat_to_string n"

definition put_time :: "tm \<Rightarrow> string" where
  "put_time x = padded 4 (tm_year x) @ ''-'' @ padded 2 (tm_mon x) @ ''-'' @ padded 2 (tm_mday x) @ ''T'' @
     padded 2 (tm_hour x) @ '':'' @ padded 2 (tm_min x) @ '':'' @ padded 2 (tm_sec x)"

definition log_line :: "nat \<Rightarrow> LogLevel \<Rightarrow> string \<Rightarrow> string \<Rightarrow> string" where
  "log_line now level component msg =
     put_time (gmtime (now div 1000000000)) @ ''.'' @ padded 3 (now mod 1000000000 div 1000000) @ ''Z'' @
     '' level='' @ log_level_name level @ '' component='' @ component @ '' msg='' @ [CHR 0x22] @ msg @ [CHR 0x22]"

text \<open>\<open>Logger::log\<close> at the time \<open>now\<close>; the last argument is what has been written to \<open>stderr\<close>.\<close>

definition logger_log :: "Logger \<Rightarrow> nat \<Rightarrow> LogLevel \<Rightarrow> string \<Rightarrow> string \<Rightarrow> string \<Rightarrow> string" where
  "logger_log lg now level component msg err =
     (if \<not> log_enabled lg level then err else err @ log_line now level component msg @ [CHR 0x0A])"

definition log_trace :: "Logger \<Rightarrow> nat \<Rightarrow> string \<Rightarrow> string \<Rightarrow> string \<Rightarrow> string" where
  "log_trace lg now = logger_log lg now Level_Trace"

definition log_debug :: "Logger \<Rightarrow> nat \<Rightarrow> string \<Rightarrow> string \<Rightarrow> string \<Rightarrow> string" where
  "log_debug lg now = logger_log lg now Level_Debug"

definition log_info :: "Logger \<Rightarrow> nat \<Rightarrow> string \<Rightarrow> string \<Rightarrow> string \<Rightarrow> string" where
  "log_info lg now = logger_log lg now Level_Info"

definition log_warn :: "Logger \<Rightarrow> nat \<Rightarrow> string \<Rightarrow> string \<Rightarrow> string \<Rightarrow> string" where
  "log_warn lg now = logger_log lg now Level_Warn"

definition log_error :: "Logger \<Rightarrow> nat \<Rightarrow> string \<Rightarrow> string \<Rightarrow> string \<Rightarrow> string" where
  "log_error lg now = logger_log lg now Level_Error"

lemma log_off_writes_nothing: "logger_log (set_level lg Level_Off) now level component msg err = err"
  by (simp add: logger_log_def log_off_silent)

end
