(* ===== verification/Fuzz.thy ===== *)
theory Fuzz
  imports Protocol_Props
begin

text \<open>
  The fuzz harness \<open>fuzz/resp_parser_fuzzer.cpp\<close>: the input is fed to a parser in chunks whose sizes
  come from the input itself, and the parser is drained after each.
\<close>

definition kMaxDrainIterations :: nat where "kMaxDrainIterations = 128"
definition kMaxChunkBytes :: nat where "kMaxChunkBytes = 32"

definition fuzz_options :: parser_options where
  "fuzz_options = \<lparr>opt_max_request_bytes = 4096, opt_max_array_elements = 64, opt_max_bulk_bytes = 2048\<rparr>"

text \<open>The loops, with \<open>n\<close> passes left.\<close>

fun drain_values_loop :: "nat \<Rightarrow> parser \<Rightarrow> parser" where
  "drain_values_loop 0 p = reset p"
| "drain_values_loop (Suc n) p =
     (case next_value p of (res, p') \<Rightarrow>
        (case vp_status res of NeedMore \<Rightarrow> p' | Parse_Error \<Rightarrow> reset p' | Parse_Ok \<Rightarrow> drain_values_loop n p'))"

fun drain_commands_loop :: "nat \<Rightarrow> parser \<Rightarrow> parser" where
  "drain_commands_loop 0 p = reset p"
| "drain_commands_loop (Suc n) p =
     (case next_command p of (res, p') \<Rightarrow>
        (case cp_status res of NeedMore \<Rightarrow> p' | Parse_Error \<Rightarrow> reset p' | Parse_Ok \<Rightarrow> drain_commands_loop n p'))"

definition fuzz_drain_values :: "parser \<Rightarrow> parser" where
  "fuzz_drain_values p = drain_values_loop kMaxDrainIterations p"

definition fuzz_drain_commands :: "parser \<Rightarrow> parser" where
  "fuzz_drain_commands p = drain_commands_loop kMaxDrainIterations p"

text \<open>The loop of \<open>feed_incrementally\<close> over the input that is left.\<close>

function feed_loop :: "(parser \<Rightarrow> parser) \<Rightarrow> string \<Rightarrow> parser \<Rightarrow> parser" where
  "feed_loop drain bs p =
     (if bs = [] then drain p
      else
        (let wanted = 1 + (of_char (hd bs) :: nat) mod kMaxChunkBytes;
             chunk = min wanted (length bs)
         in case parser_append p (take chunk bs) of (st, p') \<Rightarrow>
              if \<not> ok_status st then reset p' else feed_loop drain (drop chunk bs) (drain p')))"
  by pat_completeness auto
termination
  by (relation "measure (\<lambda>(_, bs, _). length bs)") auto

declare feed_loop.simps [simp del]

definition feed_incrementally :: "(parser \<Rightarrow> parser) \<Rightarrow> string \<Rightarrow> parser" where
  "feed_incrementally drain bs = feed_loop drain bs (mk_parser fuzz_options)"

definition fuzz_one_input :: "string \<Rightarrow> (parser \<times> parser) option" where
  "fuzz_one_input bs =
     (if bs = [] then None else Some (feed_incrementally fuzz_drain_values bs, feed_incrementally fuzz_drain_commands bs))"

text \<open>The harness only ever sees reachable parsers, so it tests within the bounds of the parser.\<close>

lemma drain_commands_reachable:
  "parser_reachable opts p \<Longrightarrow> parser_reachable opts (drain_commands_loop n p)"
proof (induction n arbitrary: p)
  case (Suc n)
  obtain res p' where nx: "next_command p = (res, p')" by (cases "next_command p")
  with parser_reachable.taken [OF Suc.prems nx] Suc.IH show ?case
    by (auto intro: parser_reachable.cleared split: parse_status.split)
qed (auto intro: parser_reachable.cleared)

lemma feed_reachable:
  assumes "parser_reachable opts p" and "\<And>q. parser_reachable opts q \<Longrightarrow> parser_reachable opts (drain q)"
  shows "parser_reachable opts (feed_loop drain bs p)"
  using assms(1)
proof (induction bs arbitrary: p rule: length_induct)
  case (1 bs)
  show ?case
  proof (cases "bs = []")
    case True
    with assms(2) 1 show ?thesis by (simp add: feed_loop.simps [of drain])
  next
    case False
    let ?chunk = "min (1 + (of_char (hd bs) :: nat) mod kMaxChunkBytes) (length bs)"
    obtain st p' where ap: "parser_append p (take ?chunk bs) = (st, p')" by (cases "parser_append p (take ?chunk bs)")
    note fed = parser_reachable.appended [OF "1.prems" ap]
    have "length (drop ?chunk bs) < length bs" using False by auto
    with "1.IH" assms(2) [OF fed] have "parser_reachable opts (feed_loop drain (drop ?chunk bs) (drain p'))" by blast
    with False ap parser_reachable.cleared [OF fed] show ?thesis
      by (simp add: feed_loop.simps [of drain bs] Let_def)
  qed
qed

lemma fuzz_commands_reachable: "parser_reachable fuzz_options (feed_incrementally fuzz_drain_commands bs)"
  unfolding feed_incrementally_def fuzz_drain_commands_def
  by (intro feed_reachable drain_commands_reachable parser_reachable.fresh)

end
