(* ===== verification/Spec2Isabelle.thy ===== *)
theory Spec2Isabelle
  imports Protocol_Props Storage_Props Config_Loader Recovery_Findings Persist_Findings Barrier Command_Findings Server_Findings Log_Lines Fuzz
begin

text \<open>
  A verification development for VeloxDB, an in-memory key-value server that speaks the RESP2 protocol,
  in C++.  Paths are relative to the repository.

  \<^bold>\<open>The program.\<close>  \<open>main\<close> loads the configuration, builds the storage engine, the metrics, the command
  registry, the snapshot store and the append-only file, restores the storage from snapshot and log,
  and runs the server.  The server runs an expiration thread and a TCP server with one acceptor and a
  number of workers.  A worker owns connections; an event on one of them makes it read bytes, hand them
  to the incremental parser of the connection, execute every complete command against the registry, and
  write the replies.  A write command changes the storage and is then appended to the log.  \<open>SAVE\<close> writes
  a snapshot with a manifest that records an offset of the log, \<open>BGREWRITEAOF\<close> replaces the log.

  \<^bold>\<open>Theories and sources.\<close>  A C++ class is a record, its methods are functions that return the new
  record, an enumeration is a datatype, an early return is a branch.

  \<^item> \<open>Prelude\<close>: integer types, shared facts on lists and association lists, the rule collections \<open>evals\<close> (what
    evaluates closed terms) and \<open>frame_simps\<close> (what an update leaves alone).
  \<^item> \<open>Util_Strings\<close>, \<open>Status_Codes\<close>: \<open>src/util/string.cpp\<close>, \<open>src/util/status.cpp\<close>.
  \<^item> \<open>Config_Types\<close>, \<open>Config_Loader\<close>: \<open>include/veloxdb/config/config.h\<close>, \<open>src/config/config.cpp\<close>.
  \<^item> \<open>Runtime\<close>, \<open>Log_Lines\<close>: \<open>src/metrics/metrics.cpp\<close>, \<open>src/util/logger.cpp\<close>.
  \<^item> \<open>Resp\<close>, with \<open>Resp_Props\<close>, \<open>Resp_Stream\<close> and \<open>Protocol_Props\<close>: \<open>src/protocol/resp.cpp\<close>; \<open>Fuzz\<close>: its fuzz harness.
  \<^item> \<open>Storage\<close>, with \<open>Storage_Inv\<close>, \<open>Storage_Ops\<close>, \<open>Storage_Sweep\<close>, \<open>Storage_Spec\<close>, \<open>Storage_Trace\<close>, \<open>Storage_Sim\<close> and
    \<open>Storage_Props\<close>: \<open>src/storage/storage_engine.cpp\<close>.
  \<^item> \<open>Os\<close>: the calls of the operating system that persistence uses, each of which may fail.
  \<^item> \<open>Aof\<close>, with \<open>Aof_Props\<close> and \<open>Persist_Props\<close>: \<open>src/persistence/aof.cpp\<close>; \<open>Barrier\<close>: its guards.
  \<^item> \<open>Snapshot\<close>, with \<open>Snapshot_Props\<close> and \<open>Restore\<close>: \<open>src/persistence/snapshot.cpp\<close>.
  \<^item> \<open>Commands\<close>, with \<open>Command_Inv\<close>, \<open>Log_Replay\<close> and \<open>Command_Findings\<close>: \<open>src/commands/commands.cpp\<close> and
    \<open>command_registry.cpp\<close>.
  \<^item> \<open>Recovery\<close>, with \<open>Recovery_Props\<close>, \<open>Recovery_Findings\<close> and \<open>Persist_Findings\<close>: \<open>src/main.cpp\<close>.
  \<^item> \<open>Net\<close>, \<open>Tcp_Server\<close>, with \<open>Net_Props\<close>: \<open>src/net/tcp_server.cpp\<close>; \<open>Server_Loop\<close>, with \<open>Server_Inv\<close>, \<open>Server_Props\<close>
    and \<open>Server_Findings\<close>: \<open>src/server/server.cpp\<close> and the threads.

  \<^bold>\<open>State.\<close>  Bytes are \<open>string\<close>; \<open>size_t\<close> is \<open>nat\<close>, \<open>int64_t\<close> is \<open>int\<close> with range and wrap-around written out;
  \<open>StorageEngine\<close> is a list of shards, each an association list for its \<open>unordered_map\<close>;
  \<open>CommandContext\<close> has the components that a command can reach and the state of the operating system;
  \<open>World\<close> adds the sockets.  The readings of a clock are an argument, a function from the number of the
  reading to a time; the hash function and whether allocation succeeds are parameters of the engine.

  \<^bold>\<open>Contracts.\<close>  \<open>stream_decoder\<close> and \<open>framed_codec\<close> say what a decoder of a byte stream guarantees; the parser is an
  instance, and the connections, the replay of the log and the loading of a snapshot use them.
  \<open>kv_store\<close> is what a store promises; the engine is an instance.  \<open>command_table\<close> is what every handler of
  the registry keeps.  \<open>restorer\<close> is what it takes to restore a store from \<open>SET\<close> and \<open>PEXPIREAT\<close>; loading a
  snapshot and replaying a log are instances.  \<open>worker_operation\<close> is what everything a worker does keeps.

  \<^bold>\<open>What is shown.\<close>

  \<^item> Protocol: commands and replies parse back; parsing does not depend on how the bytes arrive, makes
    progress, ends, and respects the limits, which for inline requests leave out the number of elements.
  \<^item> Storage: every operation, on every branch, against a map with expiries (a refinement of runs of
    operations); the invariant of shards and memory counters; sweeps and active expiration.
  \<^item> Persistence: an acknowledged append survives a crash under the policy \<open>always\<close>; snapshots, manifests and
    rewrites replace their file as a whole or not at all whatever call fails; a rewritten log that fits the
    limits of the parser replays to the live keys; a crash that leaves any prefix of the log, with or
    without an intact snapshot, is recovered to the state after a prefix of the commands, expiries
    included when the restart comes before the deadlines, for commands other than those on the files,
    a log within \<open>max_request_bytes\<close> and calls that do not fail; at a checkpoint, in every interleaving of the
    writers, the log has the records of the changes made to the storage, and the recorded offset is its
    length.
  \<^item> Commands: every command with any arguments keeps the invariant.
  \<^item> Network: replies come in order and once each, output is neither lost nor reordered, is watched until
    sent and eventually sent when the peer reads, the buffers of connections that are not to be closed are
    bounded, descriptors and counters are accounted for in every interleaving of the threads; the \<open>poll\<close>
    build does and watches what the \<open>epoll\<close> build does and watches.
  \<^item> Configuration: a load is the settings of file, environment and command line one after the other, so
    the last one decides; ranges of the result, atomicity of a setting.
  \<^item> The theories named \<open>Findings\<close> and the second half of \<open>Barrier\<close> prove behaviours that the program should not
    have: commands acknowledged behind a torn end of the log are lost by the next restart; replay after
    a deadline differs from what was executed; concurrent writers of a key can be logged in the wrong
    order; a \<open>SAVE\<close> that fails half-way is replayed twice; a snapshot is not synced; the client limit can be
    exceeded; replies to a client that has closed its sending side are dropped.  \<open>closing_output_unbounded\<close>
    (in \<open>Net_Props\<close>), \<open>inline_exceeds_array_limit\<close> (in \<open>Protocol_Props\<close>) and \<open>oversized_log_refused\<close> (in \<open>Persist_Props\<close>)
    are of the same kind.

  \<^bold>\<open>Bounds.\<close>  Functions over the parser and the file system are total, with a measure in their
  \<open>termination\<close> proofs; \<open>decode_stream\<close> alone takes fuel, and is given one more than the number of bytes,
  which is enough as every item takes a byte.  The event loops have no end of their own: they are
  functions of the list of results of their wait calls, and a theorem for all lists covers every
  finite run.  Recovery is shown up to a horizon: a time that the clocks do not pass and that lies before
  every deadline, by the two milliseconds that the rounding of deadlines in the log can cost, or the
  end of time for commands that set no deadline.  \<open>restart_after_deadline_diverges\<close> shows that beyond it
  the log need not replay to what was executed.  The restoring of snapshots and rewritten logs
  covers expiries, to the millisecond that the files record.

  \<^bold>\<open>Granularity.\<close>  A method that holds a mutex throughout is one step.  \<open>system_step\<close> interleaves whole events
  of the workers; \<open>barrier_step\<close> looks into a write command, with the change of the storage and the append
  as steps of their own.  Commands on several keys, and \<open>DBSIZE\<close>, \<open>INFO\<close>, \<open>FLUSHDB\<close> and snapshots, visit the shards
  one after the other in the code and are one step here.

  \<^bold>\<open>Idealisations.\<close>  Whether allocation succeeds is one answer for the whole life of an engine.  An \<open>fsync\<close> that
  succeeds puts all bytes of the file on stable storage, also after one that failed.  The flags \<open>EPOLLHUP\<close> and
  \<open>EPOLLRDHUP\<close> of \<open>epoll\<close> and \<open>POLLHUP\<close> of \<open>poll\<close> are one bit, although \<open>poll\<close> does not report a peer that has only
  closed its sending side.  The commands that a start replays act on the storage and the metrics; what a
  command in the log that works on files would do to them (no handler logs one) is left out.

  \<^bold>\<open>Not modelled.\<close>  Directories, other than as a call that may fail; messages printed by \<open>main\<close> and the
  calls of the logger in the other components; the signal handler, which sets the flag that the loops
  get as an argument; constructors and destructors that only copy references or call \<open>stop\<close>; memory
  ordering of the atomics; log times before 1970; the tests, the benchmark and the scripts, which only call
  what is modelled.
\<close>

end
